(* ===== verification/Br_Prelude.thy ===== *)
theory Br_Prelude
  imports Main "HOL-Library.Word" "HOL-Library.Signed_Division"
begin

text \<open>
  The prelude of the development: the machine types of the MIPS32 kernel, the string and memory
  comparison routines the bridge calls (lib/string.c, include/asm-mips/string.h), the jiffies
  comparisons of include/linux/timer.h, Ethernet addresses as six bytes, and the generic lemmas on
  lists and folds that the component theories share.
\<close>

unbundle bit_operations_syntax

named_theorems br_frame \<open>operations that leave a field of the bridge alone\<close>
named_theorems br_port_nos \<open>operations that keep the sequence of port numbers\<close>

section \<open>Machine types\<close>

text \<open>
  \<^verbatim>\<open>unsigned char\<close>, \<^verbatim>\<open>__u16\<close> and the 32-bit \<^verbatim>\<open>unsigned long\<close> and \<^verbatim>\<open>int\<close> of MIPS32. An \<^verbatim>\<open>int\<close> is a word too:
  its sum wraps as \<^verbatim>\<open>addu\<close> does, and a comparison of two of them reads both with \<open>sint\<close>.
\<close>

type_synonym u8 = "8 word"
type_synonym u16 = "16 word"
type_synonym u32 = "32 word"
type_synonym s32 = "32 word"

definition HZ :: nat where
  "HZ = 100"

section \<open>memcmp\<close>

text \<open>
  \<^verbatim>\<open>memcmp\<close> of lib/string.c (MIPS defines no version of its own). The difference of the first two
  bytes that differ is stored in a \<^verbatim>\<open>signed char\<close> before it is returned, so it is reduced to eight
  bits: the sign is the sign of the byte difference only while that difference fits.
\<close>

fun memcmp :: "u8 list \<Rightarrow> u8 list \<Rightarrow> nat \<Rightarrow> int" where
  "memcmp (x # xs) (y # ys) (Suc n) =
     (let res = sint (x - y) in if res \<noteq> 0 then res else memcmp xs ys n)"
| "memcmp xs ys n = 0"

text \<open>The reference: the unsigned lexicographic comparison of C's \<^verbatim>\<open>memcmp\<close>, without the truncation.\<close>

fun bytes_diff :: "u8 list \<Rightarrow> u8 list \<Rightarrow> int" where
  "bytes_diff (x # xs) (y # ys) = (if x \<noteq> y then int (unat x) - int (unat y) else bytes_diff xs ys)"
| "bytes_diff xs ys = 0"

text \<open>The signed char keeps the byte difference: every pair of bytes is less than 128 apart.\<close>

definition memcmp_safe :: "u8 list \<Rightarrow> u8 list \<Rightarrow> bool" where
  "memcmp_safe xs ys \<longleftrightarrow> - 128 \<le> bytes_diff xs ys \<and> bytes_diff xs ys \<le> 127"

lemma sint_diff_eq_0 [simp]: "sint (x - y) = 0 \<longleftrightarrow> x = (y :: 'a :: len word)"
  by (metis eq_iff_diff_eq_0 signed_0 signed_word_eqI)

lemma memcmp_eq_0_iff:
  "length xs = n \<Longrightarrow> length ys = n \<Longrightarrow> memcmp xs ys n = 0 \<longleftrightarrow> xs = ys"
proof (induction xs ys n rule: memcmp.induct)
  case (1 x xs y ys n)
  then show ?case by (auto simp: Let_def)
qed auto

lemma sint_byte_diff:
  assumes "- 128 \<le> int (unat x) - int (unat y)" and "int (unat x) - int (unat y) \<le> 127"
  shows "sint (x - y) = int (unat x) - int (unat (y :: u8))"
proof -
  have "x - y = word_of_int (int (unat x) - int (unat y))"
    by simp
  then have "sint (x - y) = signed_take_bit 7 (int (unat x) - int (unat y))"
    by (simp only: sint_sbintrunc') simp
  also have "\<dots> = int (unat x) - int (unat y)"
    using assms by (simp add: signed_take_bit_int_eq_self)
  finally show ?thesis .
qed

text \<open>Wherever the signed char keeps the difference, \<^verbatim>\<open>memcmp\<close> is the reference comparison.\<close>

lemma memcmp_bytes_diff:
  "length xs = n \<Longrightarrow> length ys = n \<Longrightarrow> memcmp_safe xs ys \<Longrightarrow> memcmp xs ys n = bytes_diff xs ys"
proof (induction xs ys n rule: memcmp.induct)
  case (1 x xs y ys n)
  show ?case
  proof (cases "x = y")
    case True
    with "1" show ?thesis by (simp add: memcmp_safe_def)
  next
    case False
    with "1.prems" have "sint (x - y) = int (unat x) - int (unat y)"
      by (intro sint_byte_diff) (auto simp: memcmp_safe_def)
    with False show ?thesis by (simp add: Let_def word_unat_eq_iff del: of_nat_unat)
  qed
qed auto

section \<open>Byte strings as numbers\<close>

text \<open>
  The big-endian value of a byte string. On strings of equal length the unsigned comparison of
  bytes is the comparison of the values, which is how IEEE 802.1D orders bridge identifiers.
\<close>

fun be_val :: "u8 list \<Rightarrow> nat" where
  "be_val [] = 0"
| "be_val (x # xs) = unat x * 256 ^ length xs + be_val xs"

lemma be_val_bound: "be_val xs < 256 ^ length xs"
proof (induction xs)
  case (Cons x xs)
  have "unat x < 256"
    using unsigned_less [of x, where 'a = nat] by simp
  then have "unat x * 256 ^ length xs + be_val xs < (unat x + 1) * 256 ^ length xs"
    using Cons.IH by (simp add: algebra_simps)
  also have "\<dots> \<le> 256 * 256 ^ length xs"
    using \<open>unat x < 256\<close> by (intro mult_le_mono1) simp
  finally show ?case by simp
qed simp

lemma be_val_Cons_less:
  assumes "length xs = length ys" and "unat x < unat y"
  shows "be_val (x # xs) < be_val (y # ys)"
proof -
  have "be_val (x # xs) < (unat x + 1) * 256 ^ length xs"
    using be_val_bound [of xs] by (simp add: algebra_simps)
  also have "\<dots> \<le> unat y * 256 ^ length xs"
    using assms(2) by (intro mult_le_mono1) simp
  also have "\<dots> \<le> be_val (y # ys)"
    using assms(1) by simp
  finally show ?thesis .
qed

lemma bytes_diff_less_0_iff:
  "length xs = length ys \<Longrightarrow> bytes_diff xs ys < 0 \<longleftrightarrow> be_val xs < be_val ys"
proof (induction xs ys rule: bytes_diff.induct)
  case (1 x xs y ys)
  consider "x = y" | "unat x < unat y" | "unat y < unat x"
    by (metis linorder_less_linear unsigned_word_eqI)
  then show ?case
  proof cases
    case 1
    with "1.IH" "1.prems" show ?thesis by simp
  next
    case 2
    then have "x \<noteq> y" by auto
    with 2 be_val_Cons_less [of xs ys x y] "1.prems" show ?thesis by (simp del: of_nat_unat)
  next
    case 3
    then have "x \<noteq> y" by auto
    with 3 be_val_Cons_less [of ys xs y x] "1.prems" show ?thesis by (simp del: of_nat_unat)
  qed
qed auto

lemma bytes_diff_eq_0_iff: "length xs = length ys \<Longrightarrow> bytes_diff xs ys = 0 \<longleftrightarrow> xs = ys"
  by (induction xs ys rule: bytes_diff.induct) (auto simp: word_unat_eq_iff simp del: of_nat_unat)

lemma bytes_diff_swap: "bytes_diff ys xs = - bytes_diff xs ys"
  by (induction xs ys rule: bytes_diff.induct) auto

lemma be_val_inject: "length xs = length ys \<Longrightarrow> be_val xs = be_val ys \<longleftrightarrow> xs = ys"
  using bytes_diff_less_0_iff [of xs ys] bytes_diff_less_0_iff [of ys xs]
    bytes_diff_eq_0_iff [of xs ys] bytes_diff_swap [of ys xs] by fastforce

lemma memcmp_less_iff:
  assumes "length xs = n" and "length ys = n" and "memcmp_safe xs ys"
  shows "memcmp xs ys n < 0 \<longleftrightarrow> be_val xs < be_val ys"
  using assms by (simp add: memcmp_bytes_diff bytes_diff_less_0_iff)

lemma memcmp_greater_iff:
  assumes "length xs = n" and "length ys = n" and "memcmp_safe xs ys"
  shows "memcmp xs ys n > 0 \<longleftrightarrow> be_val ys < be_val xs"
  using assms bytes_diff_less_0_iff [of ys xs] bytes_diff_swap [of ys xs]
  by (simp add: memcmp_bytes_diff)

section \<open>Ethernet addresses\<close>

text \<open>\<^verbatim>\<open>unsigned char addr[6]\<close>: exactly six bytes.\<close>

datatype mac = MAC u8 u8 u8 u8 u8 u8

primrec mac_bytes :: "mac \<Rightarrow> u8 list" where
  "mac_bytes (MAC a b c d e f) = [a, b, c, d, e, f]"

definition ETH_ALEN :: nat where
  "ETH_ALEN = 6"

definition br_mac_zero :: mac where
  "br_mac_zero = MAC 0 0 0 0 0 0"

lemma length_mac_bytes [simp]: "length (mac_bytes m) = 6"
  by (cases m) simp

lemma mac_bytes_inject [simp]: "mac_bytes m = mac_bytes m' \<longleftrightarrow> m = m'"
  by (cases m; cases m') simp

lemma memcmp_mac_eq_0 [simp]: "memcmp (mac_bytes m) (mac_bytes m') ETH_ALEN = 0 \<longleftrightarrow> m = m'"
  by (simp add: memcmp_eq_0_iff ETH_ALEN_def)

section \<open>C strings\<close>

text \<open>
  A C string is the list of its characters; reading at its end reads the NUL byte.
  \<^verbatim>\<open>strcmp\<close> and \<^verbatim>\<open>strncmp\<close> are the MIPS routines, which load unsigned bytes.
\<close>

definition c_char :: "string \<Rightarrow> int" where
  "c_char s = (case s of [] \<Rightarrow> 0 | c # _ \<Rightarrow> int (of_char c :: nat))"

fun strncmp :: "string \<Rightarrow> string \<Rightarrow> nat \<Rightarrow> int" where
  "strncmp s t 0 = 0"
| "strncmp s t (Suc n) =
     (if c_char s \<noteq> c_char t then c_char s - c_char t
      else if c_char s = 0 then 0
      else strncmp (tl s) (tl t) n)"

text \<open>The longer of the two strings bounds the number of characters \<^verbatim>\<open>strcmp\<close> reads.\<close>

definition strcmp :: "string \<Rightarrow> string \<Rightarrow> int" where
  "strcmp s t = strncmp s t (Suc (max (length s) (length t)))"

text \<open>A string whose characters are not NUL, as every name stored by the kernel is.\<close>

definition c_string :: "string \<Rightarrow> bool" where
  "c_string s \<longleftrightarrow> CHR 0x00 \<notin> set s"

lemma c_char_simps [simp]:
  "c_char [] = 0"
  "c_char (c # s) = int (of_char c :: nat)"
  by (simp_all add: c_char_def)

lemma of_char_eq_0_iff: "(of_char c :: nat) = 0 \<longleftrightarrow> c = CHR 0x00"
proof -
  have "(of_char c :: nat) = of_char (CHR 0x00) \<longleftrightarrow> c = CHR 0x00"
    by (rule of_char_eq_iff)
  then show ?thesis by simp
qed

lemma strncmp_eq_0_iff:
  "c_string s \<Longrightarrow> c_string t \<Longrightarrow> strncmp s t n = 0 \<longleftrightarrow> take n s = take n t"
proof (induction n arbitrary: s t)
  case (Suc n)
  from Suc.prems show ?case
    by (cases s; cases t) (auto simp: Suc.IH c_string_def of_char_eq_0_iff)
qed simp

lemma strcmp_eq_0_iff: "c_string s \<Longrightarrow> c_string t \<Longrightarrow> strcmp s t = 0 \<longleftrightarrow> s = t"
  unfolding strcmp_def by (subst strncmp_eq_0_iff) auto

lemma strncmp_refl [simp]: "strncmp s s n = 0"
  by (induction n arbitrary: s) simp_all

lemma strcmp_refl [simp]: "strcmp s s = 0"
  by (simp add: strcmp_def)

section \<open>Jiffies\<close>

text \<open>
  The comparisons of include/linux/timer.h: the sign of the wrapped difference, so they survive the
  wrap-around of the 32-bit tick counter as long as the two times are less than 2^31 ticks apart.
\<close>

definition time_after_eq :: "u32 \<Rightarrow> u32 \<Rightarrow> bool" where
  "time_after_eq a b \<longleftrightarrow> 0 \<le> sint (a - b)"

definition time_before_eq :: "u32 \<Rightarrow> u32 \<Rightarrow> bool" where
  "time_before_eq a b \<longleftrightarrow> time_after_eq b a"

lemma sint_word_of_int_32:
  "- (2 ^ 31) \<le> i \<Longrightarrow> i < 2 ^ 31 \<Longrightarrow> sint (word_of_int i :: 32 word) = i"
  by (simp add: int_word_sint mod_pos_pos_trivial)

text \<open>A time is reached exactly when at least that many ticks have passed, for up to 2^31 ticks.\<close>

lemma time_after_eq_add:
  assumes "d < 2 ^ 31" and "e < 2 ^ 31"
  shows "time_after_eq (t + of_nat e) (t + of_nat d) \<longleftrightarrow> d \<le> e"
proof -
  have "(t + of_nat e) - (t + of_nat d) = (word_of_int (int e - int d) :: u32)"
    by simp
  then have "sint ((t + of_nat e) - (t + of_nat d) :: u32) = int e - int d"
    using assms sint_word_of_int_32 [of "int e - int d"] by simp
  then show ?thesis
    by (simp add: time_after_eq_def)
qed

section \<open>Lists searched by a key\<close>

text \<open>Looking up and updating the element of a list with a given key (a port number, an address).\<close>

lemma find_key_Some: "find (\<lambda>x. k x = n) xs = Some x \<Longrightarrow> x \<in> set xs \<and> k x = n"
  by (auto simp: find_Some_iff)

lemma find_key_None_iff: "find (\<lambda>x. k x = n) xs = None \<longleftrightarrow> n \<notin> set (map k xs)"
  by (auto simp: find_None_iff)

lemma find_key_in: "distinct (map k xs) \<Longrightarrow> x \<in> set xs \<Longrightarrow> find (\<lambda>y. k y = k x) xs = Some x"
  by (induction xs) (auto simp: rev_image_eqI)

lemma find_key_map_upd:
  assumes "\<And>x. k (f x) = k x"
  shows "find (\<lambda>x. k x = m) (map (\<lambda>x. if k x = n then f x else x) xs) =
    (if m = n then map_option f (find (\<lambda>x. k x = m) xs) else find (\<lambda>x. k x = m) xs)"
  by (induction xs) (auto simp: assms)

lemma map_key_map_upd:
  assumes "\<And>x. k (f x) = k x"
  shows "map k (map (\<lambda>x. if k x = n then f x else x) xs) = map k xs"
  by (auto simp: assms)

lemma option_ex_iff: "(\<exists>x. a = Some x) \<longleftrightarrow> a \<noteq> None"
  by (cases a) auto

end
