(* ===== verification/Br_Data.thy ===== *)
theory Br_Data
  imports Br_Prelude
begin

text \<open>
  The data of the Ethernet bridge (br_private.h, br_private_stp.h, br_private_timer.h and the
  constants of include/linux/if_bridge.h): bridge identifiers, timers, forwarding database entries,
  filter entries, ports and the bridge itself.

  A pointer to a \<^verbatim>\<open>struct net_bridge_port\<close> of a bridge is its port number: the numbers of the ports on
  the port list are pairwise distinct in every reachable state (theory Br_Safety). The port list is
  the list of its ports, head first. Four fields of the bridge are not in the C structure: \<open>out\<close> is the
  sequence of calls through which packets leave the bridge, \<open>mem\<close> holds the outcomes of the next
  memory allocations (an allocation succeeds once the list is used up), \<open>next_skb\<close> is the number the
  next packet buffer gets, and \<open>oopsed\<close> is set when the code follows a NULL or dangling pointer.
\<close>

section \<open>Bridge identifiers\<close>

text \<open>\<^verbatim>\<open>struct bridge_id\<close>: two bytes of priority and six of address, compared by \<^verbatim>\<open>memcmp(a, b, 8)\<close>.\<close>

datatype bridge_id = Bridge_id (prio0: u8) (prio1: u8) (id_addr: mac)

definition bid_bytes :: "bridge_id \<Rightarrow> u8 list" where
  "bid_bytes b = prio0 b # prio1 b # mac_bytes (id_addr b)"

definition bid_cmp :: "bridge_id \<Rightarrow> bridge_id \<Rightarrow> int" where
  "bid_cmp a b = memcmp (bid_bytes a) (bid_bytes b) 8"

text \<open>The numeric value of an identifier, by which IEEE 802.1D orders bridges.\<close>

definition bid_val :: "bridge_id \<Rightarrow> nat" where
  "bid_val b = be_val (bid_bytes b)"

definition bid_safe :: "bridge_id \<Rightarrow> bridge_id \<Rightarrow> bool" where
  "bid_safe a b \<longleftrightarrow> memcmp_safe (bid_bytes a) (bid_bytes b)"

lemma length_bid_bytes [simp]: "length (bid_bytes b) = 8"
  by (simp add: bid_bytes_def)

lemma bid_bytes_inject [simp]: "bid_bytes a = bid_bytes b \<longleftrightarrow> a = b"
  by (cases a; cases b) (simp add: bid_bytes_def)

lemma bid_val_inject [simp]: "bid_val a = bid_val b \<longleftrightarrow> a = b"
  by (simp add: bid_val_def be_val_inject)

lemma bid_cmp_eq_0 [simp]: "bid_cmp a b = 0 \<longleftrightarrow> a = b"
  by (simp add: bid_cmp_def memcmp_eq_0_iff)

lemma bid_cmp_less: "bid_safe a b \<Longrightarrow> bid_cmp a b < 0 \<longleftrightarrow> bid_val a < bid_val b"
  by (simp add: bid_cmp_def bid_safe_def bid_val_def memcmp_less_iff)

lemma bid_cmp_greater: "bid_safe a b \<Longrightarrow> bid_cmp a b > 0 \<longleftrightarrow> bid_val b < bid_val a"
  by (simp add: bid_cmp_def bid_safe_def bid_val_def memcmp_greater_iff)

text \<open>The intended order on identifiers, as an instance of the library's linear orders.\<close>

instantiation bridge_id :: linorder
begin

definition less_eq_bridge_id :: "bridge_id \<Rightarrow> bridge_id \<Rightarrow> bool" where
  "less_eq_bridge_id a b \<longleftrightarrow> bid_val a \<le> bid_val b"

definition less_bridge_id :: "bridge_id \<Rightarrow> bridge_id \<Rightarrow> bool" where
  "less_bridge_id a b \<longleftrightarrow> bid_val a < bid_val b"

instance
  by intro_classes (auto simp: less_eq_bridge_id_def less_bridge_id_def antisym)

end

lemma bid_cmp_less_order: "bid_safe a b \<Longrightarrow> bid_cmp a b < 0 \<longleftrightarrow> a < b"
  by (simp add: bid_cmp_less less_bridge_id_def)

lemma bid_cmp_greater_order: "bid_safe a b \<Longrightarrow> bid_cmp a b > 0 \<longleftrightarrow> b < a"
  by (simp add: bid_cmp_greater less_bridge_id_def)

section \<open>Port states\<close>

text \<open>
  The states of a port with the values of the fast-path build, one bit each, so that the code tests
  them with a mask.
\<close>

datatype br_state =
    BR_STATE_DISABLED
  | BR_STATE_LISTENING
  | BR_STATE_LEARNING
  | BR_STATE_FORWARDING
  | BR_STATE_BLOCKING

primrec state_val :: "br_state \<Rightarrow> u32" where
  "state_val BR_STATE_DISABLED = 0"
| "state_val BR_STATE_LISTENING = 1"
| "state_val BR_STATE_LEARNING = 2"
| "state_val BR_STATE_FORWARDING = 4"
| "state_val BR_STATE_BLOCKING = 8"

lemma state_val_forwarding [simp]:
  "state_val s AND state_val BR_STATE_FORWARDING \<noteq> 0 \<longleftrightarrow> s = BR_STATE_FORWARDING"
  by (cases s) auto

lemma state_val_learning [simp]:
  "state_val s AND (state_val BR_STATE_LEARNING OR state_val BR_STATE_FORWARDING) \<noteq> 0
     \<longleftrightarrow> s = BR_STATE_LEARNING \<or> s = BR_STATE_FORWARDING"
  by (cases s) auto

section \<open>Timers\<close>

record br_timer =
  t_running :: bool
  t_expires :: u32

definition br_timer_clear :: "br_timer \<Rightarrow> br_timer" where
  "br_timer_clear t = t\<lparr>t_running := False\<rparr>"

definition br_timer_get_residue :: "u32 \<Rightarrow> br_timer \<Rightarrow> u32" where
  "br_timer_get_residue jiffies t = (if t_running t then jiffies - t_expires t else 0)"

definition br_timer_set :: "u32 \<Rightarrow> br_timer \<Rightarrow> br_timer" where
  "br_timer_set x t = t\<lparr>t_expires := x, t_running := True\<rparr>"

definition br_timer_is_running :: "br_timer \<Rightarrow> bool" where
  "br_timer_is_running t = t_running t"

definition br_timer_has_expired :: "u32 \<Rightarrow> br_timer \<Rightarrow> u32 \<Rightarrow> bool" where
  "br_timer_has_expired jiffies t to \<longleftrightarrow>
     t_running t \<and> time_after_eq jiffies (t_expires t + to)"

lemmas br_timer_defs = br_timer_clear_def br_timer_get_residue_def br_timer_set_def
  br_timer_is_running_def br_timer_has_expired_def

section \<open>Devices\<close>

text \<open>
  What the bridge uses of \<^verbatim>\<open>struct net_device\<close>. The field \<^verbatim>\<open>br_port\<close> is NULL, a port of the bridge, or a
  pointer to a port that has been freed; \<open>dev_listed\<close> tells whether the device is on the kernel's list \<^verbatim>\<open>dev_base\<close>,
  \<open>dev_gpromisc\<close> is the flag \<^verbatim>\<open>IFF_PROMISC\<close> of \<^verbatim>\<open>gflags\<close>, what user space has asked for. The scheduler keeps
  the MTU of the upstream direction in \<^verbatim>\<open>unused_alignment_fixer\<close>.
\<close>

datatype br_port_ptr = No_port | Port nat | Dangling_port

record net_device =
  dev_name :: string
  dev_addr :: mac
  ifindex :: nat
  dev_up :: bool
  dev_loopback :: bool
  dev_ether :: bool
  promiscuity :: int
  dev_refcnt :: int
  dev_br_port :: br_port_ptr
  dev_listed :: bool
  dev_gpromisc :: bool
  dev_mtu :: u32
  unused_alignment_fixer :: u16
  tx_queue_len :: u32

record net_device_stats =
  rx_packets :: u32
  rx_bytes :: u32
  tx_packets :: u32
  tx_bytes :: u32
  tx_dropped :: u32

section \<open>Database entries\<close>

record net_bridge_fdb_entry =
  use_count :: int
  fdb_addr :: mac
  fdb_dst :: "nat option"
  ageing_timer :: u32
  is_local :: bool
  is_static :: bool

record bridge_fw_db_entry =
  sport :: string
  dport :: string
  src_mac_addr :: mac
  dst_mac_addr :: mac
  eth_proto :: u16
  access_type :: u8
  match_check :: u8
  frames_matched :: u32

section \<open>Multicast groups\<close>

text \<open>
  The nodes and groups of br_mfd.h (\<^verbatim>\<open>struct port_list\<close>, \<^verbatim>\<open>struct net_bridge_mfd_entry\<close>), by address, and
  the table that holds them: the chain of each bucket, the groups and nodes in memory, the pending
  timers by the node they belong to, and the next unused address.
\<close>

record port_node =
  pl_next :: "nat option"
  pl_mfd :: nat
  pl_dst :: nat
  vinfo :: bool
  dont_forward_report :: bool

record net_bridge_mfd_entry =
  port_count :: int
  mfd_addr :: u32
  plist :: "nat option"

record mfd_table =
  mfd_hash :: "nat \<Rightarrow> nat list"
  mfd_ents :: "nat \<Rightarrow> net_bridge_mfd_entry option"
  mfd_nodes :: "nat \<Rightarrow> port_node option"
  mc_timers :: "nat \<Rightarrow> u32 option"
  mfd_fresh :: nat

definition empty_mfd :: mfd_table where
  "empty_mfd =
     \<lparr>mfd_hash = (\<lambda>_. []), mfd_ents = (\<lambda>_. None), mfd_nodes = (\<lambda>_. None), mc_timers = (\<lambda>_. None), mfd_fresh = 0\<rparr>"

section \<open>Configuration messages\<close>

record br_config_bpdu =
  b_topology_change :: bool
  b_topology_change_ack :: bool
  b_root :: bridge_id
  b_root_path_cost :: s32
  b_bridge_id :: bridge_id
  b_port_id :: u16
  b_message_age :: s32
  b_max_age :: s32
  b_hello_time :: s32
  b_forward_delay :: s32

section \<open>Ports and the bridge\<close>

record net_bridge_port =
  p_dev :: net_device
  port_no :: nat
  port_id :: u16
  p_state :: br_state
  path_cost :: s32
  p_designated_root :: bridge_id
  p_designated_cost :: s32
  p_designated_bridge :: bridge_id
  p_designated_port :: u16
  p_topology_change_ack :: bool
  config_pending :: bool
  p_priority :: s32
  forward_delay_timer :: br_timer
  hold_timer :: br_timer
  message_age_timer :: br_timer

text \<open>
  The calls through which a packet leaves the bridge: a new frame to a device queue, a buffer to a
  driver, a buffer up the local stack, a buffer back to the allocator. Buffers are named by numbers.
\<close>

datatype out_event =
    Dev_queue_xmit nat "u8 list"
  | Hard_start_xmit nat nat
  | Netif_rx nat
  | Kfree_skb nat

record net_bridge =
  port_list :: "net_bridge_port list"
  br_dev :: net_device
  statistics :: net_device_stats
  hash :: "nat \<Rightarrow> net_bridge_fdb_entry list"
  mfd :: mfd_table
  mc_forwarding :: s32
  filter_lock :: int
  blacklist :: "bridge_fw_db_entry list"
  tick :: "u32 option"
  designated_root :: bridge_id
  root_path_cost :: s32
  root_port :: nat
  max_age :: s32
  hello_time :: s32
  forward_delay :: s32
  bridge_ident :: bridge_id
  bridge_max_age :: s32
  bridge_hello_time :: s32
  bridge_forward_delay :: s32
  stp_enabled :: bool
  topology_change :: bool
  topology_change_detected :: bool
  br_filter_active :: bool
  hello_timer :: br_timer
  tcn_timer :: br_timer
  topology_change_timer :: br_timer
  gc_timer :: br_timer
  ageing_time :: s32
  gc_interval :: s32
  out :: "out_event list"
  mem :: "bool list"
  next_skb :: nat
  oopsed :: bool

end
