(* ===== verification/Br_Bpdu.thy ===== *)
theory Br_Bpdu
  imports Br_Data
begin

text \<open>
  Access to the ports of a bridge, and the transmission and decoding of bridge protocol data units
  (br_stp_bpdu.c). The 38 bytes of a configuration message are built and taken apart field by field
  as the code does it; times travel as sixteen-bit counts of 1/256 second.
\<close>

section \<open>Ports of a bridge\<close>

definition br_get_port :: "net_bridge \<Rightarrow> nat \<Rightarrow> net_bridge_port option" where
  "br_get_port br n = find (\<lambda>p. port_no p = n) (port_list br)"

text \<open>A write through a port pointer.\<close>

definition upd_port :: "nat \<Rightarrow> (net_bridge_port \<Rightarrow> net_bridge_port) \<Rightarrow> net_bridge \<Rightarrow> net_bridge" where
  "upd_port n f br =
     br\<lparr>port_list := map (\<lambda>p. if port_no p = n then f p else p) (port_list br)\<rparr>"

text \<open>The effect of following a NULL or dangling port pointer.\<close>

definition fault :: "net_bridge \<Rightarrow> net_bridge" where
  "fault br = br\<lparr>oopsed := True\<rparr>"

definition deref :: "nat \<Rightarrow> (net_bridge_port \<Rightarrow> net_bridge \<Rightarrow> net_bridge) \<Rightarrow> net_bridge \<Rightarrow> net_bridge" where
  "deref n f br = (case br_get_port br n of None \<Rightarrow> fault br | Some p \<Rightarrow> f p br)"

text \<open>A walk over the port list, \<^verbatim>\<open>p = br->port_list; while (p != NULL) { ...; p = p->next; }\<close>.\<close>

definition port_nos :: "net_bridge \<Rightarrow> nat list" where
  "port_nos br = map port_no (port_list br)"

definition for_each_port ::
    "(net_bridge_port \<Rightarrow> net_bridge \<Rightarrow> net_bridge) \<Rightarrow> net_bridge \<Rightarrow> net_bridge" where
  "for_each_port f br = fold (\<lambda>n. deref n f) (port_nos br) br"

text \<open>A memory allocation: its outcome, and the bridge after it.\<close>

definition alloc :: "net_bridge \<Rightarrow> bool \<times> net_bridge" where
  "alloc br = (case mem br of [] \<Rightarrow> (True, br) | ok # rest \<Rightarrow> (ok, br\<lparr>mem := rest\<rparr>))"

definition emit :: "out_event \<Rightarrow> net_bridge \<Rightarrow> net_bridge" where
  "emit e br = br\<lparr>out := out br @ [e]\<rparr>"

text \<open>A change of the multicast table, which fails at a bad pointer, and the interface index of a port.\<close>

definition on_mfd :: "(mfd_table \<Rightarrow> mfd_table option) \<Rightarrow> net_bridge \<Rightarrow> net_bridge" where
  "on_mfd f br = (case f (mfd br) of None \<Rightarrow> fault br | Some t \<Rightarrow> br\<lparr>mfd := t\<rparr>)"

definition port_index :: "net_bridge \<Rightarrow> nat \<Rightarrow> nat option" where
  "port_index br n = map_option (\<lambda>p. ifindex (p_dev p)) (br_get_port br n)"

section \<open>Sending\<close>

definition bridge_ula :: "u8 list" where
  "bridge_ula = [0x01, 0x80, 0xc2, 0x00, 0x00, 0x00]"

definition br_send_bpdu :: "nat \<Rightarrow> u8 list \<Rightarrow> net_bridge \<Rightarrow> net_bridge" where
  "br_send_bpdu n data br =
     deref n (\<lambda>p br.
       if \<not> stp_enabled br then br
       else
         (let len = length data;
              size = (if len + 2 * ETH_ALEN + 2 < 60 then 60 else len + 2 * ETH_ALEN + 2);
              (ok, br) = alloc br
          in if \<not> ok then br
             else emit (Dev_queue_xmit n
                    (bridge_ula @ mac_bytes (dev_addr (p_dev p)) @ [0, of_nat len] @ data
                     @ replicate (size - len - 2 * ETH_ALEN - 2) 0xa5)) br)) br"

definition JIFFIES_TO_TICKS :: "s32 \<Rightarrow> s32" where
  "JIFFIES_TO_TICKS j = word_of_int (sint (push_bit 8 j) sdiv int HZ)"

definition TICKS_TO_JIFFIES :: "s32 \<Rightarrow> s32" where
  "TICKS_TO_JIFFIES t = signed_drop_bit 8 (t * of_nat HZ)"

definition br_set_ticks :: "s32 \<Rightarrow> u8 list" where
  "br_set_ticks jiff =
     (let ticks = (ucast (JIFFIES_TO_TICKS jiff) :: u16)
      in [ucast (drop_bit 8 ticks AND 0xFF), ucast (ticks AND 0xFF)])"

definition br_get_ticks :: "u8 \<Rightarrow> u8 \<Rightarrow> s32" where
  "br_get_ticks d0 d1 = TICKS_TO_JIFFIES (push_bit 8 (ucast d0) OR ucast d1)"

definition BPDU_TYPE_CONFIG :: u8 where
  "BPDU_TYPE_CONFIG = 0"

definition BPDU_TYPE_TCN :: u8 where
  "BPDU_TYPE_TCN = 0x80"

definition bpdu_header :: "u8 list" where
  "bpdu_header = [0x42, 0x42, 0x03, 0x00, 0x00, 0x00]"

text \<open>
  The buffer \<^verbatim>\<open>br_send_config_bpdu\<close> fills. The shifts of the signed cost are masked to the byte they
  select, so the logical shift gives the same byte as the arithmetic one.
\<close>

definition config_bpdu_buf :: "br_config_bpdu \<Rightarrow> u8 list" where
  "config_bpdu_buf bpdu =
     [0x42, 0x42, 0x03, 0, 0, 0, BPDU_TYPE_CONFIG,
      (if b_topology_change bpdu then 0x01 else 0) OR (if b_topology_change_ack bpdu then 0x80 else 0)]
     @ bid_bytes (b_root bpdu)
     @ [ucast (drop_bit 24 (b_root_path_cost bpdu) AND 0xFF),
        ucast (drop_bit 16 (b_root_path_cost bpdu) AND 0xFF),
        ucast (drop_bit 8 (b_root_path_cost bpdu) AND 0xFF),
        ucast (b_root_path_cost bpdu AND 0xFF)]
     @ bid_bytes (b_bridge_id bpdu)
     @ [ucast (drop_bit 8 (b_port_id bpdu) AND 0xFF), ucast (b_port_id bpdu AND 0xFF)]
     @ br_set_ticks (b_message_age bpdu)
     @ br_set_ticks (b_max_age bpdu)
     @ br_set_ticks (b_hello_time bpdu)
     @ br_set_ticks (b_forward_delay bpdu)"

definition br_send_config_bpdu :: "nat \<Rightarrow> br_config_bpdu \<Rightarrow> net_bridge \<Rightarrow> net_bridge" where
  "br_send_config_bpdu n bpdu br = br_send_bpdu n (config_bpdu_buf bpdu) br"

definition br_send_tcn_bpdu :: "nat \<Rightarrow> net_bridge \<Rightarrow> net_bridge" where
  "br_send_tcn_bpdu n br = br_send_bpdu n [0x42, 0x42, 0x03, 0, 0, 0, BPDU_TYPE_TCN] br"

section \<open>Decoding\<close>

text \<open>The identifier stored in eight bytes of the received buffer, from offset \<open>i\<close>.\<close>

definition bid_at :: "u8 list \<Rightarrow> nat \<Rightarrow> bridge_id" where
  "bid_at buf i = Bridge_id (buf ! i) (buf ! (i + 1))
     (MAC (buf ! (i + 2)) (buf ! (i + 3)) (buf ! (i + 4)) (buf ! (i + 5)) (buf ! (i + 6)) (buf ! (i + 7)))"

definition parse_config_bpdu :: "u8 list \<Rightarrow> br_config_bpdu" where
  "parse_config_bpdu buf =
     \<lparr>b_topology_change = (buf ! 7 AND 0x01 \<noteq> 0),
      b_topology_change_ack = (buf ! 7 AND 0x80 \<noteq> 0),
      b_root = bid_at buf 8,
      b_root_path_cost =
        push_bit 24 (ucast (buf ! 16)) OR push_bit 16 (ucast (buf ! 17))
        OR push_bit 8 (ucast (buf ! 18)) OR ucast (buf ! 19),
      b_bridge_id = bid_at buf 20,
      b_port_id = push_bit 8 (ucast (buf ! 28)) OR ucast (buf ! 29),
      b_message_age = br_get_ticks (buf ! 30) (buf ! 31),
      b_max_age = br_get_ticks (buf ! 32) (buf ! 33),
      b_hello_time = br_get_ticks (buf ! 34) (buf ! 35),
      b_forward_delay = br_get_ticks (buf ! 36) (buf ! 37)\<rparr>"

section \<open>Facts about ports\<close>

lemma br_get_port_upd_port:
  assumes "\<And>p. port_no (f p) = port_no p"
  shows "br_get_port (upd_port n f br) m =
    (if m = n then map_option f (br_get_port br m) else br_get_port br m)"
  using find_key_map_upd [of port_no f m n, OF assms] by (simp add: br_get_port_def upd_port_def)

lemma br_get_port_Some: "br_get_port br n = Some p \<Longrightarrow> p \<in> set (port_list br) \<and> port_no p = n"
  unfolding br_get_port_def by (rule find_key_Some)

lemma br_get_port_port_no: "br_get_port br n = Some p \<Longrightarrow> port_no p = n"
  by (simp add: br_get_port_Some)

lemma br_get_port_None_iff: "br_get_port br n = None \<longleftrightarrow> n \<notin> set (port_nos br)"
  unfolding br_get_port_def port_nos_def by (rule find_key_None_iff)

lemma br_get_port_ex_iff: "(\<exists>p. br_get_port br n = Some p) \<longleftrightarrow> n \<in> set (port_nos br)"
  by (simp only: option_ex_iff br_get_port_None_iff not_not)

lemma br_get_port_in_list:
  "distinct (port_nos br) \<Longrightarrow> p \<in> set (port_list br) \<Longrightarrow> br_get_port br (port_no p) = Some p"
  unfolding br_get_port_def port_nos_def by (rule find_key_in)

lemma port_nos_upd_port:
  "(\<And>p. port_no (f p) = port_no p) \<Longrightarrow> port_nos (upd_port n f br) = port_nos br"
  using map_key_map_upd [of port_no f n "port_list br"] by (simp add: port_nos_def upd_port_def)

lemma deref_ok: "br_get_port br n = Some p \<Longrightarrow> deref n f br = f p br"
  by (simp add: deref_def)

lemma deref_fault: "br_get_port br n = None \<Longrightarrow> deref n f br = fault br"
  by (simp add: deref_def)

section \<open>Sending leaves the protocol state alone\<close>

text \<open>
  The part of the bridge that no transmission changes: everything but the log of calls, the
  allocator and the fault flag.
\<close>

definition stp_view :: "net_bridge \<Rightarrow> net_bridge" where
  "stp_view br = br\<lparr>out := [], mem := [], oopsed := False\<rparr>"

lemma stp_view_alloc [simp]: "stp_view (snd (alloc br)) = stp_view br"
  by (simp add: stp_view_def alloc_def split: list.splits)

lemma stp_view_emit [simp]: "stp_view (emit e br) = stp_view br"
  by (simp add: stp_view_def emit_def)

lemma stp_view_fault [simp]: "stp_view (fault br) = stp_view br"
  by (simp add: stp_view_def fault_def)

lemma stp_view_send_bpdu [simp]: "stp_view (br_send_bpdu n data br) = stp_view br"
  using stp_view_alloc [of br]
  by (simp add: br_send_bpdu_def deref_def Let_def case_prod_beta split: option.split)

lemma stp_view_simps [simp]:
  "port_list (stp_view br) = port_list br"
  "root_port (stp_view br) = root_port br"
  "designated_root (stp_view br) = designated_root br"
  "bridge_ident (stp_view br) = bridge_ident br"
  "stp_enabled (stp_view br) = stp_enabled br"
  "root_path_cost (stp_view br) = root_path_cost br"
  "topology_change (stp_view br) = topology_change br"
  "topology_change_detected (stp_view br) = topology_change_detected br"
  "hash (stp_view br) = hash br"
  "br_dev (stp_view br) = br_dev br"
  by (simp_all add: stp_view_def)

lemma stp_viewD:
  assumes "stp_view a = stp_view b"
  shows "port_list a = port_list b" and "root_port a = root_port b"
    and "designated_root a = designated_root b" and "bridge_ident a = bridge_ident b"
    and "stp_enabled a = stp_enabled b" and "root_path_cost a = root_path_cost b"
    and "topology_change a = topology_change b"
    and "topology_change_detected a = topology_change_detected b"
    and "hash a = hash b" and "br_dev a = br_dev b"
  using assms [THEN arg_cong, of port_list] assms [THEN arg_cong, of root_port]
    assms [THEN arg_cong, of designated_root] assms [THEN arg_cong, of bridge_ident]
    assms [THEN arg_cong, of stp_enabled] assms [THEN arg_cong, of root_path_cost]
    assms [THEN arg_cong, of topology_change] assms [THEN arg_cong, of topology_change_detected]
    assms [THEN arg_cong, of hash] assms [THEN arg_cong, of br_dev]
  by simp_all

section \<open>Round trips\<close>

lemma ucast_low_byte: "ucast (x AND 0xFF) = (ucast (x :: 'a :: len word) :: u8)"
proof -
  have "x AND 0xFF = take_bit 8 x"
    by (simp add: take_bit_eq_mask mask_eq_exp_minus_1)
  then show ?thesis
    by (intro bit_word_eqI) (auto simp: bit_simps dest: bit_imp_le_length)
qed

lemma u32_from_bytes:
  "push_bit 24 (ucast (ucast (drop_bit 24 c) :: u8)) OR
   push_bit 16 (ucast (ucast (drop_bit 16 c) :: u8)) OR
   push_bit 8 (ucast (ucast (drop_bit 8 c) :: u8)) OR
   ucast (ucast c :: u8) = (c :: u32)"
proof (rule bit_word_eqI)
  fix n :: nat
  assume "n < LENGTH(32)"
  then consider "n < 8" | "8 \<le> n" "n < 16" | "16 \<le> n" "n < 24" | "24 \<le> n" "n < 32"
    by fastforce
  then show "bit (push_bit 24 (ucast (ucast (drop_bit 24 c) :: u8)) OR
     push_bit 16 (ucast (ucast (drop_bit 16 c) :: u8)) OR
     push_bit 8 (ucast (ucast (drop_bit 8 c) :: u8)) OR ucast (ucast c :: u8) :: u32) n = bit c n"
    by cases (auto simp: bit_simps)
qed

lemma u16_from_bytes:
  "push_bit 8 (ucast (ucast (drop_bit 8 c) :: u8)) OR ucast (ucast c :: u8) =
     (ucast (c :: u16) :: 'a :: len word)"
  if "16 \<le> LENGTH('a)"
proof (rule bit_word_eqI)
  fix n :: nat
  assume n: "n < LENGTH('a)"
  consider "n < 8" | "8 \<le> n" "n < 16" | "16 \<le> n"
    by linarith
  then show "bit (push_bit 8 (ucast (ucast (drop_bit 8 c) :: u8)) OR ucast (ucast c :: u8) :: 'a word) n
     = bit (ucast c :: 'a word) n"
    using n that by cases (auto simp: bit_simps dest: bit_imp_le_length)
qed

lemma bid_at_bid_bytes: "length xs = i \<Longrightarrow> bid_at (xs @ bid_bytes b @ ys) i = b"
  by (cases b; cases "id_addr b") (auto simp: bid_at_def bid_bytes_def nth_append)

lemma sint_of_nat_32: "k < 2 ^ 31 \<Longrightarrow> sint (of_nat k :: 32 word) = int k"
  using sint_word_of_int_32 [of "int k"] by simp

lemma jiffies_to_ticks:
  assumes "k < 25600"
  shows "JIFFIES_TO_TICKS (of_nat k) = of_nat (256 * k div 100)"
proof -
  have "push_bit 8 (of_nat k :: s32) = of_nat (256 * k)"
    by (simp add: push_bit_eq_mult)
  then have "sint (push_bit 8 (of_nat k :: s32)) = int (256 * k)"
    using sint_of_nat_32 [of "256 * k"] assms by simp
  then have "JIFFIES_TO_TICKS (of_nat k) = word_of_int (int (256 * k) div 100)"
    unfolding JIFFIES_TO_TICKS_def HZ_def signed_divide_int_def by (cases "k = 0") simp_all
  also have "int (256 * k) div 100 = int (256 * k div 100)"
    by (simp add: zdiv_int)
  finally show ?thesis by simp
qed

lemma ticks_to_jiffies:
  assumes "t < 65536"
  shows "TICKS_TO_JIFFIES (of_nat t) = of_nat (100 * t div 256)"
proof -
  have "sint (of_nat t * of_nat HZ :: s32) = int (100 * t)"
    using sint_of_nat_32 [of "100 * t"] assms by (simp add: HZ_def mult.commute)
  then have "sint (TICKS_TO_JIFFIES (of_nat t)) = int (100 * t div 256)"
    by (simp add: TICKS_TO_JIFFIES_def sint_signed_drop_bit_eq drop_bit_eq_div zdiv_int)
  also have "\<dots> = sint (of_nat (100 * t div 256) :: s32)"
    using sint_of_nat_32 [of "100 * t div 256"] assms by simp
  finally show ?thesis
    by (rule signed_word_eqI)
qed

text \<open>What a time becomes on its way through a message.\<close>

definition ticks_trip :: "s32 \<Rightarrow> s32" where
  "ticks_trip j = TICKS_TO_JIFFIES (ucast (ucast (JIFFIES_TO_TICKS j) :: u16))"

lemma br_get_set_ticks:
  "br_get_ticks (br_set_ticks j ! 0) (br_set_ticks j ! Suc 0) = ticks_trip j"
  using u16_from_bytes [where 'a = 32, of "ucast (JIFFIES_TO_TICKS j)"]
  by (simp add: br_get_ticks_def br_set_ticks_def ticks_trip_def Let_def ucast_low_byte)

lemma ucast_ucast_of_nat:
  "t < 65536 \<Longrightarrow> ucast (ucast (of_nat t :: u32) :: u16) = (of_nat t :: u32)"
  by (simp add: unsigned_of_nat take_bit_nat_eq_self)

lemma ticks_trip_of_nat:
  assumes "k < 25600"
  shows "ticks_trip (of_nat k) = of_nat (100 * (256 * k div 100) div 256)"
proof -
  have t: "256 * k div 100 < 65536"
    using assms by simp
  show ?thesis
    unfolding ticks_trip_def jiffies_to_ticks [OF assms] ucast_ucast_of_nat [OF t]
    by (rule ticks_to_jiffies [OF t])
qed

lemma parse_config_bpdu_buf:
  "parse_config_bpdu (config_bpdu_buf bpdu) =
     bpdu\<lparr>b_message_age := ticks_trip (b_message_age bpdu), b_max_age := ticks_trip (b_max_age bpdu),
          b_hello_time := ticks_trip (b_hello_time bpdu),
          b_forward_delay := ticks_trip (b_forward_delay bpdu)\<rparr>"
proof -
  obtain r0 r1 m0 m1 m2 m3 m4 m5 where root: "b_root bpdu = Bridge_id r0 r1 (MAC m0 m1 m2 m3 m4 m5)"
    by (metis bridge_id.exhaust mac.exhaust)
  obtain s0 s1 n0 n1 n2 n3 n4 n5 where id: "b_bridge_id bpdu = Bridge_id s0 s1 (MAC n0 n1 n2 n3 n4 n5)"
    by (metis bridge_id.exhaust mac.exhaust)
  obtain t where ticks: "\<And>j. br_set_ticks j = [t j ! 0, t j ! Suc 0] \<and>
      br_get_ticks (t j ! 0) (t j ! Suc 0) = ticks_trip j"
    using br_get_set_ticks by (metis br_set_ticks_def nth_Cons_0 nth_Cons_Suc)
  show ?thesis
    using u32_from_bytes [of "b_root_path_cost bpdu"]
      u16_from_bytes [where 'a = 16, of "b_port_id bpdu"]
    by (simp add: parse_config_bpdu_def config_bpdu_buf_def bid_at_def bid_bytes_def root id ticks
        ucast_low_byte)
qed

end
