(* ===== verification/Br_Stp.thy ===== *)
theory Br_Stp
  imports Br_Bpdu
begin

text \<open>
  The spanning tree protocol machine (br_stp.c). Every function of the file is a function on the
  bridge; those that set timers or stamp messages take the current value of the tick counter
  \<open>jiffies\<close>, which does not advance while the bridge lock is held.
\<close>

section \<open>Predicates\<close>

definition br_is_root_bridge :: "net_bridge \<Rightarrow> bool" where
  "br_is_root_bridge br \<longleftrightarrow> bid_cmp (bridge_ident br) (designated_root br) = 0"

definition br_is_designated_port :: "net_bridge \<Rightarrow> net_bridge_port \<Rightarrow> bool" where
  "br_is_designated_port br p \<longleftrightarrow>
     bid_cmp (p_designated_bridge p) (bridge_ident br) = 0 \<and> p_designated_port p = port_id p"

text \<open>The result is \<open>None\<close> where the code would read through a NULL root port.\<close>

definition br_should_become_root_port :: "net_bridge \<Rightarrow> net_bridge_port \<Rightarrow> nat \<Rightarrow> bool option" where
  "br_should_become_root_port br p rootp =
     (if p_state p = BR_STATE_DISABLED \<or> br_is_designated_port br p then Some False
      else if bid_cmp (bridge_ident br) (p_designated_root p) \<le> 0 then Some False
      else if rootp = 0 then Some True
      else
        (case br_get_port br rootp of
           None \<Rightarrow> None
         | Some rp \<Rightarrow> Some
            (let t = bid_cmp (p_designated_root p) (p_designated_root rp)
             in if t < 0 then True else if t > 0 then False
             else if sint (p_designated_cost p + path_cost p)
                       < sint (p_designated_cost rp + path_cost rp) then True
             else if sint (p_designated_cost p + path_cost p)
                       > sint (p_designated_cost rp + path_cost rp) then False
             else
               (let t = bid_cmp (p_designated_bridge p) (p_designated_bridge rp)
                in if t < 0 then True else if t > 0 then False
                else if p_designated_port p < p_designated_port rp then True
                else if p_designated_port p > p_designated_port rp then False
                else if port_id p < port_id rp then True
                else False))))"

section \<open>Root selection\<close>

definition root_port_step :: "net_bridge \<Rightarrow> net_bridge_port \<Rightarrow> nat option \<Rightarrow> nat option" where
  "root_port_step br p r =
     (case r of
        None \<Rightarrow> None
      | Some rootp \<Rightarrow>
          (case br_should_become_root_port br p rootp of
             None \<Rightarrow> None
           | Some b \<Rightarrow> Some (if b then port_no p else rootp)))"

definition br_root_selection :: "net_bridge \<Rightarrow> net_bridge" where
  "br_root_selection br =
     (case fold (root_port_step br) (port_list br) (Some 0) of
        None \<Rightarrow> fault br
      | Some rootp \<Rightarrow>
          if rootp = 0
          then br\<lparr>root_port := rootp, designated_root := bridge_ident br, root_path_cost := 0\<rparr>
          else
            (case br_get_port br rootp of
               None \<Rightarrow> fault (br\<lparr>root_port := rootp\<rparr>)
             | Some p \<Rightarrow> br\<lparr>root_port := rootp, designated_root := p_designated_root p,
                           root_path_cost := p_designated_cost p + path_cost p\<rparr>))"

section \<open>Transmission\<close>

definition br_transmit_config :: "u32 \<Rightarrow> nat \<Rightarrow> net_bridge \<Rightarrow> net_bridge" where
  "br_transmit_config jiffies n br =
     deref n (\<lambda>p br.
       if br_timer_is_running (hold_timer p) then upd_port n (\<lambda>p. p\<lparr>config_pending := True\<rparr>) br
       else
         (case (if br_is_root_bridge br then Some 0
                else map_option (\<lambda>root. br_timer_get_residue jiffies (message_age_timer root) + 1)
                       (br_get_port br (root_port br))) of
            None \<Rightarrow> fault br
          | Some age \<Rightarrow>
              upd_port n (\<lambda>p. p\<lparr>p_topology_change_ack := False, config_pending := False,
                               hold_timer := br_timer_set jiffies (hold_timer p)\<rparr>)
                (br_send_config_bpdu n
                   \<lparr>b_topology_change = topology_change br,
                    b_topology_change_ack = p_topology_change_ack p,
                    b_root = designated_root br,
                    b_root_path_cost = root_path_cost br,
                    b_bridge_id = bridge_ident br,
                    b_port_id = port_id p,
                    b_message_age = age,
                    b_max_age = max_age br,
                    b_hello_time = hello_time br,
                    b_forward_delay = forward_delay br\<rparr> br))) br"

definition br_record_config_information :: "u32 \<Rightarrow> nat \<Rightarrow> br_config_bpdu \<Rightarrow> net_bridge \<Rightarrow> net_bridge" where
  "br_record_config_information jiffies n bpdu br =
     upd_port n (\<lambda>p. p\<lparr>p_designated_root := b_root bpdu,
                       p_designated_cost := b_root_path_cost bpdu,
                       p_designated_bridge := b_bridge_id bpdu,
                       p_designated_port := b_port_id bpdu,
                       message_age_timer :=
                         br_timer_set (jiffies - b_message_age bpdu) (message_age_timer p)\<rparr>) br"

definition br_record_config_timeout_values :: "br_config_bpdu \<Rightarrow> net_bridge \<Rightarrow> net_bridge" where
  "br_record_config_timeout_values bpdu br =
     br\<lparr>max_age := b_max_age bpdu, hello_time := b_hello_time bpdu,
        forward_delay := b_forward_delay bpdu, topology_change := b_topology_change bpdu\<rparr>"

definition br_transmit_tcn :: "net_bridge \<Rightarrow> net_bridge" where
  "br_transmit_tcn br = br_send_tcn_bpdu (root_port br) br"

section \<open>Designated ports\<close>

definition br_should_become_designated_port :: "net_bridge \<Rightarrow> net_bridge_port \<Rightarrow> bool" where
  "br_should_become_designated_port br p =
     (if br_is_designated_port br p then True
      else if bid_cmp (p_designated_root p) (designated_root br) \<noteq> 0 then True
      else if sint (root_path_cost br) < sint (p_designated_cost p) then True
      else if sint (root_path_cost br) > sint (p_designated_cost p) then False
      else
        (let t = bid_cmp (bridge_ident br) (p_designated_bridge p)
         in if t < 0 then True else if t > 0 then False
         else if port_id p < p_designated_port p then True
         else False))"

definition br_become_designated_port :: "net_bridge \<Rightarrow> net_bridge_port \<Rightarrow> net_bridge_port" where
  "br_become_designated_port br p =
     p\<lparr>p_designated_root := designated_root br, p_designated_cost := root_path_cost br,
       p_designated_bridge := bridge_ident br, p_designated_port := port_id p\<rparr>"

definition br_designated_port_selection :: "net_bridge \<Rightarrow> net_bridge" where
  "br_designated_port_selection =
     for_each_port (\<lambda>p br.
       if p_state p \<noteq> BR_STATE_DISABLED \<and> br_should_become_designated_port br p
       then upd_port (port_no p) (br_become_designated_port br) br else br)"

definition br_supersedes_port_info :: "net_bridge \<Rightarrow> net_bridge_port \<Rightarrow> br_config_bpdu \<Rightarrow> bool" where
  "br_supersedes_port_info br p bpdu =
     (let t = bid_cmp (b_root bpdu) (p_designated_root p)
      in if t < 0 then True else if t > 0 then False
      else if sint (b_root_path_cost bpdu) < sint (p_designated_cost p) then True
      else if sint (b_root_path_cost bpdu) > sint (p_designated_cost p) then False
      else
        (let t = bid_cmp (b_bridge_id bpdu) (p_designated_bridge p)
         in if t < 0 then True else if t > 0 then False
         else if bid_cmp (b_bridge_id bpdu) (bridge_ident br) \<noteq> 0 then True
         else if b_port_id bpdu \<le> p_designated_port p then True
         else False))"

section \<open>Topology changes\<close>

definition br_topology_change_acknowledged :: "net_bridge \<Rightarrow> net_bridge" where
  "br_topology_change_acknowledged br =
     br\<lparr>topology_change_detected := False, tcn_timer := br_timer_clear (tcn_timer br)\<rparr>"

definition br_topology_change_detection :: "u32 \<Rightarrow> net_bridge \<Rightarrow> net_bridge" where
  "br_topology_change_detection jiffies br =
     (let br1 = (if br_is_root_bridge br
                 then br\<lparr>topology_change := True,
                         topology_change_timer := br_timer_set jiffies (topology_change_timer br)\<rparr>
                 else if \<not> topology_change_detected br
                 then (br_transmit_tcn br)\<lparr>tcn_timer := br_timer_set jiffies (tcn_timer br)\<rparr>
                 else br)
      in br1\<lparr>topology_change_detected := True\<rparr>)"

definition br_config_bpdu_generation :: "u32 \<Rightarrow> net_bridge \<Rightarrow> net_bridge" where
  "br_config_bpdu_generation jiffies =
     for_each_port (\<lambda>p br.
       if p_state p \<noteq> BR_STATE_DISABLED \<and> br_is_designated_port br p
       then br_transmit_config jiffies (port_no p) br else br)"

definition br_reply :: "u32 \<Rightarrow> nat \<Rightarrow> net_bridge \<Rightarrow> net_bridge" where
  "br_reply jiffies n br = br_transmit_config jiffies n br"

definition br_configuration_update :: "net_bridge \<Rightarrow> net_bridge" where
  "br_configuration_update br = br_designated_port_selection (br_root_selection br)"

definition br_become_root_bridge :: "u32 \<Rightarrow> net_bridge \<Rightarrow> net_bridge" where
  "br_become_root_bridge jiffies br =
     (let br1 = br\<lparr>max_age := bridge_max_age br, hello_time := bridge_hello_time br,
                   forward_delay := bridge_forward_delay br\<rparr>;
          br2 = br_topology_change_detection jiffies br1;
          br3 = br2\<lparr>tcn_timer := br_timer_clear (tcn_timer br2)\<rparr>;
          br4 = br_config_bpdu_generation jiffies br3
      in br4\<lparr>hello_timer := br_timer_set jiffies (hello_timer br4)\<rparr>)"

section \<open>Port states\<close>

definition br_make_blocking :: "u32 \<Rightarrow> nat \<Rightarrow> net_bridge \<Rightarrow> net_bridge" where
  "br_make_blocking jiffies n br =
     deref n (\<lambda>p br.
       if p_state p \<noteq> BR_STATE_DISABLED \<and> p_state p \<noteq> BR_STATE_BLOCKING
       then
         (let br1 = (if p_state p = BR_STATE_FORWARDING \<or> p_state p = BR_STATE_LEARNING
                     then br_topology_change_detection jiffies br else br)
          in upd_port n (\<lambda>p. p\<lparr>p_state := BR_STATE_BLOCKING,
                              forward_delay_timer := br_timer_clear (forward_delay_timer p)\<rparr>) br1)
       else br) br"

definition br_make_forwarding :: "u32 \<Rightarrow> nat \<Rightarrow> net_bridge \<Rightarrow> net_bridge" where
  "br_make_forwarding jiffies n br =
     deref n (\<lambda>p br.
       if p_state p = BR_STATE_BLOCKING
       then upd_port n (\<lambda>p. p\<lparr>p_state := (if stp_enabled br then BR_STATE_LISTENING
                                           else BR_STATE_LEARNING),
                             forward_delay_timer := br_timer_set jiffies (forward_delay_timer p)\<rparr>) br
       else br) br"

definition br_port_state_selection :: "u32 \<Rightarrow> net_bridge \<Rightarrow> net_bridge" where
  "br_port_state_selection jiffies =
     for_each_port (\<lambda>p br.
       let n = port_no p in
       if p_state p \<noteq> BR_STATE_DISABLED
       then
         (if n = root_port br
          then br_make_forwarding jiffies n
                 (upd_port n (\<lambda>p. p\<lparr>config_pending := False, p_topology_change_ack := False\<rparr>) br)
          else if br_is_designated_port br p
          then br_make_forwarding jiffies n
                 (upd_port n (\<lambda>p. p\<lparr>message_age_timer := br_timer_clear (message_age_timer p)\<rparr>) br)
          else br_make_blocking jiffies n
                 (upd_port n (\<lambda>p. p\<lparr>config_pending := False, p_topology_change_ack := False\<rparr>) br))
       else br)"

definition br_topology_change_acknowledge :: "u32 \<Rightarrow> nat \<Rightarrow> net_bridge \<Rightarrow> net_bridge" where
  "br_topology_change_acknowledge jiffies n br =
     br_transmit_config jiffies n (upd_port n (\<lambda>p. p\<lparr>p_topology_change_ack := True\<rparr>) br)"

section \<open>Received messages\<close>

definition br_received_config_bpdu :: "u32 \<Rightarrow> nat \<Rightarrow> br_config_bpdu \<Rightarrow> net_bridge \<Rightarrow> net_bridge" where
  "br_received_config_bpdu jiffies n bpdu br =
     deref n (\<lambda>p br.
       if p_state p = BR_STATE_DISABLED then br
       else
         (let was_root = br_is_root_bridge br
          in if br_supersedes_port_info br p bpdu
             then
               (let br1 = br_port_state_selection jiffies
                            (br_configuration_update (br_record_config_information jiffies n bpdu br));
                    br2 = (if \<not> br_is_root_bridge br1 \<and> was_root
                           then
                             (let br1 = br1\<lparr>hello_timer := br_timer_clear (hello_timer br1)\<rparr>
                              in if topology_change_detected br1
                                 then
                                   (let br1 = br_transmit_tcn (br1\<lparr>topology_change_timer :=
                                                br_timer_clear (topology_change_timer br1)\<rparr>)
                                    in br1\<lparr>tcn_timer := br_timer_set jiffies (tcn_timer br1)\<rparr>)
                                 else br1)
                           else br1)
                in if n = root_port br2
                   then
                     (let br3 = br_config_bpdu_generation jiffies
                                  (br_record_config_timeout_values bpdu br2)
                      in if b_topology_change_ack bpdu then br_topology_change_acknowledged br3 else br3)
                   else br2)
             else if br_is_designated_port br p then br_reply jiffies n br
             else br)) br"

definition br_received_tcn_bpdu :: "u32 \<Rightarrow> nat \<Rightarrow> net_bridge \<Rightarrow> net_bridge" where
  "br_received_tcn_bpdu jiffies n br =
     deref n (\<lambda>p br.
       if p_state p \<noteq> BR_STATE_DISABLED \<and> br_is_designated_port br p
       then br_topology_change_acknowledge jiffies n (br_topology_change_detection jiffies br)
       else br) br"

text \<open>
  The handler of a received message (br_stp_bpdu.c) in buffer \<open>i\<close>: its bytes start after the 14 of the
  Ethernet header; a message with another header or type is dropped. The buffer is freed on every
  path.
\<close>

definition br_stp_handle_bpdu :: "u32 \<Rightarrow> nat \<Rightarrow> nat \<Rightarrow> u8 list \<Rightarrow> net_bridge \<Rightarrow> net_bridge" where
  "br_stp_handle_bpdu jiffies n i buf br =
     (if \<not> stp_enabled br \<or> memcmp buf bpdu_header 6 \<noteq> 0 then emit (Kfree_skb i) br
      else if buf ! 6 = BPDU_TYPE_CONFIG
      then br_received_config_bpdu jiffies n (parse_config_bpdu buf) (emit (Kfree_skb i) br)
      else if buf ! 6 = BPDU_TYPE_TCN then emit (Kfree_skb i) (br_received_tcn_bpdu jiffies n br)
      else emit (Kfree_skb i) br)"

section \<open>What the protocol leaves alone\<close>

text \<open>
  The ports' numbers, the root port and the two identifiers decide which pointers the protocol
  follows; the devices belong to the kernel around it, except that the bridge sets its own address.
  \<open>keeps a b\<close>: going from \<open>a\<close> to \<open>b\<close> changed none of them nor the forwarding database, and
  followed no bad pointer.
\<close>

definition port_devs :: "net_bridge \<Rightarrow> net_device \<times> net_device list" where
  "port_devs br = ((br_dev br)\<lparr>dev_addr := br_mac_zero\<rparr>, map p_dev (port_list br))"

definition stp_key :: "net_bridge \<Rightarrow> nat list \<times> (net_device \<times> net_device list) \<times> nat \<times> bridge_id \<times> bridge_id" where
  "stp_key br = (port_nos br, port_devs br, root_port br, designated_root br, bridge_ident br)"

definition keeps :: "net_bridge \<Rightarrow> net_bridge \<Rightarrow> bool" where
  "keeps a b \<longleftrightarrow> stp_key b = stp_key a \<and> oopsed b = oopsed a \<and> hash b = hash a \<and> mfd b = mfd a"

text \<open>The root port exists unless this bridge is the root.\<close>

definition root_ok :: "net_bridge \<Rightarrow> bool" where
  "root_ok br \<longleftrightarrow>
     root_port br = 0 \<and> designated_root br = bridge_ident br \<or> root_port br \<in> set (port_nos br)"

lemma br_is_root_bridge_iff: "br_is_root_bridge br \<longleftrightarrow> bridge_ident br = designated_root br"
  by (simp add: br_is_root_bridge_def)

lemma keeps_refl [simp, intro]: "keeps a a"
  by (simp add: keeps_def)

lemma keeps_trans [trans]: "keeps a b \<Longrightarrow> keeps b c \<Longrightarrow> keeps a c"
  by (simp add: keeps_def)

lemma keeps_port_nos: "keeps a b \<Longrightarrow> port_nos b = port_nos a"
  by (simp add: keeps_def stp_key_def)

lemma keeps_port_devs: "keeps a b \<Longrightarrow> port_devs b = port_devs a"
  by (simp add: keeps_def stp_key_def)

lemma keeps_root_ok: "keeps a b \<Longrightarrow> root_ok b \<longleftrightarrow> root_ok a"
  by (simp add: keeps_def stp_key_def root_ok_def)

lemma keeps_root_port: "keeps a b \<Longrightarrow> root_port b = root_port a"
  by (simp add: keeps_def stp_key_def)

lemma keeps_is_root: "keeps a b \<Longrightarrow> br_is_root_bridge b \<longleftrightarrow> br_is_root_bridge a"
  by (simp add: keeps_def stp_key_def br_is_root_bridge_iff)

lemma keeps_oopsed: "keeps a b \<Longrightarrow> oopsed b = oopsed a"
  by (simp add: keeps_def)

lemma keeps_hash: "keeps a b \<Longrightarrow> hash b = hash a"
  by (simp add: keeps_def)

lemma keeps_mfd: "keeps a b \<Longrightarrow> mfd b = mfd a"
  by (simp add: keeps_def)

lemmas keepsD = keeps_hash keeps_mfd keeps_port_nos keeps_root_ok keeps_root_port keeps_is_root keeps_oopsed

lemma keeps_upd_port:
  assumes "\<And>p. port_no (f p) = port_no p \<and> p_dev (f p) = p_dev p"
  shows "keeps br (upd_port n f br)"
proof -
  have "map p_dev (map (\<lambda>p. if port_no p = n then f p else p) ps) = map p_dev ps" for ps
    by (induction ps) (simp_all add: assms)
  then show ?thesis
    using port_nos_upd_port [of f n br] assms by (simp add: keeps_def stp_key_def port_devs_def) (simp add: upd_port_def)
qed

lemma keeps_set_fields [simp]:
  "keeps br (br\<lparr>max_age := v\<rparr>)" "keeps br (br\<lparr>topology_change := b\<rparr>)"
  "keeps br (br\<lparr>hello_timer := t\<rparr>)" "keeps br (br\<lparr>tcn_timer := t\<rparr>)"
  "keeps br (br\<lparr>topology_change_timer := t\<rparr>)" "keeps br (br\<lparr>topology_change_detected := b\<rparr>)"
  "keeps br (br\<lparr>gc_timer := t\<rparr>)" "keeps br (br\<lparr>out := l\<rparr>)"
  "keeps br (br\<lparr>mem := m\<rparr>)" "keeps br (br\<lparr>tick := x\<rparr>)" "keeps br (br\<lparr>hello_time := v\<rparr>)"
  "keeps br (br\<lparr>forward_delay := v\<rparr>)"
  by (simp_all add: keeps_def stp_key_def port_devs_def port_nos_def)

lemma keeps_set:
  "keeps a b \<Longrightarrow> keeps a (b\<lparr>max_age := v\<rparr>)" "keeps a b \<Longrightarrow> keeps a (b\<lparr>topology_change := c\<rparr>)"
  "keeps a b \<Longrightarrow> keeps a (b\<lparr>hello_timer := t\<rparr>)" "keeps a b \<Longrightarrow> keeps a (b\<lparr>tcn_timer := t\<rparr>)"
  "keeps a b \<Longrightarrow> keeps a (b\<lparr>topology_change_timer := t\<rparr>)"
  "keeps a b \<Longrightarrow> keeps a (b\<lparr>topology_change_detected := c\<rparr>)"
  "keeps a b \<Longrightarrow> keeps a (b\<lparr>gc_timer := t\<rparr>)" "keeps a b \<Longrightarrow> keeps a (b\<lparr>tick := e\<rparr>)"
  "keeps a b \<Longrightarrow> keeps a (b\<lparr>hello_time := v\<rparr>)" "keeps a b \<Longrightarrow> keeps a (b\<lparr>forward_delay := v\<rparr>)"
  by (simp_all add: keeps_def stp_key_def port_devs_def port_nos_def)

lemma keeps_deref:
  assumes "n \<in> set (port_nos br)" and "\<And>p. br_get_port br n = Some p \<Longrightarrow> keeps br (f p br)"
  shows "keeps br (deref n f br)"
  using assms(1) assms(2) [of "the (br_get_port br n)"] br_get_port_None_iff [of br n]
  by (cases "br_get_port br n") (simp_all add: deref_def)

text \<open>The loop rule: a walk keeps what its body keeps.\<close>

lemma keeps_for_each_port:
  assumes "\<And>b n p. keeps br b \<Longrightarrow> n \<in> set (port_nos br) \<Longrightarrow> br_get_port b n = Some p \<Longrightarrow> keeps b (f p b)"
  shows "keeps br (for_each_port f br)"
proof -
  have "keeps br (fold (\<lambda>n. deref n f) ns b)"
    if "set ns \<subseteq> set (port_nos br)" and "keeps br b" for ns b
    using that
  proof (induction ns arbitrary: b)
    case (Cons n ns)
    have "n \<in> set (port_nos b)"
      using Cons.prems keeps_port_nos by fastforce
    then have "keeps b (deref n f b)"
      using Cons.prems by (intro keeps_deref assms) simp_all
    with Cons.prems have "keeps br (deref n f b)"
      by (blast intro: keeps_trans)
    with Cons show ?case by simp
  qed simp
  then show ?thesis by (simp add: for_each_port_def)
qed

lemma keeps_send_bpdu: "n \<in> set (port_nos br) \<Longrightarrow> keeps br (br_send_bpdu n data br)"
  unfolding br_send_bpdu_def
  by (rule keeps_deref) (simp_all add: Let_def alloc_def emit_def keeps_def stp_key_def port_devs_def port_nos_def
      split: list.split)

lemma keeps_transmit_tcn: "root_ok br \<Longrightarrow> \<not> br_is_root_bridge br \<Longrightarrow> keeps br (br_transmit_tcn br)"
  unfolding br_transmit_tcn_def br_send_tcn_bpdu_def
  by (rule keeps_send_bpdu) (auto simp: root_ok_def br_is_root_bridge_iff)

lemma keeps_transmit_config:
  assumes "root_ok br" and "n \<in> set (port_nos br)"
  shows "keeps br (br_transmit_config jiffies n br)"
  unfolding br_transmit_config_def
proof (rule keeps_deref [OF assms(2)], goal_cases)
  case (1 p)
  show ?case
  proof (cases "br_timer_is_running (hold_timer p)")
    case True
    then show ?thesis by (simp add: keeps_upd_port)
  next
    case False
    have root: "br_is_root_bridge br \<or> br_get_port br (root_port br) \<noteq> None"
      using assms(1) by (simp add: root_ok_def br_is_root_bridge_iff br_get_port_None_iff, metis)
    have "keeps br (upd_port n f (br_send_config_bpdu n bpdu br))"
      if "\<And>p. port_no (f p) = port_no p \<and> p_dev (f p) = p_dev p" for f bpdu
      using keeps_send_bpdu [OF assms(2)] keeps_upd_port [of f _ n, OF that]
      unfolding br_send_config_bpdu_def by (rule keeps_trans)
    with False root show ?thesis
      by (cases "br_is_root_bridge br"; cases "br_get_port br (root_port br)") simp_all
  qed
qed

lemma keeps_topology_change_detection:
  "root_ok br \<Longrightarrow> keeps br (br_topology_change_detection jiffies br)"
  unfolding br_topology_change_detection_def Let_def
  using keeps_transmit_tcn [of br] by (simp add: keeps_set)

lemma keeps_make_forwarding: "n \<in> set (port_nos br) \<Longrightarrow> keeps br (br_make_forwarding jiffies n br)"
  unfolding br_make_forwarding_def by (rule keeps_deref) (simp_all add: keeps_upd_port)

lemma keeps_make_blocking:
  assumes "root_ok br" and "n \<in> set (port_nos br)"
  shows "keeps br (br_make_blocking jiffies n br)"
  unfolding br_make_blocking_def
proof (rule keeps_deref [OF assms(2)], goal_cases)
  case (1 p)
  have "keeps br (upd_port n f (br_topology_change_detection jiffies br))"
    if "\<And>p. port_no (f p) = port_no p \<and> p_dev (f p) = p_dev p" for f
    using keeps_topology_change_detection [OF assms(1)] keeps_upd_port [of f _ n, OF that]
    by (rule keeps_trans)
  then show ?case by (simp add: Let_def keeps_upd_port)
qed

lemma keeps_if: "keeps a b \<Longrightarrow> keeps a c \<Longrightarrow> keeps a (if P then b else c)"
  by simp

lemma keeps_upd_make:
  assumes "root_ok b" and "n \<in> set (port_nos b)" and "\<And>p. port_no (f p) = port_no p \<and> p_dev (f p) = p_dev p"
  shows "keeps b (br_make_forwarding jiffies n (upd_port n f b))"
    and "keeps b (br_make_blocking jiffies n (upd_port n f b))"
  using keeps_upd_port [of f b n, OF assms(3)] assms(1,2)
  by (auto intro!: keeps_trans [OF _ keeps_make_forwarding] keeps_trans [OF _ keeps_make_blocking]
      simp: keepsD)

lemma keeps_port_state_selection:
  assumes "root_ok br"
  shows "keeps br (br_port_state_selection jiffies br)"
  unfolding br_port_state_selection_def
proof (rule keeps_for_each_port, goal_cases)
  case (1 b n p)
  then have n: "port_no p = n" "n \<in> set (port_nos b)" and ok: "root_ok b"
    using assms by (simp_all add: keepsD br_get_port_port_no)
  show ?case
    unfolding Let_def n(1) by (intro keeps_if keeps_upd_make [OF ok n(2)] keeps_refl) simp_all
qed

lemma keeps_config_bpdu_generation:
  assumes "root_ok br"
  shows "keeps br (br_config_bpdu_generation jiffies br)"
  unfolding br_config_bpdu_generation_def
proof (rule keeps_for_each_port, goal_cases)
  case (1 b n p)
  then have "port_no p = n" "n \<in> set (port_nos b)" and "root_ok b"
    using assms by (simp_all add: keepsD br_get_port_port_no)
  then show ?case by (simp add: keeps_transmit_config)
qed

lemma keeps_become_root_bridge:
  assumes "root_ok br"
  shows "keeps br (br_become_root_bridge jiffies br)"
proof -
  let ?b1 = "br\<lparr>max_age := bridge_max_age br, hello_time := bridge_hello_time br,
                   forward_delay := bridge_forward_delay br\<rparr>"
  have 1: "keeps br ?b1" by (simp add: keeps_set)
  have 2: "keeps br (br_topology_change_detection jiffies ?b1)"
    using 1 assms by (intro keeps_trans [OF 1] keeps_topology_change_detection) (simp add: keepsD)
  then have 3: "keeps br ((br_topology_change_detection jiffies ?b1)\<lparr>tcn_timer := t\<rparr>)" for t
    by (rule keeps_set)
  have "keeps br (br_config_bpdu_generation jiffies
      ((br_topology_change_detection jiffies ?b1)\<lparr>tcn_timer := t\<rparr>))" for t
    using 3 [of t] assms by (intro keeps_trans [OF 3 [of t]] keeps_config_bpdu_generation) (simp add: keepsD)
  then show ?thesis
    by (simp add: br_become_root_bridge_def Let_def keeps_set)
qed

lemma keeps_designated_port_selection: "keeps br (br_designated_port_selection br)"
  unfolding br_designated_port_selection_def
  by (rule keeps_for_each_port) (simp add: keeps_upd_port br_become_designated_port_def)

section \<open>Root selection repairs the root port\<close>

text \<open>\<open>sound a b\<close>: the ports are the same, no bad pointer was followed, the root port of \<open>b\<close> is fine.\<close>

definition sound :: "net_bridge \<Rightarrow> net_bridge \<Rightarrow> bool" where
  "sound a b \<longleftrightarrow>
     port_nos b = port_nos a \<and> port_devs b = port_devs a \<and> oopsed b = oopsed a \<and> hash b = hash a \<and> mfd b = mfd a \<and> root_ok b"

lemma sound_keeps: "root_ok a \<Longrightarrow> keeps a b \<Longrightarrow> sound a b"
  by (simp add: sound_def keepsD keeps_port_devs)

lemma sound_trans [trans]: "sound a b \<Longrightarrow> sound b c \<Longrightarrow> sound a c"
  by (simp add: sound_def)

lemma sound_keeps_trans [trans]: "sound a b \<Longrightarrow> keeps b c \<Longrightarrow> sound a c"
  by (simp add: sound_def keepsD keeps_port_devs)

lemma keeps_sound_trans [trans]: "keeps a b \<Longrightarrow> sound b c \<Longrightarrow> sound a c"
  by (simp add: sound_def keepsD keeps_port_devs)

lemma soundD: "sound a b \<Longrightarrow> root_ok b" "sound a b \<Longrightarrow> port_nos b = port_nos a"
  "sound a b \<Longrightarrow> oopsed b = oopsed a" "sound a b \<Longrightarrow> hash b = hash a" "sound a b \<Longrightarrow> port_devs b = port_devs a"
  by (simp_all add: sound_def)

text \<open>The candidate of the selection loop is always 0 or the number of a port on the list.\<close>

lemma root_port_step_fold:
  assumes "set ps \<subseteq> set (port_list br)" and "r = 0 \<or> r \<in> set (port_nos br)"
  shows "\<exists>r'. fold (root_port_step br) ps (Some r) = Some r' \<and> (r' = 0 \<or> r' \<in> set (port_nos br))"
  using assms
proof (induction ps arbitrary: r)
  case (Cons p ps)
  then have "port_no p \<in> set (port_nos br)" by (simp add: port_nos_def)
  moreover have "br_should_become_root_port br p r \<noteq> None"
    using Cons.prems(2) br_get_port_None_iff [of br r]
    by (cases "br_get_port br r") (simp_all add: br_should_become_root_port_def del: not_None_eq)
  then have "\<exists>b. br_should_become_root_port br p r = Some b"
    by (simp only: not_None_eq)
  ultimately have "\<exists>r'. root_port_step br p (Some r) = Some r' \<and> (r' = 0 \<or> r' \<in> set (port_nos br))"
    using Cons.prems(2) by (elim exE) (simp add: root_port_step_def)
  with Cons show ?case by fastforce
qed simp

lemma sound_root_selection: "sound br (br_root_selection br)"
proof -
  obtain r where r: "fold (root_port_step br) (port_list br) (Some 0) = Some r"
    and cases: "r = 0 \<or> r \<in> set (port_nos br)"
    using root_port_step_fold [of "port_list br" br 0] by auto
  show ?thesis
  proof (cases "r = 0")
    case True
    with r show ?thesis
      by (simp add: br_root_selection_def sound_def root_ok_def port_nos_def port_devs_def)
  next
    case False
    with cases obtain p where p: "br_get_port br r = Some p"
      using br_get_port_ex_iff [of br r] by blast
    have "r \<in> set (port_nos (br\<lparr>root_port := r, designated_root := i, root_path_cost := c\<rparr>))" for i c
      using False cases by (simp add: port_nos_def)
    with False r p show ?thesis
      by (simp add: br_root_selection_def sound_def root_ok_def port_nos_def port_devs_def)
  qed
qed

lemma sound_configuration_update: "sound br (br_configuration_update br)"
  unfolding br_configuration_update_def
  using sound_root_selection keeps_designated_port_selection by (rule sound_keeps_trans)

lemma sound_update_and_select:
  "sound br (br_port_state_selection jiffies (br_configuration_update br))"
  by (rule sound_keeps_trans [OF sound_configuration_update keeps_port_state_selection])
     (rule soundD(1) [OF sound_configuration_update])

lemma sound_become_root:
  "sound a b \<Longrightarrow> sound a (if c then br_become_root_bridge jiffies b else b)"
  using keeps_become_root_bridge [of b jiffies] by (simp add: sound_def keepsD keeps_port_devs)

lemma sound_cases: "sound a b \<Longrightarrow> sound a c \<Longrightarrow> sound a (if P then b else c)"
  by simp

text \<open>A bridge that stops being the root stops its hellos and reports the change it still knows of.\<close>

definition br_stop_being_root :: "u32 \<Rightarrow> net_bridge \<Rightarrow> net_bridge" where
  "br_stop_being_root jiffies br =
     (let br1 = br\<lparr>hello_timer := br_timer_clear (hello_timer br)\<rparr>
      in if topology_change_detected br1
         then
           (let br1 = br_transmit_tcn (br1\<lparr>topology_change_timer :=
                        br_timer_clear (topology_change_timer br1)\<rparr>)
            in br1\<lparr>tcn_timer := br_timer_set jiffies (tcn_timer br1)\<rparr>)
         else br1)"

lemma keeps_stop_being_root:
  assumes "root_ok br" and "\<not> br_is_root_bridge br"
  shows "keeps br (br_stop_being_root jiffies br)"
proof -
  have k: "keeps br (br\<lparr>hello_timer := x, topology_change_timer := y\<rparr>)" for x y
    by (simp add: keeps_set)
  have "keeps br (br_transmit_tcn (br\<lparr>hello_timer := x, topology_change_timer := y\<rparr>))" for x y
    using assms by (intro keeps_trans [OF k keeps_transmit_tcn]) (simp_all only: keepsD [OF k] not_False_eq_True)
  then show ?thesis
    by (simp add: br_stop_being_root_def Let_def keeps_set)
qed

lemma br_received_config_bpdu_eq:
  "br_received_config_bpdu jiffies n bpdu br =
     deref n (\<lambda>p br.
       if p_state p = BR_STATE_DISABLED then br
       else if br_supersedes_port_info br p bpdu
       then
         (let br1 = br_port_state_selection jiffies
                      (br_configuration_update (br_record_config_information jiffies n bpdu br));
              br2 = (if \<not> br_is_root_bridge br1 \<and> br_is_root_bridge br
                     then br_stop_being_root jiffies br1 else br1)
          in if n = root_port br2
             then
               (let br3 = br_config_bpdu_generation jiffies (br_record_config_timeout_values bpdu br2)
                in if b_topology_change_ack bpdu then br_topology_change_acknowledged br3 else br3)
             else br2)
       else if br_is_designated_port br p then br_reply jiffies n br
       else br) br"
  unfolding br_received_config_bpdu_def br_stop_being_root_def Let_def by (rule refl)

lemma keeps_record_config_information: "keeps br (br_record_config_information jiffies n bpdu br)"
  unfolding br_record_config_information_def by (rule keeps_upd_port) simp

lemma keeps_record_config_timeout_values: "keeps br (br_record_config_timeout_values bpdu br)"
  by (simp add: br_record_config_timeout_values_def keeps_set)

lemma keeps_topology_change_acknowledged: "keeps br (br_topology_change_acknowledged br)"
  by (simp add: br_topology_change_acknowledged_def keeps_set)

lemma sound_received_config_bpdu:
  assumes "root_ok br" and "n \<in> set (port_nos br)"
  shows "sound br (br_received_config_bpdu jiffies n bpdu br)"
proof -
  let ?b1 = "br_port_state_selection jiffies
               (br_configuration_update (br_record_config_information jiffies n bpdu br))"
  let ?b2 = "if \<not> br_is_root_bridge ?b1 \<and> br_is_root_bridge br then br_stop_being_root jiffies ?b1 else ?b1"
  let ?b3 = "br_config_bpdu_generation jiffies (br_record_config_timeout_values bpdu ?b2)"
  have 1: "sound br ?b1"
    by (rule keeps_sound_trans [OF keeps_record_config_information sound_update_and_select])
  have 2: "sound br ?b2"
    using sound_keeps_trans [OF 1 keeps_stop_being_root] soundD [OF 1] 1 by simp
  have 3: "sound br (br_record_config_timeout_values bpdu ?b2)"
    by (rule sound_keeps_trans [OF 2 keeps_record_config_timeout_values])
  have 4: "sound br ?b3"
    by (rule sound_keeps_trans [OF 3 keeps_config_bpdu_generation [OF soundD(1) [OF 3]]])
  have 5: "sound br (br_topology_change_acknowledged ?b3)"
    by (rule sound_keeps_trans [OF 4 keeps_topology_change_acknowledged])
  obtain p where p: "br_get_port br n = Some p"
    using assms(2) br_get_port_ex_iff [of br n] by blast
  have refl: "sound br br" using assms(1) by (simp add: sound_def)
  have reply: "sound br (br_reply jiffies n br)"
    unfolding br_reply_def by (rule sound_keeps [OF assms(1) keeps_transmit_config [OF assms]])
  show ?thesis
    unfolding br_received_config_bpdu_eq deref_ok [OF p] Let_def
    by (intro sound_cases refl reply 2 4 5)
qed

lemma sound_received_tcn_bpdu:
  assumes "root_ok br" and "n \<in> set (port_nos br)"
  shows "sound br (br_received_tcn_bpdu jiffies n br)"
proof -
  obtain p where p: "br_get_port br n = Some p"
    using assms(2) br_get_port_ex_iff [of br n] by blast
  let ?b = "br_topology_change_detection jiffies br"
  let ?c = "upd_port n (\<lambda>p. p\<lparr>p_topology_change_ack := True\<rparr>) ?b"
  have 1: "keeps br ?c"
    by (rule keeps_trans [OF keeps_topology_change_detection [OF assms(1)] keeps_upd_port]) simp
  have "keeps ?c (br_transmit_config jiffies n ?c)"
    using 1 assms by (intro keeps_transmit_config) (simp_all only: keepsD)
  then have "sound br (br_topology_change_acknowledge jiffies n ?b)"
    unfolding br_topology_change_acknowledge_def
    by (intro sound_keeps [OF assms(1)] keeps_trans [OF 1])
  moreover have "sound br br" using assms(1) by (simp add: sound_def)
  ultimately show ?thesis
    unfolding br_received_tcn_bpdu_def deref_ok [OF p] by (intro sound_cases)
qed

lemma keeps_emit: "keeps br (emit e br)"
  by (simp add: keeps_def stp_key_def port_devs_def port_nos_def emit_def)

lemma sound_stp_handle_bpdu:
  assumes "root_ok br" and "n \<in> set (port_nos br)"
  shows "sound br (br_stp_handle_bpdu jiffies n i buf br)"
proof -
  have 1: "sound br (emit (Kfree_skb i) br)" by (rule sound_keeps [OF assms(1) keeps_emit])
  have 2: "sound br (br_received_config_bpdu jiffies n bpdu (emit (Kfree_skb i) br))" for bpdu
    using sound_received_config_bpdu [of "emit (Kfree_skb i) br" n jiffies bpdu] soundD [OF 1] keeps_mfd [OF keeps_emit] assms(2)
    by (simp add: sound_def)
  have 3: "sound br (emit (Kfree_skb i) (br_received_tcn_bpdu jiffies n br))"
    by (rule sound_keeps_trans [OF sound_received_tcn_bpdu [OF assms] keeps_emit])
  show ?thesis unfolding br_stp_handle_bpdu_def by (intro sound_cases 1 2 3)
qed

end
