(* ===== verification/Br_Fdb.thy ===== *)
theory Br_Fdb
  imports Br_Bpdu
begin

text \<open>
  The forwarding database (br_fdb.c and the part of it that lives in br_forward.c): a table of 256
  chains of entries, indexed by a hash of the address. A chain is the list of its entries, head
  first; theory Br_Hash_Chain shows that the doubly linked chains of the code behave as such lists.
  The reference count of an entry is kept, so that releasing the last reference of an entry that is
  still on its chain is a fault.
\<close>

section \<open>Hash and comparison\<close>

definition BR_HASH_SIZE :: nat where
  "BR_HASH_SIZE = 256"

definition br_mac_hash :: "mac \<Rightarrow> nat" where
  "br_mac_hash mac =
     (let b = mac_bytes mac;
          x = (ucast (b ! 3) :: u32);
          x = push_bit 2 x XOR ucast (b ! 4);
          x = push_bit 2 x XOR ucast (b ! 5);
          x = x XOR drop_bit 8 x
      in unat (x AND (of_nat BR_HASH_SIZE - 1)))"

text \<open>
  The sixteen-bit comparison of the fast path: a pair of bytes as one halfword of the little-endian
  processor.
\<close>

definition halfword :: "u8 \<Rightarrow> u8 \<Rightarrow> u16" where
  "halfword a b = push_bit 8 (ucast b) OR ucast a"

definition maccmp :: "mac \<Rightarrow> mac \<Rightarrow> int" where
  "maccmp a1 a2 =
     (let x = mac_bytes a1; y = mac_bytes a2
      in if halfword (x ! 0) (x ! 1) = halfword (y ! 0) (y ! 1)
            \<and> halfword (x ! 2) (x ! 3) = halfword (y ! 2) (y ! 3)
            \<and> halfword (x ! 4) (x ! 5) = halfword (y ! 4) (y ! 5)
         then 0 else 1)"

section \<open>Ageing\<close>

definition fdb_timeout :: "u32 \<Rightarrow> net_bridge \<Rightarrow> u32" where
  "fdb_timeout jiffies br =
     (if topology_change br then jiffies - forward_delay br else jiffies - ageing_time br)"

definition has_expired :: "u32 \<Rightarrow> net_bridge \<Rightarrow> net_bridge_fdb_entry \<Rightarrow> bool" where
  "has_expired jiffies br fdb \<longleftrightarrow>
     \<not> is_static fdb \<and> time_before_eq (ageing_timer fdb) (fdb_timeout jiffies br)"

section \<open>Chains\<close>

text \<open>Replace the first entry that satisfies a test; \<open>None\<close> when there is none.\<close>

fun upd_first :: "('a \<Rightarrow> bool) \<Rightarrow> ('a \<Rightarrow> 'a) \<Rightarrow> 'a list \<Rightarrow> 'a list option" where
  "upd_first P f [] = None"
| "upd_first P f (x # xs) =
     (if P x then Some (f x # xs) else map_option (Cons x) (upd_first P f xs))"

definition set_chain :: "nat \<Rightarrow> net_bridge_fdb_entry list \<Rightarrow> net_bridge \<Rightarrow> net_bridge" where
  "set_chain i c br = br\<lparr>hash := (hash br)(i := c)\<rparr>"

section \<open>Lookup\<close>

text \<open>
  \<^verbatim>\<open>br_fdb_get\<close> takes a reference to the entry it returns. An entry that has expired is not returned,
  and the search stops at it.
\<close>

definition br_fdb_get :: "u32 \<Rightarrow> mac \<Rightarrow> net_bridge \<Rightarrow> net_bridge_fdb_entry option \<times> net_bridge" where
  "br_fdb_get jiffies addr br =
     (let h = br_mac_hash addr in
      case find (\<lambda>fdb. maccmp (fdb_addr fdb) addr = 0) (hash br h) of
        None \<Rightarrow> (None, br)
      | Some fdb \<Rightarrow>
          if \<not> has_expired jiffies br fdb
          then
            (case upd_first (\<lambda>fdb. maccmp (fdb_addr fdb) addr = 0)
                    (\<lambda>fdb. fdb\<lparr>use_count := use_count fdb + 1\<rparr>) (hash br h) of
               None \<Rightarrow> (None, br)
             | Some c \<Rightarrow> (Some (fdb\<lparr>use_count := use_count fdb + 1\<rparr>), set_chain h c br))
          else (None, br))"

text \<open>Dropping a reference: \<open>None\<close> when it was the last one and the entry is freed.\<close>

definition br_fdb_put :: "net_bridge_fdb_entry \<Rightarrow> net_bridge_fdb_entry option" where
  "br_fdb_put ent =
     (if use_count ent - 1 = 0 then None else Some (ent\<lparr>use_count := use_count ent - 1\<rparr>))"

text \<open>
  The same for the entry of an address that is still on its chain: freeing it there would leave a
  dangling pointer.
\<close>

definition put_in_chain :: "mac \<Rightarrow> net_bridge_fdb_entry list \<Rightarrow> net_bridge_fdb_entry list option" where
  "put_in_chain addr c =
     (case find (\<lambda>fdb. maccmp (fdb_addr fdb) addr = 0) c of
        None \<Rightarrow> None
      | Some fdb \<Rightarrow>
          (case br_fdb_put fdb of
             None \<Rightarrow> None
           | Some g \<Rightarrow> upd_first (\<lambda>fdb. maccmp (fdb_addr fdb) addr = 0) (\<lambda>_. g) c))"

definition fdb_put_linked :: "mac \<Rightarrow> net_bridge \<Rightarrow> net_bridge" where
  "fdb_put_linked addr br =
     (case put_in_chain addr (hash br (br_mac_hash addr)) of
        None \<Rightarrow> fault br
      | Some c \<Rightarrow> set_chain (br_mac_hash addr) c br)"

section \<open>Removal\<close>

text \<open>
  The sweep over a chain: each entry that satisfies the test is unlinked and its table reference
  dropped. The second list holds the entries that somebody else still uses.
\<close>

fun fdb_sweep ::
    "(net_bridge_fdb_entry \<Rightarrow> bool) \<Rightarrow> net_bridge_fdb_entry list
       \<Rightarrow> net_bridge_fdb_entry list \<times> net_bridge_fdb_entry list" where
  "fdb_sweep P [] = ([], [])"
| "fdb_sweep P (f # fs) =
     (let (linked, held) = fdb_sweep P fs
      in if P f then (linked, (case br_fdb_put f of None \<Rightarrow> held | Some g \<Rightarrow> g # held))
         else (f # linked, held))"

definition sweep_all :: "(net_bridge_fdb_entry \<Rightarrow> bool) \<Rightarrow> net_bridge \<Rightarrow> net_bridge" where
  "sweep_all P br =
     br\<lparr>hash := (\<lambda>i. if i < BR_HASH_SIZE then fst (fdb_sweep P (hash br i)) else hash br i)\<rparr>"

definition br_fdb_cleanup :: "u32 \<Rightarrow> net_bridge \<Rightarrow> net_bridge" where
  "br_fdb_cleanup jiffies br =
     (let timeout = fdb_timeout jiffies br
      in sweep_all (\<lambda>f. \<not> is_static f \<and> time_before_eq (ageing_timer f) timeout) br)"

definition br_fdb_delete_by_port :: "nat \<Rightarrow> net_bridge \<Rightarrow> net_bridge" where
  "br_fdb_delete_by_port n br = sweep_all (\<lambda>f. fdb_dst f = Some n) br"

text \<open>
  \<^verbatim>\<open>br_fdb_changeaddr\<close> moves the first local entry of the port, in the order of the chains, to the head
  of the chain of the new address.
\<close>

fun changeaddr_from :: "nat list \<Rightarrow> nat \<Rightarrow> mac \<Rightarrow> net_bridge \<Rightarrow> net_bridge" where
  "changeaddr_from [] n newaddr br = br"
| "changeaddr_from (i # is) n newaddr br =
     (case List.extract (\<lambda>f. fdb_dst f = Some n \<and> is_local f) (hash br i) of
        None \<Rightarrow> changeaddr_from is n newaddr br
      | Some (before, f, after) \<Rightarrow>
          (let br1 = set_chain i (before @ after) br;
               f1 = f\<lparr>fdb_addr := newaddr\<rparr>;
               h = br_mac_hash newaddr
           in set_chain h (f1 # hash br1 h) br1))"

definition br_fdb_changeaddr :: "nat \<Rightarrow> mac \<Rightarrow> net_bridge \<Rightarrow> net_bridge" where
  "br_fdb_changeaddr n newaddr br = changeaddr_from [0..<BR_HASH_SIZE] n newaddr br"

section \<open>Insertion\<close>

definition fdb_possibly_replace ::
    "u32 \<Rightarrow> nat option \<Rightarrow> bool \<Rightarrow> net_bridge_fdb_entry \<Rightarrow> net_bridge_fdb_entry" where
  "fdb_possibly_replace jiffies source local fdb =
     (if \<not> is_static fdb \<or> local
      then fdb\<lparr>fdb_dst := source, is_local := local, is_static := local, ageing_timer := jiffies\<rparr>
      else fdb)"

definition br_fdb_insert :: "u32 \<Rightarrow> nat option \<Rightarrow> mac \<Rightarrow> bool \<Rightarrow> net_bridge \<Rightarrow> net_bridge" where
  "br_fdb_insert jiffies source addr local br =
     (let h = br_mac_hash addr in
      case upd_first (\<lambda>fdb. maccmp (fdb_addr fdb) addr = 0)
             (fdb_possibly_replace jiffies source local) (hash br h) of
        Some c \<Rightarrow> set_chain h c br
      | None \<Rightarrow>
          (let (ok, br) = alloc br in
           if \<not> ok then br
           else set_chain h
             (\<lparr>use_count = 1, fdb_addr = addr, fdb_dst = source, ageing_timer = jiffies,
               is_local = local, is_static = local\<rparr> # hash br h) br))"

section \<open>Dump\<close>

record fdb_record =
  mac_addr :: mac
  fr_port_no :: nat
  fr_is_local :: bool
  ageing_timer_value :: u32

text \<open>The port number of the record is a byte.\<close>

definition copy_fdb :: "u32 \<Rightarrow> net_bridge_fdb_entry \<Rightarrow> fdb_record" where
  "copy_fdb jiffies f =
     \<lparr>mac_addr = fdb_addr f,
      fr_port_no = (case fdb_dst f of Some n \<Rightarrow> n mod 256 | None \<Rightarrow> 0),
      fr_is_local = is_local f,
      ageing_timer_value = (if is_static f then 0 else jiffies - ageing_timer f)\<rparr>"

text \<open>
  The hash lock is released while a record is copied to the caller. The outcome of the \<open>k\<close>-th copy
  is \<open>copy k\<close>: done, the address is bad, or the entry was unlinked meanwhile.
\<close>

datatype copy_outcome = Copied | Copy_fault | Copy_unlinked

datatype errno = EAGAIN | EFAULT

fun fdb_walk_chain ::
    "(nat \<Rightarrow> copy_outcome) \<Rightarrow> u32 \<Rightarrow> net_bridge \<Rightarrow> int \<Rightarrow> net_bridge_fdb_entry list
       \<Rightarrow> int \<times> fdb_record list \<Rightarrow> errno + (int \<times> fdb_record list)" where
  "fdb_walk_chain copy jiffies br maxnum [] (offset, walk) = Inr (offset, walk)"
| "fdb_walk_chain copy jiffies br maxnum (f # fs) (offset, walk) =
     (if \<not> int (length walk) < maxnum then Inr (offset, walk)
      else if has_expired jiffies br f then fdb_walk_chain copy jiffies br maxnum fs (offset, walk)
      else if offset \<noteq> 0 then fdb_walk_chain copy jiffies br maxnum fs (offset - 1, walk)
      else
        (case copy (length walk) of
           Copy_fault \<Rightarrow> Inl EFAULT
         | Copy_unlinked \<Rightarrow> Inl EAGAIN
         | Copied \<Rightarrow>
             fdb_walk_chain copy jiffies br maxnum fs (offset, walk @ [copy_fdb jiffies f])))"

fun fdb_walk_chains ::
    "(nat \<Rightarrow> copy_outcome) \<Rightarrow> u32 \<Rightarrow> net_bridge \<Rightarrow> int \<Rightarrow> nat list
       \<Rightarrow> int \<times> fdb_record list \<Rightarrow> errno + fdb_record list" where
  "fdb_walk_chains copy jiffies br maxnum [] (offset, walk) = Inr walk"
| "fdb_walk_chains copy jiffies br maxnum (i # is) (offset, walk) =
     (case fdb_walk_chain copy jiffies br maxnum (hash br i) (offset, walk) of
        Inl e \<Rightarrow> Inl e
      | Inr s \<Rightarrow> fdb_walk_chains copy jiffies br maxnum is s)"

definition br_fdb_get_entries ::
    "(nat \<Rightarrow> copy_outcome) \<Rightarrow> u32 \<Rightarrow> int \<Rightarrow> int \<Rightarrow> net_bridge \<Rightarrow> errno + fdb_record list" where
  "br_fdb_get_entries copy jiffies maxnum offset br =
     fdb_walk_chains copy jiffies br maxnum [0..<BR_HASH_SIZE] (offset, [])"

section \<open>Hash and comparison facts\<close>

lemma br_mac_hash_less: "br_mac_hash a < BR_HASH_SIZE"
proof -
  have "unat (x AND 255 :: u32) < 256" for x
  proof -
    have "x AND 255 \<le> (255 :: u32)" by (rule word_and_le1)
    then show ?thesis by (simp add: word_le_nat_alt)
  qed
  then show ?thesis by (simp add: br_mac_hash_def BR_HASH_SIZE_def Let_def)
qed

lemma halfword_inject: "halfword a b = halfword c d \<longleftrightarrow> a = c \<and> b = d"
proof
  have get: "b = ucast (drop_bit 8 (halfword a b))" "a = ucast (halfword a b)" for a b
    unfolding halfword_def
    by (intro bit_word_eqI; auto simp: bit_simps dest: bit_imp_le_length)+
  show "halfword a b = halfword c d \<Longrightarrow> a = c \<and> b = d"
    by (metis get)
qed simp

lemma maccmp_eq_0 [simp]: "maccmp a b = 0 \<longleftrightarrow> a = b"
  by (cases a; cases b) (auto simp: maccmp_def halfword_inject Let_def)

section \<open>Chain facts\<close>

lemma upd_first_None: "upd_first P f xs = None \<longleftrightarrow> (\<forall>x\<in>set xs. \<not> P x)"
  by (induction xs) auto

lemma find_upd_first:
  "upd_first P f xs = Some ys \<Longrightarrow> (\<And>x. P x \<Longrightarrow> P (f x)) \<Longrightarrow> find P ys = map_option f (find P xs)"
  by (induction xs arbitrary: ys) (auto split: if_splits)

lemma find_upd_first_other:
  "upd_first P f xs = Some ys \<Longrightarrow> (\<And>x. P x \<Longrightarrow> \<not> Q x \<and> \<not> Q (f x)) \<Longrightarrow> find Q ys = find Q xs"
  by (induction xs arbitrary: ys) (auto split: if_splits)

lemma map_upd_first:
  "upd_first P f xs = Some ys \<Longrightarrow> (\<And>x. g (f x) = g x) \<Longrightarrow> map g ys = map g xs"
  by (induction xs arbitrary: ys) (auto split: if_splits)

lemma set_upd_first:
  "upd_first P f xs = Some ys \<Longrightarrow> y \<in> set ys \<Longrightarrow> y \<in> set xs \<or> (\<exists>x\<in>set xs. P x \<and> y = f x)"
  by (induction xs arbitrary: ys) (auto split: if_splits)

lemma all_upd_first:
  "upd_first Q f xs = Some ys \<Longrightarrow> \<forall>x\<in>set xs. P x \<Longrightarrow> (\<And>x. P x \<Longrightarrow> Q x \<Longrightarrow> P (f x)) \<Longrightarrow> \<forall>y\<in>set ys. P y"
  by (induction xs arbitrary: ys) (auto split: if_splits)

lemma upd_first_Some_find: "upd_first P f xs = Some ys \<Longrightarrow> \<exists>x. find P xs = Some x"
  by (induction xs arbitrary: ys) (auto split: if_splits)

lemma find_Some_upd_first: "find P xs = Some x \<Longrightarrow> \<exists>ys. upd_first P f xs = Some ys"
  by (induction xs) (auto split: if_splits)

lemma upd_first_upd_first:
  "upd_first P f xs = Some ys \<Longrightarrow> (\<And>x. P x \<Longrightarrow> P (f x)) \<Longrightarrow>
     upd_first P g ys = upd_first P (\<lambda>x. g (f x)) xs"
  by (induction xs arbitrary: ys) (auto split: if_splits)

lemma upd_first_same: "find P xs = Some x \<Longrightarrow> f x = x \<Longrightarrow> upd_first P f xs = Some xs"
  by (induction xs) (auto split: if_splits)

lemma fst_fdb_sweep: "fst (fdb_sweep P fs) = filter (\<lambda>f. \<not> P f) fs"
  by (induction fs) (simp_all add: case_prod_beta Let_def)

lemma snd_fdb_sweep: "(\<forall>f\<in>set fs. use_count f = 1) \<Longrightarrow> snd (fdb_sweep P fs) = []"
  by (induction fs) (simp_all add: case_prod_beta Let_def br_fdb_put_def)

lemma find_filter_key:
  "distinct (map g xs) \<Longrightarrow>
   find (\<lambda>x. g x = k) (filter P xs) =
     (case find (\<lambda>x. g x = k) xs of None \<Rightarrow> None | Some x \<Rightarrow> if P x then Some x else None)"
  by (induction xs) (auto split: option.split dest!: find_key_Some)


section \<open>Well-formed tables\<close>

text \<open>
  Every entry is on the chain of its address and holds the reference of the table, every address has at most
  one entry, and every entry leads to a port of the bridge.
\<close>

definition fdb_all :: "(nat \<Rightarrow> net_bridge_fdb_entry \<Rightarrow> bool) \<Rightarrow> net_bridge \<Rightarrow> bool" where
  "fdb_all P br \<longleftrightarrow> (\<forall>i. \<forall>f\<in>set (hash br i). P i f)"

definition fdb_hashed :: "net_bridge \<Rightarrow> bool" where
  "fdb_hashed br \<longleftrightarrow> fdb_all (\<lambda>i f. br_mac_hash (fdb_addr f) = i \<and> 1 \<le> use_count f) br"

definition fdb_unique :: "net_bridge \<Rightarrow> bool" where
  "fdb_unique br \<longleftrightarrow> (\<forall>i. distinct (map fdb_addr (hash br i)))"

definition fdb_ports :: "net_bridge \<Rightarrow> bool" where
  "fdb_ports br \<longleftrightarrow> fdb_all (\<lambda>i f. fdb_dst f \<in> Some ` set (port_nos br)) br"

text \<open>What the table knows of an address.\<close>

definition fdb_lookup :: "net_bridge \<Rightarrow> mac \<Rightarrow> net_bridge_fdb_entry option" where
  "fdb_lookup br addr = find (\<lambda>f. fdb_addr f = addr) (hash br (br_mac_hash addr))"

text \<open>The entry an address gets when it is seen.\<close>

definition fdb_seen ::
    "u32 \<times> nat option \<times> bool \<Rightarrow> mac \<Rightarrow> net_bridge_fdb_entry option \<Rightarrow> net_bridge_fdb_entry" where
  "fdb_seen x addr e =
     (case x of (jiffies, source, local) \<Rightarrow>
        (case e of
           Some f \<Rightarrow> fdb_possibly_replace jiffies source local f
         | None \<Rightarrow> \<lparr>use_count = 1, fdb_addr = addr, fdb_dst = source, ageing_timer = jiffies,
                    is_local = local, is_static = local\<rparr>))"

lemma fdb_possibly_replace_simps [simp]:
  "fdb_addr (fdb_possibly_replace j s l f) = fdb_addr f"
  "use_count (fdb_possibly_replace j s l f) = use_count f"
  by (simp_all add: fdb_possibly_replace_def)

lemma hash_set_chain [simp]: "hash (set_chain i c br) = (hash br)(i := c)"
  by (simp add: set_chain_def)

lemma set_chain_frame [simp]:
  "mem (set_chain i c br) = mem br" "port_nos (set_chain i c br) = port_nos br"
  "oopsed (set_chain i c br) = oopsed br" "mfd (set_chain i c br) = mfd br"
  by (simp_all add: set_chain_def port_nos_def)

lemma alloc_frame:
  "hash (snd (alloc br)) = hash br" "port_nos (snd (alloc br)) = port_nos br"
  "oopsed (snd (alloc br)) = oopsed br" "mfd (snd (alloc br)) = mfd br" "mem br = [] \<Longrightarrow> alloc br = (True, br)"
  by (simp_all add: alloc_def port_nos_def split: list.split)

lemma br_fdb_insert_frame:
  "port_nos (br_fdb_insert j s a l br) = port_nos br"
  "oopsed (br_fdb_insert j s a l br) = oopsed br"
  "mfd (br_fdb_insert j s a l br) = mfd br"
  "mem br = [] \<Longrightarrow> mem (br_fdb_insert j s a l br) = []"
  by (simp_all add: br_fdb_insert_def Let_def case_prod_beta alloc_frame split: option.split)

text \<open>The chain of the address after an insertion; the others stay as they are.\<close>

lemma hash_br_fdb_insert:
  "hash (br_fdb_insert j s a l br) =
     (case upd_first (\<lambda>f. fdb_addr f = a) (fdb_possibly_replace j s l) (hash br (br_mac_hash a)) of
        Some c \<Rightarrow> (hash br)(br_mac_hash a := c)
      | None \<Rightarrow> if fst (alloc br)
                then (hash br)(br_mac_hash a := fdb_seen (j, s, l) a None # hash br (br_mac_hash a))
                else hash br)"
  by (simp add: br_fdb_insert_def fdb_seen_def Let_def case_prod_beta alloc_frame split: option.split)

lemma fdb_lookup_insert:
  assumes "mem br = []"
  shows "fdb_lookup (br_fdb_insert j s a l br) k =
    (if k = a then Some (fdb_seen (j, s, l) a (fdb_lookup br a)) else fdb_lookup br k)"
proof (cases "upd_first (\<lambda>f. fdb_addr f = a) (fdb_possibly_replace j s l) (hash br (br_mac_hash a))")
  case None
  then have "find (\<lambda>f. fdb_addr f = a) (hash br (br_mac_hash a)) = None"
    by (simp add: upd_first_None find_None_iff)
  with None assms show ?thesis
    by (simp add: fdb_lookup_def hash_br_fdb_insert alloc_frame fdb_seen_def)
next
  case (Some c)
  from upd_first_Some_find [OF Some] obtain f
    where f: "find (\<lambda>f. fdb_addr f = a) (hash br (br_mac_hash a)) = Some f" ..
  have "find (\<lambda>f. fdb_addr f = a) c = Some (fdb_possibly_replace j s l f)"
    using find_upd_first [OF Some] f by simp
  moreover have "k \<noteq> a \<Longrightarrow> find (\<lambda>f. fdb_addr f = k) c = find (\<lambda>f. fdb_addr f = k) (hash br (br_mac_hash a))"
    using find_upd_first_other [OF Some, of "\<lambda>f. fdb_addr f = k"] by simp
  ultimately show ?thesis
    using Some f by (simp add: fdb_lookup_def hash_br_fdb_insert fdb_seen_def)
qed


lemma fdb_all_insert:
  assumes "fdb_all P br" and "P (br_mac_hash a) (fdb_seen (j, s, l) a None)"
    and "\<And>f. P (br_mac_hash a) f \<Longrightarrow> fdb_addr f = a \<Longrightarrow> P (br_mac_hash a) (fdb_possibly_replace j s l f)"
  shows "fdb_all P (br_fdb_insert j s a l br)"
proof -
  have all: "\<forall>f\<in>set (hash br i). P i f" for i
    using assms(1) by (simp add: fdb_all_def)
  show ?thesis
  proof (cases "upd_first (\<lambda>f. fdb_addr f = a) (fdb_possibly_replace j s l) (hash br (br_mac_hash a))")
    case None
    with all assms(2) show ?thesis by (simp add: fdb_all_def hash_br_fdb_insert)
  next
    case (Some c)
    have "\<forall>f\<in>set c. P (br_mac_hash a) f"
      using all_upd_first [OF Some all] assms(3) by blast
    with Some all show ?thesis by (simp add: fdb_all_def hash_br_fdb_insert)
  qed
qed

lemma fdb_hashed_insert: "fdb_hashed br \<Longrightarrow> fdb_hashed (br_fdb_insert j s a l br)"
  unfolding fdb_hashed_def by (rule fdb_all_insert) (simp_all add: fdb_seen_def)

lemma fdb_ports_insert:
  assumes "fdb_ports br" and "s \<in> Some ` set (port_nos br)"
  shows "fdb_ports (br_fdb_insert j s a l br)"
  using assms(1) unfolding fdb_ports_def br_fdb_insert_frame
  by (rule fdb_all_insert) (use assms(2) in \<open>simp_all add: fdb_seen_def fdb_possibly_replace_def\<close>)

lemma fdb_unique_insert:
  assumes "fdb_unique br"
  shows "fdb_unique (br_fdb_insert j s a l br)"
proof (cases "upd_first (\<lambda>f. fdb_addr f = a) (fdb_possibly_replace j s l) (hash br (br_mac_hash a))")
  case None
  then have "a \<notin> set (map fdb_addr (hash br (br_mac_hash a)))"
    using find_key_None_iff [of fdb_addr a "hash br (br_mac_hash a)"]
    by (simp add: upd_first_None find_None_iff)
  with None assms show ?thesis
    by (simp add: fdb_unique_def hash_br_fdb_insert fdb_seen_def)
next
  case (Some c)
  have "map fdb_addr c = map fdb_addr (hash br (br_mac_hash a))"
    using map_upd_first [OF Some, of fdb_addr] by simp
  with Some assms show ?thesis
    by (simp add: fdb_unique_def hash_br_fdb_insert)
qed

section \<open>Sweeps\<close>

lemma hash_sweep_all:
  assumes "fdb_hashed br"
  shows "hash (sweep_all P br) = (\<lambda>i. filter (\<lambda>f. \<not> P f) (hash br i))"
proof
  fix i
  show "hash (sweep_all P br) i = filter (\<lambda>f. \<not> P f) (hash br i)"
  proof (cases "i < BR_HASH_SIZE")
    case False
    have "hash br i = []"
    proof (rule ccontr)
      assume "hash br i \<noteq> []"
      then have "br_mac_hash (fdb_addr (hd (hash br i))) = i"
        using assms by (simp add: fdb_hashed_def fdb_all_def)
      with False br_mac_hash_less [of "fdb_addr (hd (hash br i))"] show False by simp
    qed
    then show ?thesis by (simp add: sweep_all_def)
  qed (simp add: sweep_all_def fst_fdb_sweep)
qed

lemma sweep_all_frame [simp]:
  "port_nos (sweep_all P br) = port_nos br" "oopsed (sweep_all P br) = oopsed br"
  "mem (sweep_all P br) = mem br" "mfd (sweep_all P br) = mfd br"
  by (simp_all add: sweep_all_def port_nos_def)

lemma fdb_all_sweep: "fdb_all Q br \<Longrightarrow> fdb_all Q (sweep_all P br)"
  by (simp add: fdb_all_def sweep_all_def fst_fdb_sweep)

lemma fdb_hashed_sweep: "fdb_hashed br \<Longrightarrow> fdb_hashed (sweep_all P br)"
  unfolding fdb_hashed_def by (rule fdb_all_sweep)

lemma fdb_ports_sweep: "fdb_ports br \<Longrightarrow> fdb_ports (sweep_all P br)"
  unfolding fdb_ports_def sweep_all_frame by (rule fdb_all_sweep)

lemma fdb_unique_sweep: "fdb_unique br \<Longrightarrow> fdb_unique (sweep_all P br)"
  by (simp add: fdb_unique_def sweep_all_def fst_fdb_sweep distinct_map_filter)

lemma fdb_lookup_sweep:
  assumes "fdb_hashed br" and "fdb_unique br"
  shows "fdb_lookup (sweep_all P br) k =
    (case fdb_lookup br k of None \<Rightarrow> None | Some f \<Rightarrow> if P f then None else Some f)"
  using find_filter_key [of fdb_addr "hash br (br_mac_hash k)" k "\<lambda>f. \<not> P f"] assms(2)
  by (simp add: fdb_lookup_def hash_sweep_all [OF assms(1)] fdb_unique_def split: option.split)

section \<open>The table as an address table\<close>

text \<open>
  The contract of a learning table: a sighting of an address changes what is known of that address
  only, a purge removes the entries that satisfy a test.
\<close>

locale address_table =
  fixes ok :: "'s \<Rightarrow> bool"
    and look :: "'s \<Rightarrow> 'k \<Rightarrow> 'e option"
    and learn :: "'x \<Rightarrow> 'k \<Rightarrow> 's \<Rightarrow> 's"
    and purge :: "('e \<Rightarrow> bool) \<Rightarrow> 's \<Rightarrow> 's"
    and seen :: "'x \<Rightarrow> 'k \<Rightarrow> 'e option \<Rightarrow> 'e"
  assumes ok_learn: "ok s \<Longrightarrow> ok (learn x k s)"
    and ok_purge: "ok s \<Longrightarrow> ok (purge P s)"
    and look_learn: "ok s \<Longrightarrow> look (learn x k s) k' = (if k' = k then Some (seen x k (look s k)) else look s k')"
    and look_purge: "ok s \<Longrightarrow>
      look (purge P s) k = (case look s k of None \<Rightarrow> None | Some e \<Rightarrow> if P e then None else Some e)"
begin

lemma ok_learn_all: "ok s \<Longrightarrow> ok (fold (\<lambda>(x, k). learn x k) xs s)"
  by (induction xs arbitrary: s) (auto simp: ok_learn)

text \<open>After any sequence of sightings an address is known by its own sightings alone.\<close>

lemma look_learn_all:
  "ok s \<Longrightarrow> look (fold (\<lambda>(x, k). learn x k) xs s) k =
     fold (\<lambda>(x, _) e. Some (seen x k e)) (filter (\<lambda>(x, k'). k' = k) xs) (look s k)"
  by (induction xs arbitrary: s) (auto simp: ok_learn look_learn)

lemma purge_purge: "ok s \<Longrightarrow> look (purge P (purge Q s)) k = look (purge (\<lambda>e. P e \<or> Q e) s) k"
  by (simp add: ok_purge look_purge split: option.split)

lemma purge_absent: "ok s \<Longrightarrow> look (purge P s) k = Some e \<Longrightarrow> \<not> P e \<and> look s k = Some e"
  by (simp add: look_purge split: option.splits if_splits)

end

definition fdb_ok :: "net_bridge \<Rightarrow> bool" where
  "fdb_ok br \<longleftrightarrow> fdb_hashed br \<and> fdb_unique br"

interpretation fdb: address_table
  "\<lambda>br. fdb_ok br \<and> mem br = []" fdb_lookup
  "\<lambda>(jiffies, source, local) addr. br_fdb_insert jiffies source addr local" sweep_all fdb_seen
proof (unfold_locales, goal_cases)
  case (1 s x k)
  then show ?case
    by (cases x) (simp add: fdb_ok_def fdb_hashed_insert fdb_unique_insert br_fdb_insert_frame)
next
  case (2 s P)
  then show ?case
    by (simp add: fdb_ok_def fdb_hashed_sweep fdb_unique_sweep)
next
  case (3 s x k k')
  then show ?case by (cases x) (simp add: fdb_lookup_insert)
next
  case (4 s P k)
  then show ?case by (simp add: fdb_lookup_sweep fdb_ok_def)
qed

section \<open>References\<close>

lemma upd_first_undo:
  assumes "find P xs = Some x" and "P (f x)" and "g (f x) = x"
  shows "(case upd_first P f xs of Some ys \<Rightarrow> upd_first P g ys | None \<Rightarrow> None) = Some xs"
  using assms by (induction xs) (auto split: option.splits if_splits)

lemma br_fdb_get_None: "fst (br_fdb_get jiffies a br) = None \<Longrightarrow> snd (br_fdb_get jiffies a br) = br"
  by (simp add: br_fdb_get_def Let_def split: option.splits if_splits)

lemma br_fdb_get_lookup:
  "fst (br_fdb_get jiffies a br) =
     (case fdb_lookup br a of
        None \<Rightarrow> None
      | Some f \<Rightarrow> if has_expired jiffies br f then None else Some (f\<lparr>use_count := use_count f + 1\<rparr>))"
proof (cases "fdb_lookup br a")
  case None
  then show ?thesis by (simp add: fdb_lookup_def br_fdb_get_def Let_def)
next
  case (Some f)
  then obtain c where "upd_first (\<lambda>fdb. fdb_addr fdb = a) (\<lambda>fdb. fdb\<lparr>use_count := use_count fdb + 1\<rparr>)
      (hash br (br_mac_hash a)) = Some c"
    unfolding fdb_lookup_def
    using find_Some_upd_first [where f = "\<lambda>fdb. fdb\<lparr>use_count := use_count fdb + 1\<rparr>"] by blast
  with Some show ?thesis by (simp add: fdb_lookup_def br_fdb_get_def Let_def)
qed

text \<open>Releasing the entry of a lookup gives the table back as it was.\<close>

lemma br_fdb_get_chain:
  assumes "fdb_hashed br" and "br_fdb_get jiffies a br = (Some f, br')"
  shows "\<exists>c. br' = set_chain (br_mac_hash a) c br \<and> put_in_chain a c = Some (hash br (br_mac_hash a))
    \<and> (\<forall>g\<in>set c. \<exists>e\<in>set (hash br (br_mac_hash a)). g = e \<or> g = e\<lparr>use_count := use_count e + 1\<rparr>)"
proof -
  let ?P = "\<lambda>fdb. fdb_addr fdb = a" and ?c = "hash br (br_mac_hash a)"
  let ?inc = "\<lambda>fdb. fdb\<lparr>use_count := use_count fdb + 1\<rparr>"
  from assms(2) obtain e where e: "find ?P ?c = Some e"
    by (cases "find ?P ?c") (simp_all add: br_fdb_get_def Let_def)
  then obtain c where c: "upd_first ?P ?inc ?c = Some c"
    using find_Some_upd_first [OF e, of ?inc] by blast
  have br': "br' = set_chain (br_mac_hash a) c br"
    using assms(2) e c by (simp add: br_fdb_get_def Let_def split: if_splits)
  have one: "1 \<le> use_count e" and addr: "fdb_addr e = a"
    using assms(1) find_key_Some [OF e] unfolding fdb_hashed_def fdb_all_def by blast+
  have 1: "find ?P c = Some (?inc e)"
    using find_upd_first [OF c] e by simp
  have 2: "br_fdb_put (?inc e) = Some e"
    using one by (simp add: br_fdb_put_def)
  have 3: "upd_first ?P (\<lambda>_. e) c = Some ?c"
    using upd_first_undo [OF e, of ?inc "\<lambda>_. e"] addr c by simp
  have "put_in_chain a c = Some ?c"
    by (simp add: put_in_chain_def 1 2 3)
  moreover have "\<forall>g\<in>set c. \<exists>e\<in>set ?c. g = e \<or> g = ?inc e"
    using set_upd_first [OF c] by blast
  ultimately show ?thesis using br' by blast
qed

lemma br_fdb_get_put:
  assumes "fdb_hashed br" and "br_fdb_get jiffies a br = (Some f, br')"
  shows "fdb_put_linked a br' = br"
  using br_fdb_get_chain [OF assms] by (elim exE conjE) (simp add: fdb_put_linked_def, simp add: set_chain_def)

text \<open>A reference does no harm to the table while it is held.\<close>

lemma fdb_all_get:
  assumes "fdb_hashed br" and "br_fdb_get jiffies a br = (Some f, br')" and "fdb_all P br"
    and "\<And>i e. P i e \<Longrightarrow> P i (e\<lparr>use_count := use_count e + 1\<rparr>)"
  shows "fdb_all P br'"
proof -
  obtain c where c: "br' = set_chain (br_mac_hash a) c br"
    and set: "\<forall>g\<in>set c. \<exists>e\<in>set (hash br (br_mac_hash a)). g = e \<or> g = e\<lparr>use_count := use_count e + 1\<rparr>"
    using br_fdb_get_chain [OF assms(1,2)] by blast
  have "\<forall>e\<in>set (hash br (br_mac_hash a)). P (br_mac_hash a) e"
    using assms(3) unfolding fdb_all_def by blast
  then have "\<forall>g\<in>set c. P (br_mac_hash a) g" using set assms(4) by blast
  with assms(3) show ?thesis by (simp add: c fdb_all_def)
qed

lemma fdb_put_linked_same:
  assumes "fdb_hashed br" and "br_fdb_get jiffies a br = (Some f, br')" and "hash b = hash br'"
  shows "fdb_put_linked a b = b\<lparr>hash := hash br\<rparr>"
proof -
  obtain c where c: "br' = set_chain (br_mac_hash a) c br"
    "put_in_chain a c = Some (hash br (br_mac_hash a))"
    using br_fdb_get_chain [OF assms(1,2)] by blast
  have "hash b = (hash br)(br_mac_hash a := c)" using assms(3) c(1) by simp
  then show ?thesis using c(2) by (simp add: fdb_put_linked_def set_chain_def)
qed

section \<open>Changing the address of a port\<close>

lemma extract_Some_sets:
  "List.extract P xs = Some (ys, x, zs) \<Longrightarrow> set ys \<subseteq> set xs \<and> set zs \<subseteq> set xs \<and> x \<in> set xs \<and> P x"
  by (auto simp: extract_Some_iff)

lemma changeaddr_from_frame:
  "port_nos (changeaddr_from is n a br) = port_nos br"
  "oopsed (changeaddr_from is n a br) = oopsed br"
  "mem (changeaddr_from is n a br) = mem br" "mfd (changeaddr_from is n a br) = mfd br"
  by (induction "is") (simp_all add: Let_def split: option.split)

lemma fdb_all_set_chain:
  "fdb_all P br \<Longrightarrow> (\<And>f. f \<in> set c \<Longrightarrow> P i f) \<Longrightarrow> fdb_all P (set_chain i c br)"
  by (simp add: fdb_all_def)

lemma fdb_all_changeaddr_from:
  assumes all: "fdb_all P br"
    and moved: "\<And>i f. P i f \<Longrightarrow> fdb_dst f = Some n \<Longrightarrow> is_local f \<Longrightarrow> P (br_mac_hash a) (f\<lparr>fdb_addr := a\<rparr>)"
  shows "fdb_all P (changeaddr_from is n a br)"
proof (induction "is")
  case (Cons i "is")
  show ?case
  proof (cases "List.extract (\<lambda>f. fdb_dst f = Some n \<and> is_local f) (hash br i)")
    case (Some t)
    obtain before f after where t: "t = (before, f, after)" by (cases t)
    note sets = extract_Some_sets [OF Some [unfolded t]]
    have 1: "fdb_all P (set_chain i (before @ after) br)"
      by (rule fdb_all_set_chain [OF all]) (use sets all in \<open>auto simp only: fdb_all_def set_append\<close>)
    have "P i f" using sets all unfolding fdb_all_def by blast
    then have f: "P (br_mac_hash a) (f\<lparr>fdb_addr := a\<rparr>)" using sets moved by blast
    have "fdb_all P (set_chain h (x # hash (set_chain i (before @ after) br) h) (set_chain i (before @ after) br))"
      if "P h x" for h x
      using 1 that by (intro fdb_all_set_chain [OF 1]) (auto simp only: fdb_all_def list.set)
    with f Some t show ?thesis by (simp add: Let_def)
  qed (simp add: Cons.IH)
qed (simp add: all)

lemma fdb_hashed_changeaddr: "fdb_hashed br \<Longrightarrow> fdb_hashed (br_fdb_changeaddr n a br)"
  unfolding fdb_hashed_def br_fdb_changeaddr_def by (rule fdb_all_changeaddr_from) simp_all

lemma fdb_ports_changeaddr: "fdb_ports br \<Longrightarrow> fdb_ports (br_fdb_changeaddr n a br)"
  unfolding fdb_ports_def br_fdb_changeaddr_def changeaddr_from_frame
  by (rule fdb_all_changeaddr_from) simp_all

section \<open>Paging\<close>

text \<open>The live entries of the table in the order of the dump.\<close>

definition fdb_live :: "u32 \<Rightarrow> net_bridge \<Rightarrow> net_bridge_fdb_entry list" where
  "fdb_live jiffies br =
     filter (\<lambda>f. \<not> has_expired jiffies br f) (concat (map (hash br) [0..<BR_HASH_SIZE]))"

lemma fdb_walk_chain_append:
  "fdb_walk_chain copy j br maxnum (xs @ ys) s =
     (case fdb_walk_chain copy j br maxnum xs s of
        Inl e \<Rightarrow> Inl e | Inr s' \<Rightarrow> fdb_walk_chain copy j br maxnum ys s')"
proof (induction copy j br maxnum xs s rule: fdb_walk_chain.induct)
  case (2 copy jiffies br maxnum f fs offset walk)
  have full: "\<not> int (length walk) < maxnum \<Longrightarrow>
      fdb_walk_chain copy jiffies br maxnum ys (offset, walk) = Inr (offset, walk)"
    by (cases ys) simp_all
  with 2 show ?case by (simp split: copy_outcome.split)
qed simp

lemma fdb_walk_chains_concat:
  "fdb_walk_chains copy j br maxnum is s =
     (case fdb_walk_chain copy j br maxnum (concat (map (hash br) is)) s of
        Inl e \<Rightarrow> Inl e | Inr s' \<Rightarrow> Inr (snd s'))"
  by (induction copy j br maxnum "is" s rule: fdb_walk_chains.induct)
     (auto simp: fdb_walk_chain_append split: sum.split)

lemma fdb_walk_chain_page:
  assumes "0 \<le> offset"
  shows "\<exists>offset'. fdb_walk_chain (\<lambda>_. Copied) j br maxnum fs (offset, walk) =
    Inr (offset', walk @ take (nat maxnum - length walk)
           (map (copy_fdb j) (drop (nat offset) (filter (\<lambda>f. \<not> has_expired j br f) fs))))"
  using assms
proof (induction fs arbitrary: offset walk)
  case (Cons f fs)
  consider "\<not> int (length walk) < maxnum" | "int (length walk) < maxnum" "has_expired j br f"
    | "int (length walk) < maxnum" "\<not> has_expired j br f" "offset \<noteq> 0"
    | "int (length walk) < maxnum" "\<not> has_expired j br f" "offset = 0" by blast
  then show ?case
  proof cases
    case 3
    then have "nat offset = Suc (nat (offset - 1))" using Cons.prems by simp
    then show ?thesis using 3 Cons.IH [of "offset - 1" walk] Cons.prems by simp
  next
    case 4
    then have "nat maxnum - length walk = Suc (nat maxnum - Suc (length walk))" by simp
    then show ?thesis using 4 Cons.IH [of 0 "walk @ [copy_fdb j f]"] by simp
  qed (use Cons in simp_all)
qed simp

lemma br_fdb_get_entries_page:
  assumes "0 \<le> offset"
  shows "br_fdb_get_entries (\<lambda>_. Copied) jiffies maxnum offset br =
    Inr (take (nat maxnum) (map (copy_fdb jiffies) (drop (nat offset) (fdb_live jiffies br))))"
  using fdb_walk_chain_page [OF assms, of jiffies br maxnum "concat (map (hash br) [0..<BR_HASH_SIZE])" "[]"]
  by (auto simp: br_fdb_get_entries_def fdb_walk_chains_concat fdb_live_def)

end
