(* ===== verification/Br_Stp_If.thy ===== *)
theory Br_Stp_If
  imports Br_Stp Br_Fdb
begin

text \<open>
  The configuration side of the spanning tree protocol (br_stp_if.c) and its timers
  (br_stp_timer.c). Bringing the bridge up arms the tick timer; a tick runs the timers of the
  bridge and of every enabled port and arms itself again.
\<close>

section \<open>Ports and the bridge going up and down\<close>

definition br_make_port_id :: "net_bridge_port \<Rightarrow> u16" where
  "br_make_port_id p = ucast (push_bit 8 (p_priority p) OR of_nat (port_no p))"

definition init_port :: "net_bridge \<Rightarrow> net_bridge_port \<Rightarrow> net_bridge_port" where
  "init_port br p =
     (br_become_designated_port br (p\<lparr>port_id := br_make_port_id p\<rparr>))
       \<lparr>p_state := BR_STATE_BLOCKING, p_topology_change_ack := False, config_pending := False,
        message_age_timer := br_timer_clear (message_age_timer p),
        forward_delay_timer := br_timer_clear (forward_delay_timer p),
        hold_timer := br_timer_clear (hold_timer p)\<rparr>"

definition br_init_port :: "nat \<Rightarrow> net_bridge \<Rightarrow> net_bridge" where
  "br_init_port n br = upd_port n (init_port br) br"

definition br_stp_enable_port :: "u32 \<Rightarrow> nat \<Rightarrow> net_bridge \<Rightarrow> net_bridge" where
  "br_stp_enable_port jiffies n br = br_port_state_selection jiffies (br_init_port n br)"

text \<open>A bridge that was not the root and now is takes up the duties of the root.\<close>

definition become_root_if_new :: "u32 \<Rightarrow> bool \<Rightarrow> net_bridge \<Rightarrow> net_bridge" where
  "become_root_if_new jiffies wasroot br =
     (if br_is_root_bridge br \<and> \<not> wasroot then br_become_root_bridge jiffies br else br)"

definition br_stp_disable_port :: "u32 \<Rightarrow> nat \<Rightarrow> net_bridge \<Rightarrow> net_bridge" where
  "br_stp_disable_port jiffies n br =
     become_root_if_new jiffies (br_is_root_bridge br)
       (br_port_state_selection jiffies (br_configuration_update
          (upd_port n (\<lambda>p. (br_become_designated_port br p)
             \<lparr>p_state := BR_STATE_DISABLED, p_topology_change_ack := False, config_pending := False,
              message_age_timer := br_timer_clear (message_age_timer p),
              forward_delay_timer := br_timer_clear (forward_delay_timer p),
              hold_timer := br_timer_clear (hold_timer p)\<rparr>) br)))"

definition br_stp_enable_bridge :: "u32 \<Rightarrow> net_bridge \<Rightarrow> net_bridge" where
  "br_stp_enable_bridge jiffies br =
     (let br1 = br\<lparr>tick := Some (jiffies + 1), hello_timer := br_timer_set jiffies (hello_timer br)\<rparr>;
          br2 = br_config_bpdu_generation jiffies br1;
          br3 = for_each_port (\<lambda>p br. if dev_up (p_dev p)
                                      then br_stp_enable_port jiffies (port_no p) br else br) br2
      in br3\<lparr>gc_timer := br_timer_set jiffies (gc_timer br3)\<rparr>)"

definition br_stp_disable_bridge :: "u32 \<Rightarrow> net_bridge \<Rightarrow> net_bridge" where
  "br_stp_disable_bridge jiffies br =
     (let br1 = br\<lparr>topology_change := False, topology_change_detected := False,
                   hello_timer := br_timer_clear (hello_timer br),
                   topology_change_timer := br_timer_clear (topology_change_timer br),
                   tcn_timer := br_timer_clear (tcn_timer br),
                   gc_timer := br_timer_clear (gc_timer br)\<rparr>;
          br2 = br_fdb_cleanup jiffies br1;
          br3 = for_each_port (\<lambda>p br. if p_state p \<noteq> BR_STATE_DISABLED
                                      then br_stp_disable_port jiffies (port_no p) br else br) br2
      in br3\<lparr>tick := None\<rparr>)"

section \<open>Identifiers, priorities and costs\<close>

definition set_id_addr :: "mac \<Rightarrow> bridge_id \<Rightarrow> bridge_id" where
  "set_id_addr a b = Bridge_id (prio0 b) (prio1 b) a"

definition set_id_prio :: "s32 \<Rightarrow> bridge_id \<Rightarrow> bridge_id" where
  "set_id_prio newprio b =
     Bridge_id (ucast (signed_drop_bit 8 newprio AND 0xFF)) (ucast (newprio AND 0xFF)) (id_addr b)"

definition mac_cmp :: "mac \<Rightarrow> mac \<Rightarrow> int" where
  "mac_cmp a b = memcmp (mac_bytes a) (mac_bytes b) ETH_ALEN"

definition br_stp_change_bridge_id :: "u32 \<Rightarrow> mac \<Rightarrow> net_bridge \<Rightarrow> net_bridge" where
  "br_stp_change_bridge_id jiffies addr br =
     (let wasroot = br_is_root_bridge br;
          oldaddr = id_addr (bridge_ident br);
          br1 = br\<lparr>bridge_ident := set_id_addr addr (bridge_ident br),
                   br_dev := (br_dev br)\<lparr>dev_addr := addr\<rparr>\<rparr>;
          br2 = for_each_port (\<lambda>p. upd_port (port_no p) (\<lambda>p.
                  p\<lparr>p_designated_bridge :=
                      (if mac_cmp (id_addr (p_designated_bridge p)) oldaddr = 0
                       then set_id_addr addr (p_designated_bridge p) else p_designated_bridge p),
                    p_designated_root :=
                      (if mac_cmp (id_addr (p_designated_root p)) oldaddr = 0
                       then set_id_addr addr (p_designated_root p) else p_designated_root p)\<rparr>)) br1
      in become_root_if_new jiffies wasroot
           (br_port_state_selection jiffies (br_configuration_update br2)))"

text \<open>
  The address the bridge takes: the lowest address of its ports with the spanning tree protocol on,
  else the address of the first Ethernet port it meets. \<open>None\<close> is the pointer to \<^verbatim>\<open>br_mac_zero\<close>.
\<close>

fun recalculate_addr :: "bool \<Rightarrow> net_bridge_port list \<Rightarrow> mac option \<Rightarrow> mac option" where
  "recalculate_addr stp [] addr = addr"
| "recalculate_addr stp (p # ps) addr =
     (let a = dev_addr (p_dev p) in
      if \<not> stp \<and> strncmp (dev_name (p_dev p)) ''eth'' 3 = 0 then Some a
      else recalculate_addr stp ps
             (case addr of
                None \<Rightarrow> Some a
              | Some b \<Rightarrow> if mac_cmp a b < 0 then Some a else Some b))"

definition br_stp_recalculate_bridge_id :: "u32 \<Rightarrow> net_bridge \<Rightarrow> net_bridge" where
  "br_stp_recalculate_bridge_id jiffies br =
     (let addr = (case recalculate_addr (stp_enabled br) (port_list br) None of
                    None \<Rightarrow> br_mac_zero | Some a \<Rightarrow> a)
      in if mac_cmp (id_addr (bridge_ident br)) addr \<noteq> 0
         then br_stp_change_bridge_id jiffies addr br else br)"

definition br_stp_set_bridge_priority :: "u32 \<Rightarrow> s32 \<Rightarrow> net_bridge \<Rightarrow> net_bridge" where
  "br_stp_set_bridge_priority jiffies newprio br =
     (let wasroot = br_is_root_bridge br;
          br1 = for_each_port (\<lambda>p br.
                  if p_state p \<noteq> BR_STATE_DISABLED \<and> br_is_designated_port br p
                  then upd_port (port_no p) (\<lambda>p.
                         p\<lparr>p_designated_bridge := set_id_prio newprio (p_designated_bridge p)\<rparr>) br
                  else br) br;
          br2 = br1\<lparr>bridge_ident := set_id_prio newprio (bridge_ident br1)\<rparr>
      in become_root_if_new jiffies wasroot
           (br_port_state_selection jiffies (br_configuration_update br2)))"

definition br_stp_set_port_priority :: "u32 \<Rightarrow> nat \<Rightarrow> s32 \<Rightarrow> net_bridge \<Rightarrow> net_bridge" where
  "br_stp_set_port_priority jiffies n newprio br =
     deref n (\<lambda>p br.
       let p1 = p\<lparr>p_priority := newprio AND 0xFF\<rparr>;
           new_port_id = br_make_port_id p1;
           p2 = (if br_is_designated_port br p1 then p1\<lparr>p_designated_port := new_port_id\<rparr> else p1);
           p3 = p2\<lparr>port_id := new_port_id\<rparr>
       in if bid_cmp (bridge_ident br) (p_designated_bridge p3) = 0
             \<and> port_id p3 < p_designated_port p3
          then br_port_state_selection jiffies (upd_port n (\<lambda>_. br_become_designated_port br p3) br)
          else upd_port n (\<lambda>_. p3) br) br"

definition br_stp_set_path_cost :: "u32 \<Rightarrow> nat \<Rightarrow> s32 \<Rightarrow> net_bridge \<Rightarrow> net_bridge" where
  "br_stp_set_path_cost jiffies n cost br =
     br_port_state_selection jiffies (br_configuration_update
       (upd_port n (\<lambda>p. p\<lparr>path_cost := cost\<rparr>) br))"

section \<open>Timers\<close>

definition BR_HOLD_TIME :: u32 where
  "BR_HOLD_TIME = of_nat (1 * HZ)"

definition br_is_designated_for_some_port :: "net_bridge \<Rightarrow> bool" where
  "br_is_designated_for_some_port br =
     list_ex (\<lambda>p. p_state p \<noteq> BR_STATE_DISABLED
                  \<and> bid_cmp (p_designated_bridge p) (bridge_ident br) = 0) (port_list br)"

definition br_hello_timer_expired :: "u32 \<Rightarrow> net_bridge \<Rightarrow> net_bridge" where
  "br_hello_timer_expired jiffies br =
     (let br1 = br_config_bpdu_generation jiffies br
      in br1\<lparr>hello_timer := br_timer_set jiffies (hello_timer br1)\<rparr>)"

definition br_message_age_timer_expired :: "u32 \<Rightarrow> nat \<Rightarrow> net_bridge \<Rightarrow> net_bridge" where
  "br_message_age_timer_expired jiffies n br =
     become_root_if_new jiffies (br_is_root_bridge br)
       (br_port_state_selection jiffies (br_configuration_update
          (upd_port n (br_become_designated_port br) br)))"

definition br_forward_delay_timer_expired :: "u32 \<Rightarrow> nat \<Rightarrow> net_bridge \<Rightarrow> net_bridge" where
  "br_forward_delay_timer_expired jiffies n br =
     deref n (\<lambda>p br.
       if p_state p = BR_STATE_LISTENING
       then upd_port n (\<lambda>p. p\<lparr>p_state := BR_STATE_LEARNING,
                             forward_delay_timer := br_timer_set jiffies (forward_delay_timer p)\<rparr>) br
       else if p_state p = BR_STATE_LEARNING
       then
         (let br1 = upd_port n (\<lambda>p. p\<lparr>p_state := BR_STATE_FORWARDING\<rparr>) br
          in if br_is_designated_for_some_port br1 then br_topology_change_detection jiffies br1
             else br1)
       else br) br"

definition br_tcn_timer_expired :: "u32 \<Rightarrow> net_bridge \<Rightarrow> net_bridge" where
  "br_tcn_timer_expired jiffies br =
     (let br1 = br_transmit_tcn br in br1\<lparr>tcn_timer := br_timer_set jiffies (tcn_timer br1)\<rparr>)"

definition br_topology_change_timer_expired :: "net_bridge \<Rightarrow> net_bridge" where
  "br_topology_change_timer_expired br =
     br\<lparr>topology_change_detected := False, topology_change := False\<rparr>"

definition br_hold_timer_expired :: "u32 \<Rightarrow> nat \<Rightarrow> net_bridge \<Rightarrow> net_bridge" where
  "br_hold_timer_expired jiffies n br =
     deref n (\<lambda>p br. if config_pending p then br_transmit_config jiffies n br else br) br"

definition br_check_port_timers :: "u32 \<Rightarrow> nat \<Rightarrow> net_bridge \<Rightarrow> net_bridge" where
  "br_check_port_timers jiffies n br =
     (let br1 = deref n (\<lambda>p br.
            if br_timer_has_expired jiffies (message_age_timer p) (max_age br)
            then br_message_age_timer_expired jiffies n
                   (upd_port n (\<lambda>p. p\<lparr>message_age_timer := br_timer_clear (message_age_timer p)\<rparr>) br)
            else br) br;
          br2 = deref n (\<lambda>p br.
            if br_timer_has_expired jiffies (forward_delay_timer p) (forward_delay br)
            then br_forward_delay_timer_expired jiffies n
                   (upd_port n (\<lambda>p. p\<lparr>forward_delay_timer := br_timer_clear (forward_delay_timer p)\<rparr>) br)
            else br) br1
      in deref n (\<lambda>p br.
            if br_timer_has_expired jiffies (hold_timer p) BR_HOLD_TIME
            then br_hold_timer_expired jiffies n
                   (upd_port n (\<lambda>p. p\<lparr>hold_timer := br_timer_clear (hold_timer p)\<rparr>) br)
            else br) br2)"

text \<open>The four timers of the bridge, in the order \<^verbatim>\<open>br_check_timers\<close> tests them.\<close>

definition check_gc_timer :: "u32 \<Rightarrow> net_bridge \<Rightarrow> net_bridge" where
  "check_gc_timer jiffies br =
     (if br_timer_has_expired jiffies (gc_timer br) (gc_interval br)
      then br_fdb_cleanup jiffies (br\<lparr>gc_timer := br_timer_set jiffies (gc_timer br)\<rparr>) else br)"

definition check_hello_timer :: "u32 \<Rightarrow> net_bridge \<Rightarrow> net_bridge" where
  "check_hello_timer jiffies br =
     (if br_timer_has_expired jiffies (hello_timer br) (hello_time br)
      then br_hello_timer_expired jiffies (br\<lparr>hello_timer := br_timer_clear (hello_timer br)\<rparr>) else br)"

definition check_tcn_timer :: "u32 \<Rightarrow> net_bridge \<Rightarrow> net_bridge" where
  "check_tcn_timer jiffies br =
     (if br_timer_has_expired jiffies (tcn_timer br) (bridge_hello_time br)
      then br_tcn_timer_expired jiffies (br\<lparr>tcn_timer := br_timer_clear (tcn_timer br)\<rparr>) else br)"

definition check_topology_change_timer :: "u32 \<Rightarrow> net_bridge \<Rightarrow> net_bridge" where
  "check_topology_change_timer jiffies br =
     (if br_timer_has_expired jiffies (topology_change_timer br)
           (bridge_forward_delay br + bridge_max_age br)
      then br_topology_change_timer_expired
             (br\<lparr>topology_change_timer := br_timer_clear (topology_change_timer br)\<rparr>) else br)"

definition br_check_timers :: "u32 \<Rightarrow> net_bridge \<Rightarrow> net_bridge" where
  "br_check_timers jiffies br =
     for_each_port (\<lambda>p br. if p_state p \<noteq> BR_STATE_DISABLED
                           then br_check_port_timers jiffies (port_no p) br else br)
       (check_topology_change_timer jiffies (check_tcn_timer jiffies
         (check_hello_timer jiffies (check_gc_timer jiffies br))))"

definition br_tick :: "u32 \<Rightarrow> net_bridge \<Rightarrow> net_bridge" where
  "br_tick jiffies br = (br_check_timers jiffies br)\<lparr>tick := Some (jiffies + 1)\<rparr>"

section \<open>Safety of the operations\<close>

lemma sound_refl: "root_ok a \<Longrightarrow> sound a a"
  by (simp add: sound_def)

lemma sound_for_each_port:
  assumes "root_ok br"
    and "\<And>b n p. sound br b \<Longrightarrow> n \<in> set (port_nos br) \<Longrightarrow> br_get_port b n = Some p \<Longrightarrow> sound b (f p b)"
  shows "sound br (for_each_port f br)"
proof -
  have "sound br (fold (\<lambda>n. deref n f) ns b)"
    if "set ns \<subseteq> set (port_nos br)" and "sound br b" for ns b
    using that
  proof (induction ns arbitrary: b)
    case (Cons n ns)
    then have n: "n \<in> set (port_nos br)" by simp
    with Cons.prems have "n \<in> set (port_nos b)" by (simp add: soundD)
    then obtain p where p: "br_get_port b n = Some p"
      using br_get_port_ex_iff [of b n] by blast
    have "sound br (deref n f b)"
      unfolding deref_ok [OF p] by (rule sound_trans [OF Cons.prems(2) assms(2) [OF Cons.prems(2) n p]])
    with Cons show ?case by simp
  qed simp
  then show ?thesis using assms(1) by (simp add: for_each_port_def sound_refl)
qed

lemma sound_become_root_if_new: "sound a b \<Longrightarrow> sound a (become_root_if_new jiffies w b)"
  unfolding become_root_if_new_def by (rule sound_become_root)

lemmas sound_reselect = sound_become_root_if_new [OF keeps_sound_trans [OF _ sound_update_and_select]]

lemma keeps_init_port: "keeps br (br_init_port n br)"
  unfolding br_init_port_def by (rule keeps_upd_port) (simp add: init_port_def br_become_designated_port_def)

lemma keeps_stp_enable_port:
  assumes "root_ok br"
  shows "keeps br (br_stp_enable_port jiffies n br)"
  unfolding br_stp_enable_port_def
  using keeps_init_port [of br n] assms
  by (intro keeps_trans [OF keeps_init_port keeps_port_state_selection]) (simp only: keepsD)

lemma sound_stp_disable_port: "sound br (br_stp_disable_port jiffies n br)"
  unfolding br_stp_disable_port_def
  by (intro sound_reselect keeps_upd_port) (simp add: br_become_designated_port_def)

lemma keeps_stp_enable_bridge:
  assumes "root_ok br"
  shows "keeps br (br_stp_enable_bridge jiffies br)"
proof -
  let ?b1 = "br\<lparr>tick := Some (jiffies + 1), hello_timer := br_timer_set jiffies (hello_timer br)\<rparr>"
  have 1: "keeps br ?b1" by (simp add: keeps_set)
  have 2: "keeps br (br_config_bpdu_generation jiffies ?b1)"
    using assms by (intro keeps_trans [OF 1 keeps_config_bpdu_generation]) (simp only: keepsD [OF 1])
  have "keeps (br_config_bpdu_generation jiffies ?b1)
    (for_each_port (\<lambda>p br. if dev_up (p_dev p) then br_stp_enable_port jiffies (port_no p) br else br)
      (br_config_bpdu_generation jiffies ?b1))"
  proof (rule keeps_for_each_port, goal_cases)
    case (1 b n p)
    then have "root_ok b" using assms by (simp only: keepsD [OF keeps_trans [OF 2 1(1)]])
    then show ?case by (simp add: keeps_stp_enable_port)
  qed
  from keeps_trans [OF 2 this] show ?thesis
    by (simp add: br_stp_enable_bridge_def Let_def keeps_set)
qed

lemma sound_stp_set_path_cost: "sound br (br_stp_set_path_cost jiffies n cost br)"
  unfolding br_stp_set_path_cost_def
  by (rule keeps_sound_trans [OF keeps_upd_port sound_update_and_select]) simp

lemma sound_message_age_timer_expired: "sound br (br_message_age_timer_expired jiffies n br)"
  unfolding br_message_age_timer_expired_def
  by (intro sound_reselect keeps_upd_port) (simp add: br_become_designated_port_def)

lemma sound_same:
  "sound b c \<Longrightarrow> port_nos b = port_nos a \<Longrightarrow> port_devs b = port_devs a \<Longrightarrow> oopsed b = oopsed a \<Longrightarrow> hash b = hash a \<Longrightarrow> mfd b = mfd a \<Longrightarrow> sound a c"
  by (simp add: sound_def)

lemma sound_stp_change_bridge_id: "sound br (br_stp_change_bridge_id jiffies a br)"
proof -
  let ?b1 = "br\<lparr>bridge_ident := set_id_addr a (bridge_ident br), br_dev := (br_dev br)\<lparr>dev_addr := a\<rparr>\<rparr>"
  have "sound ?b1 (br_stp_change_bridge_id jiffies a br)"
    unfolding br_stp_change_bridge_id_def Let_def
    by (intro sound_reselect keeps_for_each_port keeps_upd_port) simp
  then show ?thesis by (rule sound_same) (simp_all add: port_nos_def port_devs_def)
qed

lemma sound_stp_recalculate_bridge_id:
  "root_ok br \<Longrightarrow> sound br (br_stp_recalculate_bridge_id jiffies br)"
  by (simp add: br_stp_recalculate_bridge_id_def Let_def sound_stp_change_bridge_id sound_refl)

lemma sound_stp_set_bridge_priority: "sound br (br_stp_set_bridge_priority jiffies prio br)"
proof -
  let ?b1 = "for_each_port (\<lambda>p br.
                  if p_state p \<noteq> BR_STATE_DISABLED \<and> br_is_designated_port br p
                  then upd_port (port_no p) (\<lambda>p.
                         p\<lparr>p_designated_bridge := set_id_prio prio (p_designated_bridge p)\<rparr>) br
                  else br) br"
  let ?b2 = "?b1\<lparr>bridge_ident := set_id_prio prio (bridge_ident ?b1)\<rparr>"
  have 1: "keeps br ?b1"
    by (rule keeps_for_each_port) (simp add: keeps_upd_port)
  have "sound ?b2 (br_stp_set_bridge_priority jiffies prio br)"
    unfolding br_stp_set_bridge_priority_def Let_def by (rule sound_reselect [OF keeps_refl])
  then show ?thesis
    by (rule sound_same) (use 1 in \<open>simp_all add: keeps_def stp_key_def port_devs_def port_nos_def\<close>)
qed


lemma map_upd_at:
  "(\<And>x. x \<in> set xs \<Longrightarrow> k x = n \<Longrightarrow> g (f x) = g x) \<Longrightarrow> map g (map (\<lambda>x. if k x = n then f x else x) xs) = map g xs"
  by (induction xs) auto

lemma keeps_upd_port_at:
  assumes "\<And>p. p \<in> set (port_list br) \<Longrightarrow> port_no p = n \<Longrightarrow> port_no (f p) = n \<and> p_dev (f p) = p_dev p"
  shows "keeps br (upd_port n f br)"
  using map_upd_at [of "port_list br" port_no n port_no f] map_upd_at [of "port_list br" port_no n p_dev f] assms
  by (simp add: keeps_def stp_key_def upd_port_def port_nos_def port_devs_def)

lemma keeps_stp_set_port_priority:
  assumes "root_ok br" and "n \<in> set (port_nos br)" and "distinct (port_nos br)"
  shows "keeps br (br_stp_set_port_priority jiffies n prio br)"
  unfolding br_stp_set_port_priority_def
proof (rule keeps_deref [OF assms(2)], goal_cases)
  case (1 p)
  then have n: "port_no p = n" by (rule br_get_port_port_no)
  have "p' = p" if "p' \<in> set (port_list br)" "port_no p' = n" for p'
    using 1 find_key_in [of port_no "port_list br" p'] assms(3) that by (simp add: br_get_port_def port_nos_def)
  then have upd: "keeps br (upd_port n (\<lambda>_. q) br)" if "port_no q = n \<and> p_dev q = p_dev p" for q
    using that by (intro keeps_upd_port_at) simp
  have "keeps br (br_port_state_selection jiffies (upd_port n (\<lambda>_. q) br))" if "port_no q = n \<and> p_dev q = p_dev p" for q
    using upd [OF that] assms(1)
    by (intro keeps_trans [OF upd [OF that] keeps_port_state_selection]) (simp only: keepsD)
  with upd n show ?case by (simp add: Let_def br_become_designated_port_def)
qed

section \<open>Safety of the timers\<close>

lemma sound_deref:
  assumes "n \<in> set (port_nos br)" and "\<And>p. br_get_port br n = Some p \<Longrightarrow> sound br (f p br)"
  shows "sound br (deref n f br)"
  using assms(1) assms(2) [of "the (br_get_port br n)"] br_get_port_None_iff [of br n]
  by (cases "br_get_port br n") (simp_all add: deref_def)

lemma keeps_forward_delay_timer_expired:
  assumes "root_ok br" and "n \<in> set (port_nos br)"
  shows "keeps br (br_forward_delay_timer_expired jiffies n br)"
  unfolding br_forward_delay_timer_expired_def
proof (rule keeps_deref [OF assms(2)], goal_cases)
  case (1 p)
  let ?b = "upd_port n (\<lambda>p. p\<lparr>p_state := BR_STATE_FORWARDING\<rparr>) br"
  have k: "keeps br ?b" by (rule keeps_upd_port) simp
  then have "keeps br (br_topology_change_detection jiffies ?b)"
    using assms(1) by (intro keeps_trans [OF k keeps_topology_change_detection]) (simp only: keepsD)
  with k show ?case by (simp add: Let_def keeps_upd_port)
qed

lemma keeps_hold_timer_expired:
  assumes "root_ok br" and "n \<in> set (port_nos br)"
  shows "keeps br (br_hold_timer_expired jiffies n br)"
  unfolding br_hold_timer_expired_def
  by (rule keeps_deref [OF assms(2)]) (simp add: keeps_transmit_config [OF assms])

lemma sound_after_upd:
  assumes "\<And>p. port_no (f p) = port_no p \<and> p_dev (f p) = p_dev p" and "root_ok br" and "n \<in> set (port_nos br)"
    and "\<And>b. root_ok b \<Longrightarrow> n \<in> set (port_nos b) \<Longrightarrow> sound b (g b)"
  shows "sound br (g (upd_port n f br))"
  by (rule keeps_sound_trans [OF keeps_upd_port [of f, OF assms(1)] assms(4)])
     (use assms(2,3) keeps_upd_port [of f br n, OF assms(1)] in \<open>simp_all only: keepsD\<close>)


text \<open>The shape of a port timer: test it, clear it, run its handler.\<close>

lemma sound_timer:
  assumes "root_ok br" and "n \<in> set (port_nos br)" and "\<And>p. port_no (f p) = port_no p \<and> p_dev (f p) = p_dev p"
    and "\<And>b. root_ok b \<Longrightarrow> n \<in> set (port_nos b) \<Longrightarrow> sound b (g b)"
  shows "sound br (deref n (\<lambda>p br. if c p br then g (upd_port n f br) else br) br)"
proof (rule sound_deref [OF assms(2)])
  fix p
  show "sound br (if c p br then g (upd_port n f br) else br)"
    using sound_after_upd [OF assms(3,1,2), of g] assms(4) sound_refl [OF assms(1)] by simp
qed

lemma sound_check_port_timers:
  assumes "root_ok br" and "n \<in> set (port_nos br)"
  shows "sound br (br_check_port_timers jiffies n br)"
proof -
  let ?f1 = "\<lambda>p br. if br_timer_has_expired jiffies (message_age_timer p) (max_age br)
            then br_message_age_timer_expired jiffies n
                   (upd_port n (\<lambda>p. p\<lparr>message_age_timer := br_timer_clear (message_age_timer p)\<rparr>) br)
            else br"
  let ?f2 = "\<lambda>p br. if br_timer_has_expired jiffies (forward_delay_timer p) (forward_delay br)
            then br_forward_delay_timer_expired jiffies n
                   (upd_port n (\<lambda>p. p\<lparr>forward_delay_timer := br_timer_clear (forward_delay_timer p)\<rparr>) br)
            else br"
  let ?f3 = "\<lambda>p br. if br_timer_has_expired jiffies (hold_timer p) BR_HOLD_TIME
            then br_hold_timer_expired jiffies n
                   (upd_port n (\<lambda>p. p\<lparr>hold_timer := br_timer_clear (hold_timer p)\<rparr>) br)
            else br"
  have 1: "sound br (deref n ?f1 br)"
    using assms by (rule sound_timer) (simp_all add: sound_message_age_timer_expired)
  have ok1: "root_ok (deref n ?f1 br)" "n \<in> set (port_nos (deref n ?f1 br))"
    using soundD [OF 1] assms(2) by simp_all
  have 2: "sound br (deref n ?f2 (deref n ?f1 br))"
    by (rule sound_trans [OF 1], rule sound_timer [OF ok1])
       (simp_all add: sound_keeps keeps_forward_delay_timer_expired)
  have ok2: "root_ok (deref n ?f2 (deref n ?f1 br))" "n \<in> set (port_nos (deref n ?f2 (deref n ?f1 br)))"
    using soundD [OF 2] assms(2) by simp_all
  have "sound br (deref n ?f3 (deref n ?f2 (deref n ?f1 br)))"
    by (rule sound_trans [OF 2], rule sound_timer [OF ok2])
       (simp_all add: sound_keeps keeps_hold_timer_expired)
  then show ?thesis unfolding br_check_port_timers_def Let_def .
qed

text \<open>
  A tick is safe unless the timer of topology change notifications fires on the root bridge, which
  has no root port to send one to.
\<close>

definition tcn_safe :: "u32 \<Rightarrow> net_bridge \<Rightarrow> bool" where
  "tcn_safe jiffies br \<longleftrightarrow>
     \<not> (br_is_root_bridge br \<and> br_timer_has_expired jiffies (tcn_timer br) (bridge_hello_time br))"

text \<open>Fields of the bridge that a walk over the ports leaves alone.\<close>

lemma for_each_port_frame:
  assumes "\<And>b. F (fault b) = F b" and "\<And>b p. F (f p b) = F b"
  shows "F (for_each_port f br) = F br"
proof -
  have "F (fold (\<lambda>n. deref n f) ns b) = F b" for ns b
    by (induction ns arbitrary: b) (simp_all add: deref_def assms split: option.split)
  then show ?thesis by (simp add: for_each_port_def)
qed

lemma transmit_config_frame:
  "(tcn_timer (br_transmit_config jiffies n br), bridge_hello_time (br_transmit_config jiffies n br)) =
   (tcn_timer br, bridge_hello_time br)"
proof -
  have view: "tcn_timer (stp_view b) = tcn_timer b" "bridge_hello_time (stp_view b) = bridge_hello_time b" for b
    by (simp_all add: stp_view_def)
  have send: "tcn_timer (br_send_config_bpdu n bpdu br) = tcn_timer br"
      "bridge_hello_time (br_send_config_bpdu n bpdu br) = bridge_hello_time br" for bpdu
    using stp_view_send_bpdu [of n "config_bpdu_buf bpdu" br, THEN arg_cong, of tcn_timer]
      stp_view_send_bpdu [of n "config_bpdu_buf bpdu" br, THEN arg_cong, of bridge_hello_time]
    unfolding br_send_config_bpdu_def view .
  have upd: "tcn_timer (upd_port n f b) = tcn_timer b" "bridge_hello_time (upd_port n f b) = bridge_hello_time b"
    for f b by (simp_all add: upd_port_def)
  show ?thesis
    by (simp add: br_transmit_config_def deref_def fault_def upd send split: option.split)
qed

lemma config_bpdu_generation_frame:
  "(tcn_timer (br_config_bpdu_generation jiffies br), bridge_hello_time (br_config_bpdu_generation jiffies br)) =
   (tcn_timer br, bridge_hello_time br)"
  unfolding br_config_bpdu_generation_def
  by (rule for_each_port_frame [where F = "\<lambda>b. (tcn_timer b, bridge_hello_time b)"])
     (use transmit_config_frame in \<open>simp_all add: fault_def\<close>)

lemma root_ok_check_gc_timer: "root_ok (check_gc_timer jiffies br) \<longleftrightarrow> root_ok br"
  by (simp add: check_gc_timer_def root_ok_def br_fdb_cleanup_def Let_def sweep_all_def port_nos_def)

lemma tcn_safe_check_gc_timer: "tcn_safe jiffies (check_gc_timer jiffies br) \<longleftrightarrow> tcn_safe jiffies br"
  by (simp add: check_gc_timer_def tcn_safe_def br_fdb_cleanup_def Let_def sweep_all_def br_is_root_bridge_iff)

lemma keeps_check_hello_timer:
  assumes "root_ok br"
  shows "keeps br (check_hello_timer jiffies br)"
proof -
  have k: "keeps br (br\<lparr>hello_timer := t\<rparr>)" for t by simp
  have "keeps br (br_config_bpdu_generation jiffies (br\<lparr>hello_timer := t\<rparr>))" for t
    using assms by (intro keeps_trans [OF k keeps_config_bpdu_generation]) (simp only: keepsD [OF k])
  then show ?thesis by (simp add: check_hello_timer_def br_hello_timer_expired_def Let_def keeps_set)
qed

lemma tcn_safe_check_hello_timer:
  assumes "root_ok br"
  shows "tcn_safe jiffies (check_hello_timer jiffies br) \<longleftrightarrow> tcn_safe jiffies br"
proof -
  have "tcn_timer (check_hello_timer jiffies br) = tcn_timer br"
    "bridge_hello_time (check_hello_timer jiffies br) = bridge_hello_time br"
    using config_bpdu_generation_frame
    by (simp_all add: check_hello_timer_def br_hello_timer_expired_def Let_def)
  then show ?thesis
    by (simp add: tcn_safe_def keepsD [OF keeps_check_hello_timer [OF assms]])
qed

lemma keeps_check_tcn_timer:
  assumes "root_ok br" and "tcn_safe jiffies br"
  shows "keeps br (check_tcn_timer jiffies br)"
proof (cases "br_timer_has_expired jiffies (tcn_timer br) (bridge_hello_time br)")
  case True
  have k: "keeps br (br\<lparr>tcn_timer := t\<rparr>)" for t by simp
  have "\<not> br_is_root_bridge br" using True assms(2) by (simp add: tcn_safe_def)
  then have "keeps br (br_transmit_tcn (br\<lparr>tcn_timer := t\<rparr>))" for t
    using assms(1) by (intro keeps_trans [OF k keeps_transmit_tcn]) (simp_all only: keepsD [OF k] not_False_eq_True)
  with True show ?thesis
    by (simp add: check_tcn_timer_def br_tcn_timer_expired_def Let_def keeps_set)
qed (simp add: check_tcn_timer_def)

lemma keeps_check_topology_change_timer: "keeps br (check_topology_change_timer jiffies br)"
  by (simp add: check_topology_change_timer_def br_topology_change_timer_expired_def keeps_set)

lemma sound_check_timers:
  assumes "root_ok br" and "tcn_safe jiffies br"
  shows "sound (check_gc_timer jiffies br) (br_check_timers jiffies br)"
proof -
  define b1 where "b1 = check_gc_timer jiffies br"
  define b2 where "b2 = check_hello_timer jiffies b1"
  define b3 where "b3 = check_tcn_timer jiffies b2"
  define b4 where "b4 = check_topology_change_timer jiffies b3"
  have ok1: "root_ok b1" using assms(1) by (simp add: b1_def root_ok_check_gc_timer)
  have 2: "keeps b1 b2" unfolding b2_def by (rule keeps_check_hello_timer [OF ok1])
  have safe: "tcn_safe jiffies b2"
    using assms(2) tcn_safe_check_hello_timer [OF ok1] by (simp add: b1_def b2_def tcn_safe_check_gc_timer)
  have "keeps b2 b3" unfolding b3_def
    by (rule keeps_check_tcn_timer [OF _ safe]) (use ok1 2 in \<open>simp add: keepsD\<close>)
  moreover have "keeps b3 b4" unfolding b4_def by (rule keeps_check_topology_change_timer)
  ultimately have 4: "keeps b1 b4" using 2 by (blast intro: keeps_trans)
  then have ok4: "root_ok b4" using ok1 by (simp add: keepsD)
  have "sound b4 (for_each_port (\<lambda>p br. if p_state p \<noteq> BR_STATE_DISABLED
      then br_check_port_timers jiffies (port_no p) br else br) b4)"
  proof (rule sound_for_each_port [OF ok4], goal_cases)
    case (1 b n p)
    then have "root_ok b" "port_no p = n" "n \<in> set (port_nos b)" by (simp_all add: soundD br_get_port_port_no)
    then show ?case by (simp add: sound_check_port_timers sound_refl)
  qed
  from keeps_sound_trans [OF 4 this] show ?thesis
    by (simp add: br_check_timers_def b1_def b2_def b3_def b4_def)
qed

lemma hash_fdb_cleanup_cong:
  "hash a = hash b \<Longrightarrow> fdb_timeout jiffies a = fdb_timeout jiffies b \<Longrightarrow>
     hash (br_fdb_cleanup jiffies a) = hash (br_fdb_cleanup jiffies b)"
  by (simp add: br_fdb_cleanup_def sweep_all_def Let_def cong: if_cong)

lemma sound_stp_disable_bridge:
  assumes "root_ok br"
  shows "sound (br_fdb_cleanup jiffies (br\<lparr>topology_change := False\<rparr>)) (br_stp_disable_bridge jiffies br)"
proof -
  let ?b1 = "br\<lparr>topology_change := False, topology_change_detected := False,
                   hello_timer := br_timer_clear (hello_timer br),
                   topology_change_timer := br_timer_clear (topology_change_timer br),
                   tcn_timer := br_timer_clear (tcn_timer br),
                   gc_timer := br_timer_clear (gc_timer br)\<rparr>"
  define b2 where "b2 = br_fdb_cleanup jiffies ?b1"
  have ok: "root_ok b2" using assms
    by (simp add: b2_def root_ok_def br_fdb_cleanup_def Let_def sweep_all_def port_nos_def)
  define b3 where "b3 = for_each_port (\<lambda>p br. if p_state p \<noteq> BR_STATE_DISABLED
      then br_stp_disable_port jiffies (port_no p) br else br) b2"
  have 3: "sound b2 b3" unfolding b3_def
    by (rule sound_for_each_port [OF ok]) (simp add: sound_stp_disable_port sound_refl soundD)
  have "sound b2 (b3\<lparr>tick := None\<rparr>)"
    by (rule sound_keeps_trans [OF 3]) simp
  then have "sound b2 (br_stp_disable_bridge jiffies br)"
    by (simp only: br_stp_disable_bridge_def Let_def b3_def b2_def)
  moreover have "hash b2 = hash (br_fdb_cleanup jiffies (br\<lparr>topology_change := False\<rparr>))"
    unfolding b2_def by (rule hash_fdb_cleanup_cong) (simp_all add: fdb_timeout_def)
  ultimately show ?thesis
    by (elim sound_same) (simp_all add: b2_def br_fdb_cleanup_def Let_def sweep_all_def port_nos_def port_devs_def)
qed
end
