(* ===== verification/Br_Filter.thy ===== *)
theory Br_Filter
  imports Br_Fdb
begin

text \<open>
  The MAC filter of the bridge (br_filter.c): a list of entries, each with the set of criteria it
  tests as a bit mask, searched for the first entry a frame matches. The processor is
  little-endian, so \<^verbatim>\<open>htons\<close> swaps the bytes; the lock of the list is a counter, so that a path that
  forgets to release it shows.
\<close>

section \<open>Entries\<close>

definition htons :: "u16 \<Rightarrow> u16" where
  "htons x = push_bit 8 x OR drop_bit 8 x"

definition MATCH_PROTO :: u8 where "MATCH_PROTO = 1"
definition MATCH_SRC_MAC :: u8 where "MATCH_SRC_MAC = push_bit 1 1"
definition MATCH_DST_MAC :: u8 where "MATCH_DST_MAC = push_bit 2 1"
definition MATCH_SPORT :: u8 where "MATCH_SPORT = push_bit 3 1"
definition MATCH_DPORT :: u8 where "MATCH_DPORT = push_bit 4 1"

text \<open>\<^verbatim>\<open>struct __br_filter_entry\<close>, what a caller hands in and gets back.\<close>

record br_filter_entry =
  fe_sport :: string
  fe_dport :: string
  fe_src_mac_addr :: mac
  fe_dst_mac_addr :: mac
  fe_proto :: u16
  fe_access_type :: u8
  fe_frames_matched :: u32

definition write_lock_filter :: "net_bridge \<Rightarrow> net_bridge" where
  "write_lock_filter br = br\<lparr>filter_lock := filter_lock br + 1\<rparr>"

definition write_unlock_filter :: "net_bridge \<Rightarrow> net_bridge" where
  "write_unlock_filter br = br\<lparr>filter_lock := filter_lock br - 1\<rparr>"

definition record_match :: "bridge_fw_db_entry \<Rightarrow> u8" where
  "record_match e =
     (if \<exists>b\<in>set (mac_bytes (dst_mac_addr e)). b \<noteq> 0 then MATCH_DST_MAC else 0)
     OR (if \<exists>b\<in>set (mac_bytes (src_mac_addr e)). b \<noteq> 0 then MATCH_SRC_MAC else 0)
     OR (if eth_proto e \<noteq> 0 then MATCH_PROTO else 0)
     OR (if strcmp (sport e) ''0'' \<noteq> 0 then MATCH_SPORT else 0)
     OR (if strcmp (dport e) ''0'' \<noteq> 0 then MATCH_DPORT else 0)"

definition new_filter_entry :: "br_filter_entry \<Rightarrow> bridge_fw_db_entry" where
  "new_filter_entry inp =
     (let e = \<lparr>sport = fe_sport inp, dport = fe_dport inp, src_mac_addr = fe_src_mac_addr inp,
               dst_mac_addr = fe_dst_mac_addr inp, eth_proto = htons (fe_proto inp),
               access_type = fe_access_type inp, match_check = 0, frames_matched = 0\<rparr>
      in e\<lparr>match_check := record_match e\<rparr>)"

section \<open>Configuration\<close>

text \<open>
  The caller's structure is \<open>None\<close> when its address is bad. The result is the return value of the
  call and the bridge after it.
\<close>

definition br_add_filter_entry :: "br_filter_entry option \<Rightarrow> net_bridge \<Rightarrow> int \<times> net_bridge" where
  "br_add_filter_entry entry br =
     (let br = write_lock_filter br;
          (ok, br) = alloc br
      in if \<not> ok then (-1, write_unlock_filter br)
         else
           (let br = write_unlock_filter br
            in case entry of
                 None \<Rightarrow> (-1, br)
               | Some filter_input \<Rightarrow>
                   (let br = write_lock_filter br;
                        (ok, br) = alloc br
                    in if \<not> ok then (-1, write_unlock_filter br)
                       else
                         (let br = write_unlock_filter br
                          in (0, br\<lparr>blacklist := blacklist br @ [new_filter_entry filter_input]\<rparr>)))))"

text \<open>Addresses are compared by their bytes 0 and 4 only.\<close>

definition mac_match :: "mac \<Rightarrow> mac \<Rightarrow> bool" where
  "mac_match a b \<longleftrightarrow>
     mac_bytes a ! 0 = mac_bytes b ! 0 \<and>
     (ucast (mac_bytes a ! 4) :: s32) AND 0x0000ffff = ucast (mac_bytes b ! 4) AND 0x0000ffff"

definition del_match :: "br_filter_entry \<Rightarrow> bridge_fw_db_entry \<Rightarrow> bool" where
  "del_match filter_input e \<longleftrightarrow>
     htons (eth_proto e) = fe_proto filter_input \<and>
     strcmp (dport e) (fe_dport filter_input) = 0 \<and>
     strcmp (sport e) (fe_sport filter_input) = 0 \<and>
     mac_match (src_mac_addr e) (fe_src_mac_addr filter_input) \<and>
     mac_match (dst_mac_addr e) (fe_dst_mac_addr filter_input)"

text \<open>The search stops at the first match, unlinks it and leaves with the lock held.\<close>

definition br_del_filter_entry :: "br_filter_entry option \<Rightarrow> net_bridge \<Rightarrow> int \<times> net_bridge" where
  "br_del_filter_entry entry br =
     (let filter_status = br_filter_active br;
          br = write_lock_filter (br\<lparr>br_filter_active := False\<rparr>);
          (ok, br) = alloc br
      in if \<not> ok then (-1, write_unlock_filter br)
         else
           (let br = write_unlock_filter br
            in case entry of
                 None \<Rightarrow> (-1, br)
               | Some filter_input \<Rightarrow>
                   (let br = (case List.extract (del_match filter_input) (blacklist br) of
                                None \<Rightarrow> br
                              | Some (previous, current, next) \<Rightarrow>
                                  (write_lock_filter br)\<lparr>blacklist := previous @ next\<rparr>)
                    in (0, br\<lparr>br_filter_active := filter_status\<rparr>))))"

definition br_flush_filter :: "net_bridge \<Rightarrow> int \<times> net_bridge" where
  "br_flush_filter br =
     (let filter_status = br_filter_active br;
          br = br\<lparr>br_filter_active := False\<rparr>
      in if blacklist br = [] then (0, br)
         else
           (let br = write_unlock_filter ((write_lock_filter br)\<lparr>blacklist := []\<rparr>)
            in (0, br\<lparr>br_filter_active := filter_status\<rparr>)))"

definition show_filter_entry :: "bridge_fw_db_entry \<Rightarrow> br_filter_entry" where
  "show_filter_entry e =
     \<lparr>fe_sport = sport e, fe_dport = dport e, fe_src_mac_addr = src_mac_addr e,
      fe_dst_mac_addr = dst_mac_addr e, fe_proto = eth_proto e, fe_access_type = access_type e,
      fe_frames_matched = frames_matched e\<rparr>"

text \<open>The records copied to the caller, the return value and the bridge.\<close>

fun show_walk ::
    "bridge_fw_db_entry list \<Rightarrow> int \<Rightarrow> br_filter_entry list \<Rightarrow> net_bridge
       \<Rightarrow> br_filter_entry list \<times> int \<times> net_bridge" where
  "show_walk [] maxnum walk br = (walk, int (length walk), br)"
| "show_walk (e # es) maxnum walk br =
     (if \<not> int (length walk) < maxnum then (walk, int (length walk), br)
      else
        (let (ok, br) = alloc (write_lock_filter br)
         in if \<not> ok then (walk, -1, write_unlock_filter br)
            else show_walk es maxnum (walk @ [show_filter_entry e]) (write_unlock_filter br)))"

definition br_show_filter_entries :: "int \<Rightarrow> net_bridge \<Rightarrow> br_filter_entry list \<times> int \<times> net_bridge" where
  "br_show_filter_entries maxnum br = show_walk (blacklist br) maxnum [] br"

section \<open>Frames\<close>

text \<open>
  What the filter looks at: the addresses and the type of the frame and the name of the outgoing
  device.
\<close>

record filter_frame =
  fr_dest :: mac
  fr_source :: mac
  fr_proto :: u16
  fr_dname :: string

text \<open>
  The switch of \<^verbatim>\<open>br_filter_frame\<close>, case by case in the order of the code. The cases 8 to 15 read the
  name of the device the source address was learnt on.
\<close>

definition match_sport_cases :: "filter_frame \<Rightarrow> string \<Rightarrow> bridge_fw_db_entry \<Rightarrow> bool" where
  "match_sport_cases fr sname e =
     (if match_check e = 8 then strcmp (sport e) sname = 0
      else if match_check e = 9 then strcmp (sport e) sname = 0 \<and> eth_proto e = fr_proto fr
      else if match_check e = 10 then strcmp (sport e) sname = 0 \<and> mac_match (src_mac_addr e) (fr_source fr)
      else if match_check e = 11 then strcmp (sport e) sname = 0 \<and> mac_match (src_mac_addr e) (fr_source fr) \<and> eth_proto e = fr_proto fr
      else if match_check e = 12 then strcmp (sport e) sname = 0 \<and> mac_match (dst_mac_addr e) (fr_dest fr)
      else if match_check e = 13 then strcmp (sport e) sname = 0 \<and> eth_proto e = fr_proto fr \<and> mac_match (dst_mac_addr e) (fr_dest fr)
      else if match_check e = 14 then strcmp (sport e) sname = 0 \<and> mac_match (src_mac_addr e) (fr_source fr) \<and> mac_match (dst_mac_addr e) (fr_dest fr)
      else if match_check e = 15 then strcmp (sport e) sname = 0 \<and> eth_proto e = fr_proto fr \<and> mac_match (src_mac_addr e) (fr_source fr) \<and> mac_match (dst_mac_addr e) (fr_dest fr)
      else False)"

definition match_dport_cases :: "filter_frame \<Rightarrow> bridge_fw_db_entry \<Rightarrow> bool" where
  "match_dport_cases fr e =
     (if match_check e = 16 then strcmp (dport e) (fr_dname fr) = 0
      else if match_check e = 17 then strcmp (dport e) (fr_dname fr) = 0 \<and> eth_proto e = fr_proto fr
      else if match_check e = 18 then strcmp (dport e) (fr_dname fr) = 0 \<and> mac_match (src_mac_addr e) (fr_source fr)
      else if match_check e = 19 then strcmp (dport e) (fr_dname fr) = 0 \<and> mac_match (src_mac_addr e) (fr_source fr) \<and> eth_proto e = fr_proto fr
      else if match_check e = 20 then strcmp (dport e) (fr_dname fr) = 0 \<and> mac_match (dst_mac_addr e) (fr_dest fr)
      else if match_check e = 21 then strcmp (dport e) (fr_dname fr) = 0 \<and> eth_proto e = fr_proto fr \<and> mac_match (dst_mac_addr e) (fr_dest fr)
      else if match_check e = 22 then strcmp (dport e) (fr_dname fr) = 0 \<and> mac_match (src_mac_addr e) (fr_source fr) \<and> mac_match (dst_mac_addr e) (fr_dest fr)
      else if match_check e = 23 then strcmp (dport e) (fr_dname fr) = 0 \<and> eth_proto e = fr_proto fr \<and> mac_match (src_mac_addr e) (fr_source fr) \<and> mac_match (dst_mac_addr e) (fr_dest fr)
      else False)"

definition match_both_ports_cases :: "filter_frame \<Rightarrow> bridge_fw_db_entry \<Rightarrow> bool" where
  "match_both_ports_cases fr e =
     (if match_check e = 24 then strcmp (dport e) (fr_dname fr) = 0 \<and> strcmp (dport e) (fr_dname fr) = 0
      else if match_check e = 25 then strcmp (dport e) (fr_dname fr) = 0 \<and> strcmp (dport e) (fr_dname fr) = 0 \<and> eth_proto e = fr_proto fr
      else if match_check e = 26 then strcmp (dport e) (fr_dname fr) = 0 \<and> strcmp (dport e) (fr_dname fr) = 0 \<and> mac_match (src_mac_addr e) (fr_source fr)
      else if match_check e = 27 then strcmp (dport e) (fr_dname fr) = 0 \<and> strcmp (dport e) (fr_dname fr) = 0 \<and> mac_match (src_mac_addr e) (fr_source fr) \<and> eth_proto e = fr_proto fr
      else if match_check e = 28 then strcmp (dport e) (fr_dname fr) = 0 \<and> strcmp (dport e) (fr_dname fr) = 0 \<and> mac_match (dst_mac_addr e) (fr_dest fr)
      else if match_check e = 29 then strcmp (dport e) (fr_dname fr) = 0 \<and> strcmp (dport e) (fr_dname fr) = 0 \<and> eth_proto e = fr_proto fr \<and> mac_match (dst_mac_addr e) (fr_dest fr)
      else if match_check e = 30 then strcmp (dport e) (fr_dname fr) = 0 \<and> strcmp (dport e) (fr_dname fr) = 0 \<and> mac_match (src_mac_addr e) (fr_source fr) \<and> mac_match (dst_mac_addr e) (fr_dest fr)
      else if match_check e = 31 then strcmp (dport e) (fr_dname fr) = 0 \<and> strcmp (dport e) (fr_dname fr) = 0 \<and> eth_proto e = fr_proto fr \<and> mac_match (src_mac_addr e) (fr_source fr) \<and> mac_match (dst_mac_addr e) (fr_dest fr)
      else False)"

definition match_address_cases :: "filter_frame \<Rightarrow> bridge_fw_db_entry \<Rightarrow> bool" where
  "match_address_cases fr e =
     (if match_check e = 0 then access_type e = 0 \<or> access_type e = 1
      else if match_check e = 1 then eth_proto e = fr_proto fr
      else if match_check e = 2 then mac_match (src_mac_addr e) (fr_source fr)
      else if match_check e = 3 then eth_proto e = fr_proto fr \<and> mac_match (src_mac_addr e) (fr_source fr)
      else if match_check e = 4 then mac_match (dst_mac_addr e) (fr_dest fr)
      else if match_check e = 5 then eth_proto e = fr_proto fr \<and> mac_match (dst_mac_addr e) (fr_dest fr)
      else if match_check e = 6 then mac_match (src_mac_addr e) (fr_source fr) \<and> mac_match (dst_mac_addr e) (fr_dest fr)
      else if match_check e = 7 then eth_proto e = fr_proto fr \<and> mac_match (src_mac_addr e) (fr_source fr) \<and> mac_match (dst_mac_addr e) (fr_dest fr)
      else False)"

text \<open>\<open>None\<close>: the source address is known without a port, and its device is read.\<close>

definition filter_match :: "filter_frame \<Rightarrow> string option \<Rightarrow> bridge_fw_db_entry \<Rightarrow> bool option" where
  "filter_match fr sname e =
     (if 8 \<le> match_check e \<and> match_check e \<le> 15
      then map_option (\<lambda>sname. match_sport_cases fr sname e) sname
      else Some (if 16 \<le> match_check e \<and> match_check e \<le> 23 then match_dport_cases fr e
                 else if 24 \<le> match_check e \<and> match_check e \<le> 31 then match_both_ports_cases fr e
                 else match_address_cases fr e))"

datatype verdict = Pass | Drop | Bad_pointer

fun filter_walk ::
    "filter_frame \<Rightarrow> string option \<Rightarrow> bridge_fw_db_entry list \<Rightarrow> bridge_fw_db_entry list \<times> verdict" where
  "filter_walk fr sname [] = ([], Pass)"
| "filter_walk fr sname (e # es) =
     (case filter_match fr sname e of
        None \<Rightarrow> (e # es, Bad_pointer)
      | Some True \<Rightarrow> (e\<lparr>frames_matched := frames_matched e + 1\<rparr> # es,
                       if access_type e = 1 then Pass else Drop)
      | Some False \<Rightarrow> (let (es, v) = filter_walk fr sname es in (e # es, v)))"

text \<open>
  A frame on its way out of port \<open>n\<close>. A frame whose source is not in the forwarding database passes.
  The result is true when the frame is to be dropped.
\<close>

definition br_filter_frame :: "u32 \<Rightarrow> nat \<Rightarrow> mac \<Rightarrow> mac \<Rightarrow> u16 \<Rightarrow> net_bridge \<Rightarrow> bool \<times> net_bridge" where
  "br_filter_frame jiffies n dest source proto br =
     (case br_get_port br n of
        None \<Rightarrow> (False, fault br)
      | Some p \<Rightarrow>
          (case br_fdb_get jiffies source br of
             (None, br) \<Rightarrow> (False, br)
           | (Some dst, br) \<Rightarrow>
               (let br = fdb_put_linked source br
                in if \<not> br_filter_active br then (False, br)
                   else
                     (let fr = \<lparr>fr_dest = dest, fr_source = source, fr_proto = proto,
                                fr_dname = dev_name (p_dev p)\<rparr>;
                          sname = (case fdb_dst dst of
                                     None \<Rightarrow> None
                                   | Some m \<Rightarrow> map_option (\<lambda>q. dev_name (p_dev q)) (br_get_port br m));
                          (es, v) = filter_walk fr sname (blacklist br);
                          br = br\<lparr>blacklist := es\<rparr>
                      in case v of Pass \<Rightarrow> (False, br) | Drop \<Rightarrow> (True, br)
                         | Bad_pointer \<Rightarrow> (False, fault br)))))"

section \<open>The switch against the mask\<close>

text \<open>
  What the mask means: each bit adds a criterion. An entry without criteria applies to every frame
  when its access type is 0 or 1.
\<close>

definition meets_criteria :: "filter_frame \<Rightarrow> string \<Rightarrow> bridge_fw_db_entry \<Rightarrow> bool" where
  "meets_criteria fr sname e \<longleftrightarrow>
     (bit (match_check e) 0 \<longrightarrow> eth_proto e = fr_proto fr) \<and>
     (bit (match_check e) 1 \<longrightarrow> mac_match (src_mac_addr e) (fr_source fr)) \<and>
     (bit (match_check e) 2 \<longrightarrow> mac_match (dst_mac_addr e) (fr_dest fr)) \<and>
     (bit (match_check e) 3 \<longrightarrow> strcmp (sport e) sname = 0) \<and>
     (bit (match_check e) 4 \<longrightarrow> strcmp (dport e) (fr_dname fr) = 0)"

lemma u8_below_32:
  assumes "(m :: u8) < 32"
  shows "m \<in> {0, 1, 2, 3, 4, 5, 6, 7, 8, 9, 10, 11, 12, 13, 14, 15, 16, 17, 18, 19, 20, 21, 22, 23,
    24, 25, 26, 27, 28, 29, 30, 31}"
proof -
  have "unat m < 32" using assms by (simp add: word_less_nat_alt)
  then have "unat m \<in> set [0..<32]" by simp
  then have "of_nat (unat m) \<in> (of_nat ` set [0..<32] :: u8 set)" by (rule imageI)
  then have "m \<in> of_nat ` set [0..<32]" by simp
  then show ?thesis by (simp add: upt_rec)
qed

text \<open>The name of the source device counts only where the name of the outgoing device does not.\<close>

lemma u8_not_le_1: "\<not> (8 :: u8) \<le> 1" "\<not> (16 :: u8) \<le> 1" "\<not> (24 :: u8) \<le> 1"
  by (simp_all add: word_le_nat_alt)

lemma filter_match_mask:
  assumes "match_check e < 32"
  shows "filter_match fr (Some sname) e =
    Some (if match_check e = 0 then access_type e = 0 \<or> access_type e = 1
          else meets_criteria fr (if bit (match_check e) 4 then sport e else sname) e)"
  using u8_below_32 [OF assms]
  by (elim insertE) (simp_all add: filter_match_def match_sport_cases_def match_dport_cases_def
      match_both_ports_cases_def match_address_cases_def meets_criteria_def bit_simps conj_ac
      u8_not_le_1)

lemma record_match_less: "record_match e < 32"
proof -
  have low: "take_bit 5 x = x \<longleftrightarrow> x < 32" for x :: u8
    by (simp add: word_unat_eq_iff unsigned_take_bit_eq take_bit_nat_eq_self_iff word_less_nat_alt)
  have *: "x OR y < 32" if "x < 32" "y < 32" for x y :: u8
    using that by (simp flip: low)
  show ?thesis
    unfolding record_match_def MATCH_PROTO_def MATCH_SRC_MAC_def MATCH_DST_MAC_def MATCH_SPORT_def
      MATCH_DPORT_def
    by (intro *) simp_all
qed

section \<open>First match\<close>

lemma filter_walk_find:
  assumes "\<And>e. e \<in> set es \<Longrightarrow> filter_match fr sname e \<noteq> None"
  shows "snd (filter_walk fr sname es) =
    (case find (\<lambda>e. filter_match fr sname e = Some True) es of
       None \<Rightarrow> Pass | Some e \<Rightarrow> if access_type e = 1 then Pass else Drop)"
  using assms
  by (induction es) (auto simp: case_prod_beta Let_def split: option.splits bool.splits)

text \<open>The counter of the deciding entry goes up by one, and nothing else of the list changes.\<close>

lemma filter_walk_counts:
  assumes "\<And>e. e \<in> set es \<Longrightarrow> filter_match fr sname e \<noteq> None"
  shows "fst (filter_walk fr sname es) =
    (case upd_first (\<lambda>e. filter_match fr sname e = Some True)
            (\<lambda>e. e\<lparr>frames_matched := frames_matched e + 1\<rparr>) es of
       None \<Rightarrow> es | Some es' \<Rightarrow> es')"
  using assms
proof (induction es)
  case (Cons e es)
  then have IH: "fst (filter_walk fr sname es) =
    (case upd_first (\<lambda>e. filter_match fr sname e = Some True)
            (\<lambda>e. e\<lparr>frames_matched := frames_matched e + 1\<rparr>) es of
       None \<Rightarrow> es | Some es' \<Rightarrow> es')" by simp
  have "filter_match fr sname e \<noteq> None" using Cons.prems by simp
  then consider "filter_match fr sname e = Some True" | "filter_match fr sname e = Some False"
    by (cases "filter_match fr sname e") auto
  then show ?case
    by cases (simp_all add: case_prod_beta Let_def IH split: option.split)
qed simp

end
