(* ===== verification/Br_Proc.thy ===== *)
theory Br_Proc
  imports Br_Filter
begin

text \<open>
  The two tables of br.c that the data path consults and that are filled through /proc: the VPN
  triggers, which swallow a packet that has to wait for a tunnel, and the per-device source address
  filters. They are global to the module and shared by all bridges.
\<close>

section \<open>Packet buffers\<close>

text \<open>
  What the bridge uses of \<^verbatim>\<open>struct sk_buff\<close>: a number that names the buffer, the device it is on (by
  interface index), the bytes from \<^verbatim>\<open>skb->data\<close> on, the protocol and the network header's source
  address as the driver or the stack left them.
\<close>

record sk_buff =
  skb_id :: nat
  skb_dev :: nat
  skb_data :: "u8 list"
  skb_protocol :: u16
  nh_saddr :: u32

definition skb_len :: "sk_buff \<Rightarrow> u32" where
  "skb_len skb = of_nat (length (skb_data skb))"

definition mac_at :: "u8 list \<Rightarrow> nat \<Rightarrow> mac" where
  "mac_at d i = MAC (d ! i) (d ! (i + 1)) (d ! (i + 2)) (d ! (i + 3)) (d ! (i + 4)) (d ! (i + 5))"

text \<open>The header of a frame; the type field is read as a halfword in memory order.\<close>

definition h_dest :: "u8 list \<Rightarrow> mac" where
  "h_dest d = mac_at d 0"

definition h_source :: "u8 list \<Rightarrow> mac" where
  "h_source d = mac_at d 6"

definition h_proto :: "u8 list \<Rightarrow> u16" where
  "h_proto d = halfword (d ! 12) (d ! 13)"

definition ETH_P_IP :: u16 where "ETH_P_IP = 0x0800"
definition ETH_P_802_3 :: u16 where "ETH_P_802_3 = 0x0001"
definition ETH_P_802_2 :: u16 where "ETH_P_802_2 = 0x0004"

text \<open>
  \<^verbatim>\<open>eth_type_trans\<close> (net/ethernet/eth.c): pull the header and return the protocol. The packet type it
  also sets is not used by the bridge.
\<close>

definition eth_type_trans :: "sk_buff \<Rightarrow> u16 \<times> sk_buff" where
  "eth_type_trans skb =
     (let eth = skb_data skb;
          skb = skb\<lparr>skb_data := drop 14 eth\<rparr>
      in (if htons (h_proto eth) \<ge> 1536 then h_proto eth
          else if halfword (skb_data skb ! 0) (skb_data skb ! 1) = 0xFFFF then htons ETH_P_802_3
          else htons ETH_P_802_2, skb))"

section \<open>Triggers\<close>

record vpn_trigger =
  vt_on :: u8
  vt_ss :: u32
  vt_se :: u32
  vt_ds :: u32
  vt_de :: u32
  vt_name :: string

record br_filter =
  bf_dev_name :: string
  bf_saddr :: u32
  bf_dev :: "nat option"

text \<open>\<open>g_oops\<close> is set by an access outside the table of triggers.\<close>

record br_globals =
  vpn_triggers :: "vpn_trigger list"
  vpn_total_triggers :: nat
  vpn_read_sema :: int
  my_br_ifa_address :: u32
  br_filter_root :: "br_filter list"
  g_oops :: bool

definition MAX_VPN_POLICY :: nat where
  "MAX_VPN_POLICY = 8"

definition set_br_ifa_address :: "u32 \<Rightarrow> br_globals \<Rightarrow> br_globals" where
  "set_br_ifa_address addr g = g\<lparr>my_br_ifa_address := addr\<rparr>"

text \<open>Four bytes from offset \<open>i\<close>, most significant first.\<close>

definition be32_at :: "u8 list \<Rightarrow> nat \<Rightarrow> u32" where
  "be32_at d i = push_bit 24 (ucast (d ! i)) OR push_bit 16 (ucast (d ! (i + 1)))
     OR push_bit 8 (ucast (d ! (i + 2))) OR ucast (d ! (i + 3))"

definition trigger_covers :: "u32 \<Rightarrow> u32 \<Rightarrow> vpn_trigger \<Rightarrow> bool" where
  "trigger_covers saddr daddr t \<longleftrightarrow>
     vt_on t \<noteq> 0 \<and> saddr \<le> vt_se t \<and> saddr \<ge> vt_ss t \<and> daddr \<le> vt_de t \<and> daddr \<ge> vt_ds t"

text \<open>
  The loop over the triggers: a covering trigger that is armed (1) fires, wakes the reader and
  swallows the packet; one that has fired (2) swallows it; any other value is passed over.
\<close>

fun trigger_walk :: "u32 \<Rightarrow> u32 \<Rightarrow> vpn_trigger list \<Rightarrow> vpn_trigger list \<times> bool \<times> bool" where
  "trigger_walk saddr daddr [] = ([], False, False)"
| "trigger_walk saddr daddr (t # ts) =
     (if trigger_covers saddr daddr t \<and> vt_on t = 1 then (t\<lparr>vt_on := 2\<rparr> # ts, True, True)
      else if trigger_covers saddr daddr t \<and> vt_on t = 2 then (t # ts, False, True)
      else (let (ts, up, hit) = trigger_walk saddr daddr ts in (t # ts, up, hit)))"

definition br_trigger_hook :: "sk_buff \<Rightarrow> br_globals \<Rightarrow> bool \<times> br_globals" where
  "br_trigger_hook skb g =
     (let daddr = be32_at (skb_data skb) 16;
          saddr = be32_at (skb_data skb) 12
      in if daddr = my_br_ifa_address g then (False, g)
         else
           (let n = vpn_total_triggers g;
                (ts, up, hit) = trigger_walk saddr daddr (take n (vpn_triggers g))
            in (hit, g\<lparr>vpn_triggers := ts @ drop n (vpn_triggers g),
                       vpn_read_sema := vpn_read_sema g + (if up then 1 else 0)\<rparr>)))"

section \<open>Source address filters\<close>

text \<open>The first entry of the device decides; it remembers the device it was matched with by name.\<close>

fun filter_pass_walk :: "net_device \<Rightarrow> u32 \<Rightarrow> br_filter list \<Rightarrow> br_filter list \<times> bool" where
  "filter_pass_walk dev saddr [] = ([], True)"
| "filter_pass_walk dev saddr (fp # fps) =
     (if bf_dev fp = Some (ifindex dev) \<or> strcmp (dev_name dev) (bf_dev_name fp) = 0
      then (fp\<lparr>bf_dev := Some (ifindex dev)\<rparr> # fps, bf_saddr fp = saddr)
      else (let (fps, r) = filter_pass_walk dev saddr fps in (fp # fps, r)))"

definition br_filter_pass :: "net_bridge_port \<Rightarrow> sk_buff \<Rightarrow> br_globals \<Rightarrow> bool \<times> br_globals" where
  "br_filter_pass p skb g =
     (if br_filter_root g = [] \<or> skb_protocol skb \<noteq> htons ETH_P_IP then (True, g)
      else
        (let (fps, r) = filter_pass_walk (p_dev p) (nh_saddr skb) (br_filter_root g)
         in (r, g\<lparr>br_filter_root := fps\<rparr>)))"

section \<open>Writing the tables\<close>

text \<open>
  What the writers use of \<^verbatim>\<open>vsscanf\<close> (lib/vsprintf.c): literal characters, white space, \<^verbatim>\<open>%u\<close> and \<^verbatim>\<open>%s\<close>.
  The result lists the conversions made; a conversion that fails ends the scan.
\<close>

datatype directive = Lit char | White | Conv_u | Conv_s

datatype conversion = Number u32 | Text string

definition isspace :: "char \<Rightarrow> bool" where
  "isspace c \<longleftrightarrow> of_char c \<in> {9, 10, 11, 12, 13, 32, 160 :: nat}"

definition isdigit :: "char \<Rightarrow> bool" where
  "isdigit c \<longleftrightarrow> 48 \<le> (of_char c :: nat) \<and> (of_char c :: nat) \<le> 57"

definition simple_strtoul :: "string \<Rightarrow> u32" where
  "simple_strtoul ds = foldl (\<lambda>r c. r * 10 + (of_char c - 48)) 0 ds"

fun vsscanf :: "string \<Rightarrow> directive list \<Rightarrow> conversion list" where
  "vsscanf str [] = []"
| "vsscanf str (d # fmt) =
     (if str = [] then []
      else
        (case d of
           White \<Rightarrow> vsscanf (dropWhile isspace str) fmt
         | Lit c \<Rightarrow> if c = hd str then vsscanf (tl str) fmt else []
         | Conv_s \<Rightarrow>
             (let str = dropWhile isspace str
              in Text (takeWhile (\<lambda>c. \<not> isspace c) str) # vsscanf (dropWhile (\<lambda>c. \<not> isspace c) str) fmt)
         | Conv_u \<Rightarrow>
             (let str = dropWhile isspace str
              in if str = [] \<or> \<not> isdigit (hd str) then []
                 else Number (simple_strtoul (takeWhile isdigit str)) # vsscanf (dropWhile isdigit str) fmt)))"

text \<open>
  \<^verbatim>\<open>br_filter_write_proc\<close>: the caller's bytes, \<open>None\<close> when they cannot be read. The buffer of a command
  ends at its first NUL. A name longer than the ten characters of its field is not modelled further
  than marking the overrun. The allocation, whose result the code does not test, succeeds.
\<close>

definition BRFILTER_WRITE_LENGTH :: nat where
  "BRFILTER_WRITE_LENGTH = 120"

definition c_str :: "string \<Rightarrow> string" where
  "c_str s = takeWhile (\<lambda>c. c \<noteq> CHR 0x00) s"

definition filter_of_conversions :: "conversion list \<Rightarrow> br_filter" where
  "filter_of_conversions cs =
     \<lparr>bf_dev_name = (case cs of [Number _, Text s] \<Rightarrow> s | _ \<Rightarrow> []),
      bf_saddr = (case cs of Number n # _ \<Rightarrow> n | _ \<Rightarrow> 0),
      bf_dev = None\<rparr>"

definition br_filter_write_proc :: "string option \<Rightarrow> br_globals \<Rightarrow> int \<times> br_globals" where
  "br_filter_write_proc buffer g =
     (case buffer of
        None \<Rightarrow> (-14, g)
      | Some buf \<Rightarrow>
          (let value = c_str (take BRFILTER_WRITE_LENGTH buf);
               len = int (min BRFILTER_WRITE_LENGTH (length buf));
               g = (if value \<noteq> [] \<and> hd value = CHR ''1''
                    then
                      (let f = filter_of_conversions
                                 (vsscanf value [Lit (CHR ''1''), Lit (CHR '':''), Conv_u, Lit (CHR '':''), Conv_s])
                       in g\<lparr>br_filter_root := br_filter_root g @ [f],
                            g_oops := g_oops g \<or> length (bf_dev_name f) > 10\<rparr>)
                    else if value \<noteq> [] \<and> hd value = CHR ''2'' then g\<lparr>br_filter_root := []\<rparr>
                    else g)
           in (len, g)))"

text \<open>
  \<^verbatim>\<open>br_trigger_write_proc\<close>: fewer than two bytes clear the table, fewer than sixteen switch the triggers
  of a name off (a leading byte 1) or on again, a longer line adds a trigger. The last byte of a name
  command is the newline. \<open>junk\<close> is what the stack variable \<^verbatim>\<open>new\<close> holds before the scan. Names are
  kept up to their NUL, so a command longer than a stored name, or with a NUL in it, does not match it.
\<close>

definition BRTRIGGER_WRITE_LENGTH :: nat where
  "BRTRIGGER_WRITE_LENGTH = 120"

definition zero_trigger :: vpn_trigger where
  "zero_trigger = \<lparr>vt_on = 0, vt_ss = 0, vt_se = 0, vt_ds = 0, vt_de = 0, vt_name = []\<rparr>"

definition trigger_named :: "string \<Rightarrow> vpn_trigger \<Rightarrow> bool" where
  "trigger_named nm t \<longleftrightarrow> length nm \<le> length (vt_name t) \<and> take (length nm) (vt_name t) = nm"

fun scan_trigger :: "conversion list \<Rightarrow> vpn_trigger \<Rightarrow> vpn_trigger" where
  "scan_trigger [Number a] t = t\<lparr>vt_ss := a\<rparr>"
| "scan_trigger [Number a, Number b] t = t\<lparr>vt_ss := a, vt_se := b\<rparr>"
| "scan_trigger [Number a, Number b, Number c] t = t\<lparr>vt_ss := a, vt_se := b, vt_ds := c\<rparr>"
| "scan_trigger [Number a, Number b, Number c, Number d] t =
     t\<lparr>vt_ss := a, vt_se := b, vt_ds := c, vt_de := d\<rparr>"
| "scan_trigger [Number a, Number b, Number c, Number d, Text s] t =
     t\<lparr>vt_ss := a, vt_se := b, vt_ds := c, vt_de := d, vt_name := s\<rparr>"
| "scan_trigger _ t = t"

definition trigger_format :: "directive list" where
  "trigger_format = [Conv_u, White, Conv_u, White, Conv_u, White, Conv_u, White, Conv_s]"

definition br_trigger_write_proc :: "vpn_trigger \<Rightarrow> string option \<Rightarrow> br_globals \<Rightarrow> int \<times> br_globals" where
  "br_trigger_write_proc junk buffer g =
     (case buffer of
        None \<Rightarrow> (-14, g)
      | Some buf \<Rightarrow>
          (let value = take BRTRIGGER_WRITE_LENGTH buf;
               len = length value;
               g = (if len < 2
                    then g\<lparr>vpn_total_triggers := 0, vpn_triggers := replicate MAX_VPN_POLICY zero_trigger\<rparr>
                    else if len < 16
                    then
                      (let offset = (if hd value = CHR 0x01 then 1 else 0);
                           nm = take (len - 1 - offset) (drop offset value);
                           n = vpn_total_triggers g
                       in g\<lparr>vpn_triggers :=
                              map (\<lambda>t. if trigger_named nm t then t\<lparr>vt_on := (if offset = 1 then 0 else 1)\<rparr> else t)
                                (take n (vpn_triggers g)) @ drop n (vpn_triggers g)\<rparr>)
                    else
                      (let new = (scan_trigger (vsscanf (c_str value) trigger_format) junk)\<lparr>vt_on := 1\<rparr>;
                           n = vpn_total_triggers g
                       in if n < MAX_VPN_POLICY
                          then g\<lparr>vpn_triggers := (vpn_triggers g)[n := new], vpn_total_triggers := n + 1,
                                 g_oops := g_oops g \<or> length (vt_name new) > 12\<rparr>
                          else g\<lparr>vpn_total_triggers := n + 1, g_oops := True\<rparr>))
           in (int len, g)))"

text \<open>
  \<^verbatim>\<open>br_trigger_read_proc\<close>, once the semaphore is available: the name of the first trigger that has
  fired. When none has, the entry after the last one is read.
\<close>

definition br_trigger_read_proc :: "br_globals \<Rightarrow> string \<times> br_globals" where
  "br_trigger_read_proc g =
     (let n = vpn_total_triggers g;
          g = g\<lparr>vpn_read_sema := vpn_read_sema g - 1\<rparr>
      in case find (\<lambda>t. vt_on t = 2) (take n (vpn_triggers g)) of
           Some t \<Rightarrow> (vt_name t, g)
         | None \<Rightarrow> if n < MAX_VPN_POLICY then (vt_name (vpn_triggers g ! n), g)
                   else ([], g\<lparr>g_oops := True\<rparr>))"

section \<open>Reading the tables\<close>

text \<open>Numbers in the formats of \<^verbatim>\<open>printf\<close>: digits in a base, a minimal number of digits, a minimal width.\<close>

definition digit_char :: "nat \<Rightarrow> char" where
  "digit_char d = char_of (if d < 10 then 48 + d else 87 + d)"

fun digits :: "nat \<Rightarrow> nat \<Rightarrow> string" where
  "digits b n = (if b < 2 \<or> n < b then [digit_char n] else digits b (n div b) @ [digit_char (n mod b)])"

declare digits.simps [simp del]

definition pad :: "char \<Rightarrow> nat \<Rightarrow> string \<Rightarrow> string" where
  "pad c w s = replicate (w - length s) c @ s"

definition fmt_x :: "nat \<Rightarrow> nat \<Rightarrow> string" where
  "fmt_x precision n = pad (CHR ''0'') precision (digits 16 n)"

definition fmt_i :: "nat \<Rightarrow> nat \<Rightarrow> int \<Rightarrow> string" where
  "fmt_i width precision i =
     pad (CHR '' '') width
       ((if i < 0 then ''-'' else '''') @ pad (CHR ''0'') precision (digits 10 (nat (abs i))))"

definition nl :: string where "nl = [CHR 0x0A]"

text \<open>
  \<^verbatim>\<open>br_filter_read_proc\<close> prints both tables into the page that \<^verbatim>\<open>proc_file_read\<close> allocates. The result is the
  return value, the text from the offset on and the flag \<^verbatim>\<open>eof\<close>; a text that does not fit the page with its NUL overruns it.
\<close>

definition PAGE_SIZE :: nat where
  "PAGE_SIZE = 4096"

definition filter_line :: "br_filter \<Rightarrow> string" where
  "filter_line f = ''br_filter:'' @ bf_dev_name f @ '' '' @ fmt_x 1 (unat (bf_saddr f)) @ nl"

definition trigger_line :: "nat \<Rightarrow> vpn_trigger \<Rightarrow> string" where
  "trigger_line i t =
     ''vpn_trigger['' @ fmt_i 0 1 (int i) @ '']: '' @ fmt_i 0 1 (uint (vt_on t)) @ '' '' @ fmt_x 1 (unat (vt_ss t)) @ '' '' @
     fmt_x 1 (unat (vt_se t)) @ '' '' @ fmt_x 1 (unat (vt_ds t)) @ '' '' @ fmt_x 1 (unat (vt_de t)) @ '' '' @ vt_name t @ nl"

definition br_filter_read_proc :: "int \<Rightarrow> int \<Rightarrow> br_globals \<Rightarrow> (int \<times> string \<times> bool) \<times> br_globals" where
  "br_filter_read_proc off count g =
     (let page = concat (map filter_line (br_filter_root g)) @ nl @ ''-- BR_TRIGGER_ENTRIES --'' @ nl @
                 concat (map (\<lambda>i. trigger_line i (vpn_triggers g ! i)) [0..<MAX_VPN_POLICY]);
          len = max 0 (int (length page) - off)
      in ((len, drop (nat off) page, len \<le> count), g\<lparr>g_oops := g_oops g \<or> PAGE_SIZE \<le> length page\<rparr>))"

section \<open>The module\<close>

text \<open>
  What the module registers with the kernel: the hooks for received frames and for control calls, the
  notifier and the two files. Registration succeeds; ATM LAN emulation is not configured.
\<close>

record br_module =
  br_handle_frame_hook :: bool
  br_ioctl_hook :: bool
  br_device_notifier :: bool
  proc_br_filter :: bool
  proc_br_trigger :: bool
  mod_globals :: br_globals

definition br_module_init :: "br_module \<Rightarrow> br_module" where
  "br_module_init m =
     m\<lparr>br_handle_frame_hook := True, br_ioctl_hook := True, br_device_notifier := True, proc_br_filter := True,
       proc_br_trigger := True,
       mod_globals := (mod_globals m)\<lparr>vpn_triggers := replicate MAX_VPN_POLICY zero_trigger\<rparr>\<rparr>"

definition br_deinit :: "br_module \<Rightarrow> br_module" where
  "br_deinit m =
     m\<lparr>br_device_notifier := False, br_ioctl_hook := False, br_handle_frame_hook := False, proc_br_filter := False\<rparr>"

lemma digits_nonempty: "digits b n \<noteq> []"
  by (simp add: digits.simps [of b n])

lemma length_fmt_x: "1 \<le> length (fmt_x p n)"
  using digits_nonempty [of 16 n] by (simp add: fmt_x_def pad_def Suc_le_eq)

text \<open>The list of filters has no limit, the page that shows it has: 316 filters overrun it.\<close>

lemma filter_listing_overruns_page:
  assumes "316 \<le> length (br_filter_root g)"
  shows "g_oops (snd (br_filter_read_proc off count g))"
proof -
  have "13 * length fs \<le> length (concat (map filter_line fs))" for fs
  proof (induction fs)
    case (Cons f fs)
    have "13 \<le> length (filter_line f)" using length_fmt_x [of 1 "unat (bf_saddr f)"] by (simp add: filter_line_def nl_def)
    then show ?case using Cons by simp
  qed simp
  from this [of "br_filter_root g"] show ?thesis
    using assms by (simp add: br_filter_read_proc_def Let_def PAGE_SIZE_def del: length_concat)
qed

end
