(* ===== verification/Br_Forward.thy ===== *)
theory Br_Forward
  imports Br_Proc Br_Stp "HOL-Library.Multiset"
begin

text \<open>
  The data path of the bridge: delivery to a port, flooding and the transmit routine of the bridge
  device (br_forward.c), reception of a frame from a port and hand-over to the local stack
  (br_input.c). The state is the module's tables and the bridge. Port pointers held in the
  forwarding database are port numbers; following one that is not on the port list is a fault.
\<close>

type_synonym br_sys = "br_globals \<times> net_bridge"

section \<open>Delivery\<close>

definition on_bridge :: "(net_bridge \<Rightarrow> net_bridge) \<Rightarrow> br_sys \<Rightarrow> br_sys" where
  "on_bridge f s = (fst s, f (snd s))"

definition should_deliver :: "net_bridge_port \<Rightarrow> sk_buff \<Rightarrow> br_globals \<Rightarrow> bool \<times> br_globals" where
  "should_deliver p skb g =
     (if skb_dev skb = ifindex (p_dev p) \<or> state_val (p_state p) AND state_val BR_STATE_FORWARDING = 0
      then (False, g)
      else br_filter_pass p skb g)"

definition br_send_frame_error :: "sk_buff \<Rightarrow> net_bridge \<Rightarrow> net_bridge" where
  "br_send_frame_error skb br = emit (Kfree_skb (skb_id skb)) br"

definition br_send_frame :: "u32 \<Rightarrow> nat \<Rightarrow> sk_buff \<Rightarrow> br_sys \<Rightarrow> br_sys" where
  "br_send_frame jiffies to skb s =
     (case br_get_port (snd s) to of
        None \<Rightarrow> on_bridge fault s
      | Some p \<Rightarrow>
          (let (deliver, g) = should_deliver p skb (fst s);
               br = snd s
           in if \<not> deliver then (g, br_send_frame_error skb br)
              else
                (let (drop, br) =
                       (if br_filter_active br
                        then br_filter_frame jiffies to (h_dest (skb_data skb)) (h_source (skb_data skb))
                               (h_proto (skb_data skb)) br
                        else (False, br))
                 in if drop then (g, br_send_frame_error skb br)
                    else (g, emit (Hard_start_xmit to (skb_id skb)) br))))"

text \<open>\<^verbatim>\<open>skb_clone\<close>: a new buffer with the same contents, when there is memory.\<close>

definition skb_clone :: "sk_buff \<Rightarrow> net_bridge \<Rightarrow> sk_buff option \<times> net_bridge" where
  "skb_clone skb br =
     (let (ok, br) = alloc br
      in if ok then (Some (skb\<lparr>skb_id := next_skb br\<rparr>), br\<lparr>next_skb := next_skb br + 1\<rparr>)
         else (None, br))"

definition tx_drop :: "net_bridge \<Rightarrow> net_bridge" where
  "tx_drop br = br\<lparr>statistics := (statistics br)\<lparr>tx_dropped := tx_dropped (statistics br) + 1\<rparr>\<rparr>"

section \<open>Flooding\<close>

text \<open>
  The walk of \<^verbatim>\<open>br_flood\<close> over the ports: a port that may receive the frame is remembered, and gets a
  clone when the next one is found; the last one gets the buffer itself.
\<close>

fun flood_walk :: "u32 \<Rightarrow> nat list \<Rightarrow> nat option \<Rightarrow> sk_buff \<Rightarrow> br_sys \<Rightarrow> br_sys" where
  "flood_walk jiffies [] prev skb s =
     (case prev of
        Some m \<Rightarrow> br_send_frame jiffies m skb s
      | None \<Rightarrow> on_bridge (br_send_frame_error skb) s)"
| "flood_walk jiffies (n # ns) prev skb s =
     (case br_get_port (snd s) n of
        None \<Rightarrow> on_bridge fault s
      | Some p \<Rightarrow>
          (let (deliver, g) = should_deliver p skb (fst s);
               s = (g, snd s)
           in if \<not> deliver then flood_walk jiffies ns prev skb s
              else
                (case prev of
                   None \<Rightarrow> flood_walk jiffies ns (Some n) skb s
                 | Some m \<Rightarrow>
                     (case skb_clone skb (snd s) of
                        (None, br) \<Rightarrow> (g, br_send_frame_error skb (tx_drop br))
                      | (Some skb2, br) \<Rightarrow>
                          flood_walk jiffies ns (Some n) skb (br_send_frame jiffies m skb2 (g, br))))))"

definition br_flood :: "u32 \<Rightarrow> bool \<Rightarrow> sk_buff \<Rightarrow> br_sys \<Rightarrow> br_sys" where
  "br_flood jiffies clone skb s =
     (if clone
      then
        (case skb_clone skb (snd s) of
           (None, br) \<Rightarrow> (fst s, br_send_frame_error skb (tx_drop br))
         | (Some skb2, br) \<Rightarrow> flood_walk jiffies (port_nos br) None skb2 (fst s, br))
      else flood_walk jiffies (port_nos (snd s)) None skb s)"

section \<open>The transmit routine of the bridge device\<close>

definition br_dev_xmit :: "u32 \<Rightarrow> sk_buff \<Rightarrow> br_sys \<Rightarrow> br_sys" where
  "br_dev_xmit jiffies skb s =
     (let s = on_bridge (\<lambda>br. br\<lparr>statistics := (statistics br)
                \<lparr>tx_packets := tx_packets (statistics br) + 1,
                 tx_bytes := tx_bytes (statistics br) + skb_len skb\<rparr>\<rparr>) s;
          dest = h_dest (skb_data skb)
      in if skb_data skb ! 0 AND 1 \<noteq> 0 then br_flood jiffies False skb s
         else
           (case br_fdb_get jiffies dest (snd s) of
              (None, br) \<Rightarrow> br_flood jiffies False skb (fst s, br)
            | (Some dst, br) \<Rightarrow>
                on_bridge (fdb_put_linked dest)
                  (case fdb_dst dst of
                     None \<Rightarrow> (fst s, fault br)
                   | Some n \<Rightarrow> br_send_frame jiffies n skb (fst s, br))))"

section \<open>Reception\<close>

definition br_pass_frame_up :: "sk_buff \<Rightarrow> br_sys \<Rightarrow> br_sys" where
  "br_pass_frame_up skb s =
     (let br = snd s;
          br = br\<lparr>statistics := (statistics br)
                 \<lparr>rx_packets := rx_packets (statistics br) + 1,
                  rx_bytes := rx_bytes (statistics br) + skb_len skb\<rparr>\<rparr>;
          eth = skb_data skb;
          skb = skb\<lparr>skb_dev := ifindex (br_dev br)\<rparr>;
          (proto, skb) = eth_type_trans skb;
          skb = skb\<lparr>skb_protocol := proto\<rparr>;
          (hit, g) = (if h_proto eth = htons ETH_P_IP \<and> \<not> (eth ! 0 AND 1 \<noteq> 0)
                      then br_trigger_hook skb (fst s) else (False, fst s))
      in if hit then (g, emit (Kfree_skb (skb_id skb)) br)
         else (g, emit (Netif_rx (skb_id skb)) br))"

definition br_input_error :: "sk_buff \<Rightarrow> net_bridge \<Rightarrow> net_bridge" where
  "br_input_error skb br = emit (Kfree_skb (skb_id skb)) br"

text \<open>
  \<^verbatim>\<open>__br_handle_frame\<close> for a frame received on the device of port \<open>n\<close>. The code that would hand frames
  of the spanning tree protocol to \<^verbatim>\<open>br_stp_handle_bpdu\<close> is compiled out.
\<close>

definition handle_frame :: "u32 \<Rightarrow> nat \<Rightarrow> sk_buff \<Rightarrow> br_sys \<Rightarrow> br_sys" where
  "handle_frame jiffies n skb s =
     (if skb_data skb ! 6 AND 1 \<noteq> 0 then on_bridge (br_input_error skb) s
      else
        (case br_get_port (snd s) n of
           None \<Rightarrow> on_bridge fault s
         | Some source_port \<Rightarrow>
             (let dest = h_dest (skb_data skb);
                  s = (if state_val (p_state source_port)
                            AND (state_val BR_STATE_LEARNING OR state_val BR_STATE_FORWARDING) \<noteq> 0
                       then on_bridge (br_fdb_insert jiffies (Some n) (h_source (skb_data skb)) False) s
                       else s)
              in if state_val (p_state source_port) AND state_val BR_STATE_FORWARDING \<noteq> 0
                 then
                   (if skb_data skb ! 0 AND 1 \<noteq> 0
                    then br_pass_frame_up skb (br_flood jiffies True skb s)
                    else
                      (case br_fdb_get jiffies dest (snd s) of
                         (None, br) \<Rightarrow> br_flood jiffies False skb (fst s, br)
                       | (Some fdb_entry, br) \<Rightarrow>
                           on_bridge (fdb_put_linked dest)
                             (if is_local fdb_entry then br_pass_frame_up skb (fst s, br)
                              else
                                (case fdb_dst fdb_entry of
                                   None \<Rightarrow> (fst s, fault br)
                                 | Some m \<Rightarrow> br_send_frame jiffies m skb (fst s, br)))))
                 else on_bridge (br_input_error skb) s)))"

text \<open>\<^verbatim>\<open>br_handle_frame\<close> finds the bridge through the device the frame came in on.\<close>

definition br_handle_frame :: "u32 \<Rightarrow> sk_buff \<Rightarrow> br_sys \<Rightarrow> br_sys" where
  "br_handle_frame jiffies skb s =
     (case find (\<lambda>p. ifindex (p_dev p) = skb_dev skb) (port_list (snd s)) of
        None \<Rightarrow> on_bridge fault s
      | Some p \<Rightarrow> handle_frame jiffies (port_no p) skb s)"

section \<open>What a delivery changes\<close>

text \<open>The part of the bridge the forwarding database and the filter do not touch.\<close>

definition io_view :: "net_bridge \<Rightarrow> net_bridge_port list \<times> out_event list \<times> nat \<times> bool list" where
  "io_view br = (port_list br, out br, next_skb br, mem br)"

lemma io_view_fault [simp]: "io_view (fault br) = io_view br"
  by (simp add: io_view_def fault_def)

lemma io_view_set_chain [simp]: "io_view (set_chain i c br) = io_view br"
  by (simp add: io_view_def set_chain_def)

lemma io_view_fdb_get [simp]: "io_view (snd (br_fdb_get jiffies a br)) = io_view br"
  by (simp add: br_fdb_get_def Let_def split: option.split)

lemma io_view_fdb_put_linked [simp]: "io_view (fdb_put_linked a br) = io_view br"
  by (simp add: fdb_put_linked_def split: option.split)

lemma io_view_blacklist [simp]: "io_view (br\<lparr>blacklist := es\<rparr>) = io_view br"
  by (simp add: io_view_def)

lemma io_view_filter_frame [simp]: "io_view (snd (br_filter_frame jiffies n d s t br)) = io_view br"
proof (cases "br_fdb_get jiffies s br")
  case (Pair o1 br1)
  have "io_view br1 = io_view br" using io_view_fdb_get [of jiffies s br] Pair by simp
  with Pair show ?thesis
    by (simp add: br_filter_frame_def Let_def case_prod_beta split: option.split verdict.split)
qed

lemma io_viewD:
  assumes "io_view a = io_view b"
  shows "port_list a = port_list b" "out a = out b" "next_skb a = next_skb b" "mem a = mem b"
    "port_nos a = port_nos b" "br_get_port a n = br_get_port b n"
  using assms unfolding io_view_def port_nos_def br_get_port_def by (simp_all only: prod.inject)

text \<open>The buffers that have left the bridge, in order.\<close>

primrec event_skb :: "out_event \<Rightarrow> nat list" where
  "event_skb (Dev_queue_xmit n d) = []"
| "event_skb (Hard_start_xmit n i) = [i]"
| "event_skb (Netif_rx i) = [i]"
| "event_skb (Kfree_skb i) = [i]"

definition handled :: "net_bridge \<Rightarrow> nat list" where
  "handled br = concat (map event_skb (out br))"

lemma handled_emit [simp]: "handled (emit e br) = handled br @ event_skb e"
  by (simp add: handled_def emit_def)

lemma handled_io: "io_view a = io_view b \<Longrightarrow> handled a = handled b"
  using io_viewD(2) [of a b] by (simp only: handled_def)

lemma emit_frame [simp]:
  "port_list (emit e br) = port_list br" "next_skb (emit e br) = next_skb br" "mem (emit e br) = mem br"
  "out (emit e br) = out br @ [e]"
  by (simp_all add: emit_def)

text \<open>A frame sent to a port of the bridge is passed on or freed, once.\<close>

lemma br_send_frame_effect:
  assumes "br_get_port (snd s) n = Some p"
  shows "\<exists>e. out (snd (br_send_frame jiffies n skb s)) = out (snd s) @ [e]
      \<and> (e = Hard_start_xmit n (skb_id skb) \<or> e = Kfree_skb (skb_id skb))"
    and "port_list (snd (br_send_frame jiffies n skb s)) = port_list (snd s)"
    and "next_skb (snd (br_send_frame jiffies n skb s)) = next_skb (snd s)"
    and "mem (snd (br_send_frame jiffies n skb s)) = mem (snd s)"
proof -
  let ?f = "br_filter_frame jiffies n (h_dest (skb_data skb)) (h_source (skb_data skb))
      (h_proto (skb_data skb)) (snd s)"
  note view = io_viewD [OF io_view_filter_frame [of jiffies n "h_dest (skb_data skb)"
      "h_source (skb_data skb)" "h_proto (skb_data skb)" "snd s"]]
  show "\<exists>e. out (snd (br_send_frame jiffies n skb s)) = out (snd s) @ [e]
      \<and> (e = Hard_start_xmit n (skb_id skb) \<or> e = Kfree_skb (skb_id skb))"
    and "port_list (snd (br_send_frame jiffies n skb s)) = port_list (snd s)"
    and "next_skb (snd (br_send_frame jiffies n skb s)) = next_skb (snd s)"
    and "mem (snd (br_send_frame jiffies n skb s)) = mem (snd s)"
    using view assms
    by (simp_all add: br_send_frame_def br_send_frame_error_def Let_def case_prod_beta)
qed

lemma br_send_frame_handled:
  assumes "br_get_port (snd s) n = Some p"
  shows "handled (snd (br_send_frame jiffies n skb s)) = handled (snd s) @ [skb_id skb]"
  using br_send_frame_effect(1) [OF assms, of jiffies skb] by (auto simp: handled_def)

section \<open>Flooding releases every buffer once\<close>

lemma alloc_io [simp]:
  "port_list (snd (alloc br)) = port_list br" "next_skb (snd (alloc br)) = next_skb br"
  "out (snd (alloc br)) = out br"
  by (simp_all add: alloc_def split: list.split)

lemma skb_clone_None: "\<not> fst (alloc br) \<Longrightarrow> skb_clone skb br = (None, snd (alloc br))"
  by (simp add: skb_clone_def case_prod_beta Let_def)

lemma skb_clone_Some:
  "fst (alloc br) \<Longrightarrow> skb_clone skb br =
     (Some (skb\<lparr>skb_id := next_skb br\<rparr>), (snd (alloc br))\<lparr>next_skb := Suc (next_skb br)\<rparr>)"
  by (simp add: skb_clone_def case_prod_beta Let_def)

lemma tx_drop_frame [simp]:
  "out (tx_drop br) = out br" "next_skb (tx_drop br) = next_skb br" "port_list (tx_drop br) = port_list br"
  by (simp_all add: tx_drop_def)


lemma get_port_same: "port_list a = port_list b \<Longrightarrow> br_get_port a n = br_get_port b n"
  by (simp only: br_get_port_def)

lemma flood_walk_handled:
  assumes "\<And>n. n \<in> set ns \<Longrightarrow> br_get_port (snd s) n \<noteq> None"
    and "\<And>m. prev = Some m \<Longrightarrow> br_get_port (snd s) m \<noteq> None"
  shows "next_skb (snd s) \<le> next_skb (snd (flood_walk jiffies ns prev skb s)) \<and>
    handled (snd (flood_walk jiffies ns prev skb s)) =
      handled (snd s) @ [next_skb (snd s)..<next_skb (snd (flood_walk jiffies ns prev skb s))] @ [skb_id skb]
    \<and> port_list (snd (flood_walk jiffies ns prev skb s)) = port_list (snd s)"
  using assms
proof (induction ns arbitrary: prev s)
  case Nil
  show ?case
  proof (cases prev)
    case (Some m)
    with Nil.prems(2) [of m] obtain p where p: "br_get_port (snd s) m = Some p" by blast
    show ?thesis
      using Some br_send_frame_handled [OF p, of jiffies skb] br_send_frame_effect [OF p, of jiffies skb]
      by simp
  qed (simp add: on_bridge_def br_send_frame_error_def)
next
  case (Cons n ns)
  obtain p where p: "br_get_port (snd s) n = Some p" using Cons.prems(1) [of n] by auto
  obtain d g where d: "should_deliver p skb (fst s) = (d, g)" by (cases "should_deliver p skb (fst s)")
  have ports: "\<And>n. n \<in> set ns \<Longrightarrow> br_get_port (snd (g, snd s)) n \<noteq> None"
    using Cons.prems(1) by simp
  show ?case
  proof (cases d)
    case False
    then show ?thesis
      using Cons.IH [OF ports, of prev] Cons.prems(2) p d by simp
  next
    case True
    show ?thesis
    proof (cases prev)
      case None
      then show ?thesis
        using Cons.IH [OF ports, of "Some n"] p d True by simp
    next
      case (Some m)
      obtain q where q: "br_get_port (snd s) m = Some q" using Cons.prems(2) [OF Some] by auto
      show ?thesis
      proof (cases "fst (alloc (snd s))")
        case False
        then show ?thesis
          using p d True Some by (simp add: skb_clone_None br_send_frame_error_def handled_def)
      next
        case clone: True
        define br1 where "br1 = (snd (alloc (snd s)))\<lparr>next_skb := Suc (next_skb (snd s))\<rparr>"
        define skb2 where "skb2 = skb\<lparr>skb_id := next_skb (snd s)\<rparr>"
        define s2 where "s2 = br_send_frame jiffies m skb2 (g, br1)"
        have br1: "port_list br1 = port_list (snd s)" "next_skb br1 = Suc (next_skb (snd s))"
          "handled br1 = handled (snd s)"
          by (simp_all add: br1_def handled_def)
        have q1: "br_get_port (snd (g, br1)) m = Some q" using q get_port_same [OF br1(1)] by simp
        have s2: "port_list (snd s2) = port_list (snd s)" "next_skb (snd s2) = Suc (next_skb (snd s))"
          "handled (snd s2) = handled (snd s) @ [next_skb (snd s)]"
          using br_send_frame_effect [OF q1, of jiffies skb2] br_send_frame_handled [OF q1, of jiffies skb2] br1
          by (simp_all add: s2_def skb2_def)
        have walk: "flood_walk jiffies (n # ns) prev skb s = flood_walk jiffies ns (Some n) skb s2"
          using p d True Some skb_clone_Some [OF clone, of skb] by (simp add: s2_def skb2_def br1_def)
        have "\<And>n. n \<in> set ns \<Longrightarrow> br_get_port (snd s2) n \<noteq> None" "br_get_port (snd s2) n \<noteq> None"
          using Cons.prems(1) get_port_same [OF s2(1)] by simp_all
        from Cons.IH [of s2 "Some n", OF this(1)] this(2) show ?thesis
          unfolding walk using s2 by (simp add: upt_conv_Cons)
      qed
    qed
  qed
qed
lemma br_flood_handled:
  "next_skb (snd s) \<le> next_skb (snd (br_flood jiffies False skb s))"
  "handled (snd (br_flood jiffies False skb s)) =
     handled (snd s) @ [next_skb (snd s)..<next_skb (snd (br_flood jiffies False skb s))] @ [skb_id skb]"
  "port_list (snd (br_flood jiffies False skb s)) = port_list (snd s)"
proof -
  have "\<And>n. n \<in> set (port_nos (snd s)) \<Longrightarrow> br_get_port (snd s) n \<noteq> None"
    by (simp only: br_get_port_None_iff not_not)
  from flood_walk_handled [of "port_nos (snd s)" s None jiffies skb, OF this]
  show "next_skb (snd s) \<le> next_skb (snd (br_flood jiffies False skb s))"
    "handled (snd (br_flood jiffies False skb s)) =
       handled (snd s) @ [next_skb (snd s)..<next_skb (snd (br_flood jiffies False skb s))] @ [skb_id skb]"
    "port_list (snd (br_flood jiffies False skb s)) = port_list (snd s)"
    by (simp_all add: br_flood_def)
qed

lemma br_flood_clone:
  "fst (alloc (snd s)) \<Longrightarrow>
     br_flood jiffies True skb s =
       br_flood jiffies False (skb\<lparr>skb_id := next_skb (snd s)\<rparr>)
         (fst s, (snd (alloc (snd s)))\<lparr>next_skb := Suc (next_skb (snd s))\<rparr>)"
  by (simp add: br_flood_def skb_clone_Some)

lemma br_flood_clone_handled:
  assumes "fst (alloc (snd s))"
  shows "next_skb (snd s) < next_skb (snd (br_flood jiffies True skb s))"
    "handled (snd (br_flood jiffies True skb s)) =
     handled (snd s) @ [Suc (next_skb (snd s))..<next_skb (snd (br_flood jiffies True skb s))]
       @ [next_skb (snd s)]"
  using br_flood_handled [where s = "(fst s, (snd (alloc (snd s)))\<lparr>next_skb := Suc (next_skb (snd s))\<rparr>)"
      and jiffies = jiffies and skb = "skb\<lparr>skb_id := next_skb (snd s)\<rparr>"]
  by (simp_all add: br_flood_clone [OF assms] handled_def)

text \<open>Without memory for the clone the buffer is freed, and its caller goes on with it.\<close>

lemma br_flood_clone_failed:
  "\<not> fst (alloc (snd s)) \<Longrightarrow>
     handled (snd (br_flood jiffies True skb s)) = handled (snd s) @ [skb_id skb]"
  by (simp add: br_flood_def skb_clone_None br_send_frame_error_def handled_def)

section \<open>Where a flood goes\<close>

definition may_receive :: "sk_buff \<Rightarrow> net_bridge_port \<Rightarrow> bool" where
  "may_receive skb p \<longleftrightarrow> ifindex (p_dev p) \<noteq> skb_dev skb \<and> p_state p = BR_STATE_FORWARDING"

text \<open>Clones for all ports but the last, which gets the buffer itself; freed when there is none.\<close>

fun flood_events :: "nat list \<Rightarrow> nat \<Rightarrow> nat \<Rightarrow> out_event list" where
  "flood_events [] next orig = [Kfree_skb orig]"
| "flood_events [n] next orig = [Hard_start_xmit n orig]"
| "flood_events (m # n # ns) next orig =
     Hard_start_xmit m next # flood_events (n # ns) (Suc next) orig"

lemma should_deliver_no_filter:
  "br_filter_root g = [] \<Longrightarrow> should_deliver p skb g = (may_receive skb p, g)"
  by (cases "p_state p") (auto simp: should_deliver_def br_filter_pass_def may_receive_def)

lemma br_send_frame_no_filter:
  assumes "br_get_port (snd s) n = Some p" and "may_receive skb p"
    and "br_filter_root (fst s) = []" and "\<not> br_filter_active (snd s)"
  shows "br_send_frame jiffies n skb s = on_bridge (emit (Hard_start_xmit n (skb_id skb))) s"
  using assms by (simp add: br_send_frame_def should_deliver_no_filter on_bridge_def)

text \<open>With a port remembered, the walk serves it and the ports of the rest that may receive.\<close>

lemma flood_walk_events:
  assumes "\<And>n. n \<in> set ns \<Longrightarrow> br_get_port (snd s) n \<noteq> None"
    and "\<And>m. prev = Some m \<Longrightarrow> \<exists>p. br_get_port (snd s) m = Some p \<and> may_receive skb p"
    and "br_filter_root (fst s) = []" and "\<not> br_filter_active (snd s)" and "mem (snd s) = []"
  shows "out (snd (flood_walk jiffies ns prev skb s)) =
    out (snd s) @ flood_events
      ((case prev of None \<Rightarrow> [] | Some m \<Rightarrow> [m]) @
       filter (\<lambda>n. \<exists>p. br_get_port (snd s) n = Some p \<and> may_receive skb p) ns)
      (next_skb (snd s)) (skb_id skb)"
  using assms
proof (induction ns arbitrary: prev s)
  case Nil
  show ?case
  proof (cases prev)
    case (Some m)
    then obtain p where "br_get_port (snd s) m = Some p" "may_receive skb p" using Nil.prems(2) by blast
    from br_send_frame_no_filter [OF this Nil.prems(3,4)] Some show ?thesis
      by (simp add: on_bridge_def)
  qed (simp add: on_bridge_def br_send_frame_error_def)
next
  case (Cons n ns)
  obtain p where p: "br_get_port (snd s) n = Some p" using Cons.prems(1) [of n] by auto
  have ports: "\<And>n. n \<in> set ns \<Longrightarrow> br_get_port (snd s) n \<noteq> None"
    using Cons.prems(1) by simp
  note d = should_deliver_no_filter [OF Cons.prems(3), of p skb]
  show ?case
  proof (cases "may_receive skb p")
    case False
    then show ?thesis
      using Cons.IH [OF ports Cons.prems(2-)] p d by simp
  next
    case True
    show ?thesis
    proof (cases prev)
      case None
      then show ?thesis
        using Cons.IH [of s "Some n", OF ports _ Cons.prems(3-)] p d True by simp
    next
      case (Some m)
      obtain q where q: "br_get_port (snd s) m = Some q" "may_receive skb q" using Cons.prems(2) [OF Some] by auto
      define br1 where "br1 = (snd s)\<lparr>next_skb := Suc (next_skb (snd s))\<rparr>"
      define s2 where "s2 = (fst s, emit (Hard_start_xmit m (next_skb (snd s))) br1)"
      have alloc: "alloc (snd s) = (True, snd s)" using Cons.prems(5) by (simp add: alloc_def)
      have s2: "port_list (snd s2) = port_list (snd s)" "next_skb (snd s2) = Suc (next_skb (snd s))"
        "out (snd s2) = out (snd s) @ [Hard_start_xmit m (next_skb (snd s))]" "fst s2 = fst s"
        "br_filter_active (snd s2) = br_filter_active (snd s)" "mem (snd s2) = mem (snd s)"
        by (simp_all add: s2_def br1_def emit_def)
      note same = get_port_same [OF s2(1)]
      have send: "br_send_frame jiffies m (skb\<lparr>skb_id := next_skb (snd s)\<rparr>) (fst s, br1) = s2"
      proof -
        have "br_get_port br1 m = br_get_port (snd s) m" by (rule get_port_same) (simp add: br1_def)
        with q(1) have "br_get_port br1 m = Some q" by (simp only:)
        moreover have "may_receive (skb\<lparr>skb_id := next_skb (snd s)\<rparr>) q" using q by (simp add: may_receive_def)
        ultimately show ?thesis
          using br_send_frame_no_filter [of "(fst s, br1)" m q "skb\<lparr>skb_id := next_skb (snd s)\<rparr>" jiffies]
            Cons.prems(3,4) by (simp add: s2_def on_bridge_def br1_def)
      qed
      have clone: "skb_clone skb (snd s) = (Some (skb\<lparr>skb_id := next_skb (snd s)\<rparr>), br1)"
        by (simp add: skb_clone_Some alloc br1_def)
      have walk: "flood_walk jiffies (n # ns) prev skb s = flood_walk jiffies ns (Some n) skb s2"
        by (simp add: p d True Some clone send)
      have "out (snd (flood_walk jiffies ns (Some n) skb s2)) =
        out (snd s2) @ flood_events (n # filter (\<lambda>n. \<exists>p. br_get_port (snd s2) n = Some p \<and> may_receive skb p) ns)
          (next_skb (snd s2)) (skb_id skb)"
        using Cons.IH [of s2 "Some n"] ports p True Cons.prems(3-) s2(4-6) same by simp
      then show ?thesis
        unfolding walk same s2(2,3) using Some p True by simp
    qed
  qed
qed

lemma filter_key_map:
  "distinct (map k xs) \<Longrightarrow>
   filter (\<lambda>n. \<exists>x. find (\<lambda>y. k y = n) xs = Some x \<and> P x) (map k xs) = map k (filter P xs)"
proof -
  assume d: "distinct (map k xs)"
  have "(\<exists>y. find (\<lambda>y. k y = k x) xs = Some y \<and> P y) = P x" if "x \<in> set xs" for x
    using find_key_in [OF d that] by simp
  then show ?thesis by (simp add: filter_map comp_def cong: filter_cong)
qed

lemma br_flood_events:
  assumes "distinct (port_nos (snd s))"
    and "br_filter_root (fst s) = []" and "\<not> br_filter_active (snd s)" and "mem (snd s) = []"
  shows "out (snd (br_flood jiffies False skb s)) =
    out (snd s) @ flood_events (map port_no (filter (may_receive skb) (port_list (snd s))))
      (next_skb (snd s)) (skb_id skb)"
proof -
  have "\<And>n. n \<in> set (port_nos (snd s)) \<Longrightarrow> br_get_port (snd s) n \<noteq> None"
    by (simp only: br_get_port_None_iff not_not)
  note walk = flood_walk_events [of "port_nos (snd s)" s None skb jiffies, OF this _ assms(2-)]
  have "filter (\<lambda>n. \<exists>p. br_get_port (snd s) n = Some p \<and> may_receive skb p) (port_nos (snd s)) =
      map port_no (filter (may_receive skb) (port_list (snd s)))"
    unfolding br_get_port_def port_nos_def
    by (rule filter_key_map) (use assms(1) in \<open>simp only: port_nos_def\<close>)
  with walk show ?thesis by (simp add: br_flood_def)
qed

section \<open>The data path follows no bad pointer\<close>

lemma fdb_ports_lookup:
  assumes "fdb_ports br" and "fdb_lookup br a = Some f"
  shows "\<exists>n. fdb_dst f = Some n \<and> n \<in> set (port_nos br)"
proof -
  from assms(2) have "f \<in> set (hash br (br_mac_hash a))"
    unfolding fdb_lookup_def by (rule find_key_Some [THEN conjunct1])
  with assms(1) have "fdb_dst f \<in> Some ` set (port_nos br)"
    unfolding fdb_ports_def fdb_all_def by blast
  then show ?thesis by blast
qed

text \<open>A hit gives an entry that leads to a port, and releasing it gives the table back.\<close>

lemma br_fdb_get_hit:
  assumes "fdb_hashed br" and "fdb_ports br" and "br_fdb_get jiffies a br = (Some f, br')"
  shows "\<exists>n. fdb_dst f = Some n \<and> n \<in> set (port_nos br)" and "fdb_put_linked a br' = br"
proof -
  show "fdb_put_linked a br' = br" by (rule br_fdb_get_put [OF assms(1,3)])
  have "fst (br_fdb_get jiffies a br) = Some f" using assms(3) by simp
  then obtain g where g: "fdb_lookup br a = Some g" "fdb_dst f = fdb_dst g"
    unfolding br_fdb_get_lookup by (cases "fdb_lookup br a") (auto split: if_splits)
  with fdb_ports_lookup [OF assms(2) g(1)] show "\<exists>n. fdb_dst f = Some n \<and> n \<in> set (port_nos br)"
    by simp
qed

lemma br_fdb_get_miss: "br_fdb_get jiffies a br = (None, br') \<Longrightarrow> br' = br"
  using br_fdb_get_None [of jiffies a br] by simp

lemma filter_walk_no_bad_pointer: "snd (filter_walk fr (Some nm) es) \<noteq> Bad_pointer"
  by (induction es) (auto simp: filter_match_def case_prod_beta Let_def split: option.splits bool.splits)

text \<open>The filter changes counters only.\<close>

lemma br_filter_frame_ok:
  assumes "fdb_hashed br" and "fdb_ports br" and "br_get_port br n = Some p"
  shows "\<exists>es. snd (br_filter_frame jiffies n d a t br) = br\<lparr>blacklist := es\<rparr>"
proof (cases "br_fdb_get jiffies a br")
  case (Pair f br')
  show ?thesis
  proof (cases f)
    case None
    with Pair br_fdb_get_miss assms(3) show ?thesis
      by (intro exI [of _ "blacklist br"]) (simp add: br_filter_frame_def)
  next
    case (Some e)
    note hit = br_fdb_get_hit [OF assms(1,2) Pair [unfolded Some]]
    from hit(1) obtain m q where m: "fdb_dst e = Some m" "br_get_port br m = Some q"
      using br_get_port_ex_iff [of br] by blast
    let ?fr = "\<lparr>fr_dest = d, fr_source = a, fr_proto = t, fr_dname = dev_name (p_dev p)\<rparr>"
    have good: "snd (filter_walk ?fr (Some (dev_name (p_dev q))) (blacklist br)) \<noteq> Bad_pointer"
      by (rule filter_walk_no_bad_pointer)
    show ?thesis
    proof (cases "br_filter_active br")
      case True
      with good show ?thesis
        by (intro exI [of _ "fst (filter_walk ?fr (Some (dev_name (p_dev q))) (blacklist br))"])
           (simp add: br_filter_frame_def assms(3) Pair Some hit(2) m Let_def case_prod_beta
             split: verdict.split)
    next
      case False
      then show ?thesis
        by (intro exI [of _ "blacklist br"])
           (simp add: br_filter_frame_def assms(3) Pair Some hit(2))
    qed
  qed
qed

lemma keeps_plain:
  "keeps br (br\<lparr>blacklist := es\<rparr>)" "keeps br (emit e br)" "keeps br (br\<lparr>statistics := st\<rparr>)"
  "keeps br (snd (alloc br))" "keeps br (br\<lparr>next_skb := i\<rparr>)" "keeps br (tx_drop br)"
  by (simp_all add: keeps_def stp_key_def port_devs_def port_nos_def emit_def tx_drop_def alloc_def split: list.split)

lemma keeps_send_frame:
  assumes "fdb_hashed (snd s)" and "fdb_ports (snd s)" and "br_get_port (snd s) n = Some p"
  shows "keeps (snd s) (snd (br_send_frame jiffies n skb s))"
proof -
  let ?v = "br_filter_frame jiffies n (h_dest (skb_data skb)) (h_source (skb_data skb))
      (h_proto (skb_data skb)) (snd s)"
  obtain es where es: "snd ?v = (snd s)\<lparr>blacklist := es\<rparr>"
    using br_filter_frame_ok [OF assms] by blast
  have "keeps (snd s) (emit e ((snd s)\<lparr>blacklist := es\<rparr>))" for e
    using keeps_plain(1) keeps_plain(2) by (rule keeps_trans)
  with es show ?thesis
    by (simp add: br_send_frame_def assms(3) br_send_frame_error_def Let_def case_prod_beta keeps_plain)
qed

lemma keeps_fdb: "keeps a b \<Longrightarrow> fdb_hashed b \<longleftrightarrow> fdb_hashed a" "keeps a b \<Longrightarrow> fdb_ports b \<longleftrightarrow> fdb_ports a"
  "keeps a b \<Longrightarrow> fdb_unique b \<longleftrightarrow> fdb_unique a"
  by (simp_all only: fdb_hashed_def fdb_ports_def fdb_unique_def fdb_all_def keeps_hash keeps_port_nos)

lemma keeps_get_port: "keeps a b \<Longrightarrow> br_get_port b n = None \<longleftrightarrow> br_get_port a n = None"
  by (simp only: br_get_port_None_iff keeps_port_nos)

lemma keeps_flood_walk:
  assumes "fdb_hashed (snd s)" and "fdb_ports (snd s)"
    and "\<And>n. n \<in> set ns \<Longrightarrow> br_get_port (snd s) n \<noteq> None"
    and "\<And>m. prev = Some m \<Longrightarrow> br_get_port (snd s) m \<noteq> None"
  shows "keeps (snd s) (snd (flood_walk jiffies ns prev skb s))"
  using assms
proof (induction ns arbitrary: prev s)
  case Nil
  show ?case
  proof (cases prev)
    case (Some m)
    with Nil.prems(4) [of m] obtain p where p: "br_get_port (snd s) m = Some p" by blast
    show ?thesis using Some keeps_send_frame [OF Nil.prems(1,2) p] by simp
  qed (simp add: on_bridge_def br_send_frame_error_def keeps_plain)
next
  case (Cons n ns)
  obtain p where p: "br_get_port (snd s) n = Some p" using Cons.prems(3) [of n] by auto
  obtain d g where d: "should_deliver p skb (fst s) = (d, g)" by (cases "should_deliver p skb (fst s)")
  note ok = Cons.prems(1,2)
  have ports: "\<And>n. n \<in> set ns \<Longrightarrow> br_get_port (snd s) n \<noteq> None" using Cons.prems(3) by simp
  consider "\<not> d" | "d" "prev = None" | m where "d" "prev = Some m" by blast
  then show ?case
  proof cases
    case 1
    then show ?thesis using Cons.IH [of "(g, snd s)" prev] ok ports Cons.prems(4) p d by simp
  next
    case 2
    then show ?thesis using Cons.IH [of "(g, snd s)" "Some n"] ok ports p d by simp
  next
    case (3 m)
    obtain q where q: "br_get_port (snd s) m = Some q" using Cons.prems(4) [OF 3(2)] by auto
    show ?thesis
    proof (cases "fst (alloc (snd s))")
      case False
      have "keeps (snd s) (emit e (tx_drop (snd (alloc (snd s)))))" for e
        by (blast intro: keeps_trans keeps_plain)
      then show ?thesis
        using p d 3 by (simp add: skb_clone_None [OF False] br_send_frame_error_def)
    next
      case True
      define br1 where "br1 = (snd (alloc (snd s)))\<lparr>next_skb := Suc (next_skb (snd s))\<rparr>"
      have 1: "keeps (snd s) br1" unfolding br1_def by (blast intro: keeps_trans keeps_plain)
      obtain q1 where q1: "br_get_port (snd (g, br1)) m = Some q1"
        using q keeps_get_port [OF 1, of m] by (cases "br_get_port br1 m") simp_all
      define s2 where "s2 = br_send_frame jiffies m (skb\<lparr>skb_id := next_skb (snd s)\<rparr>) (g, br1)"
      have "keeps br1 (snd s2)"
        unfolding s2_def using keeps_send_frame [OF _ _ q1] ok by (simp add: keeps_fdb [OF 1])
      then have 2: "keeps (snd s) (snd s2)" by (rule keeps_trans [OF 1])
      have "keeps (snd s2) (snd (flood_walk jiffies ns (Some n) skb s2))"
        using ok ports p by (intro Cons.IH) (simp_all add: keeps_fdb [OF 2] keeps_get_port [OF 2] del: not_None_eq)
      with 2 have "keeps (snd s) (snd (flood_walk jiffies ns (Some n) skb s2))" by (rule keeps_trans)
      moreover have "flood_walk jiffies (n # ns) prev skb s = flood_walk jiffies ns (Some n) skb s2"
        by (simp add: p d 3 skb_clone_Some [OF True] s2_def br1_def)
      ultimately show ?thesis by simp
    qed
  qed
qed

lemma keeps_flood:
  assumes "fdb_hashed (snd s)" and "fdb_ports (snd s)"
  shows "keeps (snd s) (snd (br_flood jiffies clone skb s))"
proof -
  have ports: "\<And>br n. n \<in> set (port_nos br) \<Longrightarrow> br_get_port br n \<noteq> None"
    by (simp only: br_get_port_None_iff not_not)
  have plain: "keeps (snd t) (snd (br_flood jiffies False skb t))"
    if "fdb_hashed (snd t)" "fdb_ports (snd t)" for t skb
    using keeps_flood_walk [OF that ports, of "port_nos (snd t)" None jiffies skb]
    by (simp add: br_flood_def)
  show ?thesis
  proof (cases "clone \<and> fst (alloc (snd s))")
    case True
    let ?br1 = "(snd (alloc (snd s)))\<lparr>next_skb := Suc (next_skb (snd s))\<rparr>"
    have 1: "keeps (snd s) ?br1" by (blast intro: keeps_trans keeps_plain)
    have "keeps ?br1 (snd (br_flood jiffies False (skb\<lparr>skb_id := next_skb (snd s)\<rparr>) (fst s, ?br1)))"
      using plain [of "(fst s, ?br1)"] assms by (simp add: keeps_fdb [OF 1])
    with True show ?thesis using keeps_trans [OF 1] by (simp add: br_flood_clone)
  next
    case False
    have "keeps (snd s) (emit e (tx_drop (snd (alloc (snd s)))))" for e
      by (blast intro: keeps_trans keeps_plain)
    with False plain [OF assms] show ?thesis
      by (cases clone) (simp_all add: br_flood_def skb_clone_None br_send_frame_error_def)
  qed
qed

lemma br_pass_frame_up_effect:
  "\<exists>e st. snd (br_pass_frame_up skb s) = emit e ((snd s)\<lparr>statistics := st\<rparr>) \<and> event_skb e = [skb_id skb]"
  by (simp add: br_pass_frame_up_def Let_def case_prod_beta eth_type_trans_def)
     (metis event_skb.simps(3,4))

lemma keeps_pass_frame_up: "keeps (snd s) (snd (br_pass_frame_up skb s))"
proof -
  obtain e st where "snd (br_pass_frame_up skb s) = emit e ((snd s)\<lparr>statistics := st\<rparr>)"
    using br_pass_frame_up_effect by blast
  then show ?thesis using keeps_trans [OF keeps_plain(3) keeps_plain(2)] by simp
qed

lemma br_pass_frame_up_handled:
  "handled (snd (br_pass_frame_up skb s)) = handled (snd s) @ [skb_id skb]"
  "next_skb (snd (br_pass_frame_up skb s)) = next_skb (snd s)"
proof -
  obtain e st where e: "snd (br_pass_frame_up skb s) = emit e ((snd s)\<lparr>statistics := st\<rparr>)"
    "event_skb e = [skb_id skb]"
    using br_pass_frame_up_effect by blast
  show "handled (snd (br_pass_frame_up skb s)) = handled (snd s) @ [skb_id skb]"
    unfolding e(1) handled_emit e(2) by (simp add: handled_def)
  show "next_skb (snd (br_pass_frame_up skb s)) = next_skb (snd s)"
    unfolding e(1) by simp
qed

section \<open>Reception and transmission as a whole\<close>

text \<open>The bridge after the source address of a frame has been learnt.\<close>

definition learn_source :: "u32 \<Rightarrow> nat \<Rightarrow> sk_buff \<Rightarrow> net_bridge \<Rightarrow> net_bridge" where
  "learn_source jiffies n skb br =
     (case br_get_port br n of
        None \<Rightarrow> br
      | Some p \<Rightarrow>
          if \<not> (skb_data skb ! 6 AND 1 \<noteq> 0) \<and> (p_state p = BR_STATE_LEARNING \<or> p_state p = BR_STATE_FORWARDING)
          then br_fdb_insert jiffies (Some n) (h_source (skb_data skb)) False br else br)"


text \<open>
  Using an entry while its reference is held: what is done to the bridge in between is kept, and the
  table is as it was.
\<close>

lemma keeps_with_reference:
  assumes "fdb_hashed br" and "br_fdb_get jiffies a br = (Some f, br')" and "keeps br' b"
  shows "keeps br (fdb_put_linked a b)"
proof -
  have "stp_key br' = stp_key br \<and> oopsed br' = oopsed br \<and> mfd br' = mfd br"
    using br_fdb_get_chain [OF assms(1,2)] by (elim exE conjE) (simp add: stp_key_def set_chain_def port_nos_def port_devs_def)
  then have "stp_key b = stp_key br" "oopsed b = oopsed br" "mfd b = mfd br"
    using assms(3) by (simp_all add: keeps_def)
  moreover have "fdb_put_linked a b = b\<lparr>hash := hash br\<rparr>"
    by (rule fdb_put_linked_same [OF assms(1,2) keeps_hash [OF assms(3)]])
  ultimately show ?thesis by (simp add: keeps_def stp_key_def port_devs_def port_nos_def)
qed

lemma fdb_ok_get:
  assumes "fdb_hashed br" and "br_fdb_get jiffies a br = (Some f, br')"
  shows "fdb_hashed br'" and "fdb_ports br \<Longrightarrow> fdb_ports br'" and "port_nos br' = port_nos br"
proof -
  show nos: "port_nos br' = port_nos br"
    using br_fdb_get_chain [OF assms] by (elim exE conjE) simp
  show "fdb_hashed br'"
    using assms(1) unfolding fdb_hashed_def by (intro fdb_all_get [OF assms]) simp_all
  show "fdb_ports br'" if "fdb_ports br"
    using that unfolding fdb_ports_def nos by (intro fdb_all_get [OF assms]) simp_all
qed

text \<open>Looking an address up and sending a frame to the port found.\<close>

lemma keeps_send_to_hit:
  assumes "fdb_hashed br" and "fdb_ports br" and "br_fdb_get jiffies a br = (Some f, br')"
  shows "keeps br (fdb_put_linked a (snd (case fdb_dst f of None \<Rightarrow> (g, fault br')
      | Some n \<Rightarrow> br_send_frame jiffies' n skb (g, br'))))"
proof -
  obtain n where n: "fdb_dst f = Some n" "n \<in> set (port_nos br)"
    using br_fdb_get_hit(1) [OF assms] by blast
  then obtain p where p: "br_get_port (snd (g, br')) n = Some p"
    using br_get_port_ex_iff [of br' n] fdb_ok_get(3) [OF assms(1,3)] by auto
  have "keeps br' (snd (br_send_frame jiffies' n skb (g, br')))"
    using keeps_send_frame [OF _ _ p] fdb_ok_get [OF assms(1,3)] assms(2) by simp
  from keeps_with_reference [OF assms(1,3) this] n(1) show ?thesis by simp
qed

lemma br_fdb_insert_frame2:
  "port_list (br_fdb_insert jiffies src a l br) = port_list br"
  "root_port (br_fdb_insert jiffies src a l br) = root_port br"
  "designated_root (br_fdb_insert jiffies src a l br) = designated_root br"
  "bridge_ident (br_fdb_insert jiffies src a l br) = bridge_ident br"
  "out (br_fdb_insert jiffies src a l br) = out br"
  "next_skb (br_fdb_insert jiffies src a l br) = next_skb br"
  by (simp_all add: br_fdb_insert_def Let_def case_prod_beta set_chain_def alloc_def
      split: option.split list.split)

lemma learn_source_frame:
  "port_list (learn_source jiffies n skb br) = port_list br"
  "oopsed (learn_source jiffies n skb br) = oopsed br"
  "root_port (learn_source jiffies n skb br) = root_port br"
  "designated_root (learn_source jiffies n skb br) = designated_root br"
  "bridge_ident (learn_source jiffies n skb br) = bridge_ident br"
  "out (learn_source jiffies n skb br) = out br"
  "next_skb (learn_source jiffies n skb br) = next_skb br"
  "mem br = [] \<Longrightarrow> mem (learn_source jiffies n skb br) = []"
  by (simp_all add: learn_source_def br_fdb_insert_frame2 br_fdb_insert_frame split: option.split)

lemma learn_source_derived:
  "port_nos (learn_source jiffies n skb br) = port_nos br"
  "handled (learn_source jiffies n skb br) = handled br"
  "root_ok (learn_source jiffies n skb br) \<longleftrightarrow> root_ok br"
  by (simp_all only: port_nos_def handled_def root_ok_def learn_source_frame)

lemma learn_source_fdb:
  "fdb_hashed br \<Longrightarrow> fdb_hashed (learn_source jiffies n skb br)"
  "fdb_ports br \<Longrightarrow> n \<in> set (port_nos br) \<Longrightarrow> fdb_ports (learn_source jiffies n skb br)"
  "fdb_unique br \<Longrightarrow> fdb_unique (learn_source jiffies n skb br)"
  by (simp_all add: learn_source_def fdb_hashed_insert fdb_ports_insert fdb_unique_insert split: option.split)

text \<open>The handler in terms of learning, flooding and lookup.\<close>

lemma handle_frame_eq:
  assumes "br_get_port (snd s) n = Some p"
  shows "handle_frame jiffies n skb s =
    (let dest = h_dest (skb_data skb);
         s1 = on_bridge (learn_source jiffies n skb) s
     in if skb_data skb ! 6 AND 1 \<noteq> 0 \<or> p_state p \<noteq> BR_STATE_FORWARDING
        then on_bridge (br_input_error skb) s1
        else if skb_data skb ! 0 AND 1 \<noteq> 0 then br_pass_frame_up skb (br_flood jiffies True skb s1)
        else
          (case br_fdb_get jiffies dest (snd s1) of
             (None, br) \<Rightarrow> br_flood jiffies False skb (fst s1, br)
           | (Some f, br) \<Rightarrow>
               on_bridge (fdb_put_linked dest)
                 (if is_local f then br_pass_frame_up skb (fst s1, br)
                  else (case fdb_dst f of None \<Rightarrow> (fst s1, fault br)
                        | Some m \<Rightarrow> br_send_frame jiffies m skb (fst s1, br)))))"
  using assms unfolding handle_frame_def Let_def learn_source_def
  by (simp only: option.case state_val_learning state_val_forwarding)
     (simp add: on_bridge_def split: prod.split option.split)

lemma keeps_handle_frame:
  assumes "fdb_hashed (snd s)" and "fdb_ports (snd s)" and "br_get_port (snd s) n = Some p"
  shows "keeps (learn_source jiffies n skb (snd s)) (snd (handle_frame jiffies n skb s))"
proof -
  define br1 where "br1 = learn_source jiffies n skb (snd s)"
  have n: "n \<in> set (port_nos (snd s))" using assms(3) br_get_port_ex_iff [of "snd s" n] by blast
  have ok: "fdb_hashed br1" "fdb_ports br1"
    unfolding br1_def using learn_source_fdb assms(1,2) n by simp_all
  have flood: "keeps br1 (snd (br_flood jiffies c skb (fst s, br1)))" for c
    using keeps_flood [of "(fst s, br1)"] ok by simp
  have up: "keeps br1 (snd (br_pass_frame_up skb (br_flood jiffies True skb (fst s, br1))))"
    by (rule keeps_trans [OF flood keeps_pass_frame_up])
  have err: "keeps br1 (br_input_error skb br1)" by (simp add: br_input_error_def keeps_plain)
  show ?thesis
  proof (cases "br_fdb_get jiffies (h_dest (skb_data skb)) br1")
    case (Pair f br')
    show ?thesis
    proof (cases f)
      case None
      with Pair have "br' = br1" by (simp add: br_fdb_get_miss)
      with Pair None flood up err show ?thesis
        unfolding handle_frame_eq [OF assms(3)] Let_def on_bridge_def fst_conv snd_conv br1_def [symmetric]
        by simp
    next
      case (Some e)
      have hit: "keeps br1 (fdb_put_linked (h_dest (skb_data skb)) (snd (case fdb_dst e of None \<Rightarrow> (fst s, fault br')
          | Some m \<Rightarrow> br_send_frame jiffies m skb (fst s, br'))))"
        by (rule keeps_send_to_hit [OF ok Pair [unfolded Some]])
      have loc: "keeps br1 (fdb_put_linked (h_dest (skb_data skb)) (snd (br_pass_frame_up skb (fst s, br'))))"
        using keeps_with_reference [OF ok(1) Pair [unfolded Some] keeps_pass_frame_up [of "(fst s, br')" skb, simplified]] .
      from Pair Some flood up err hit loc show ?thesis
        unfolding handle_frame_eq [OF assms(3)] Let_def on_bridge_def fst_conv snd_conv br1_def [symmetric]
        by simp
    qed
  qed
qed

section \<open>Every buffer leaves the bridge once\<close>

text \<open>Between \<open>a\<close> and \<open>b\<close> the buffer \<open>i\<close> and the buffers allocated meanwhile have left, once each.\<close>

definition released_once :: "nat \<Rightarrow> net_bridge \<Rightarrow> net_bridge \<Rightarrow> bool" where
  "released_once i a b \<longleftrightarrow> next_skb a \<le> next_skb b \<and>
     (\<exists>ids. handled b = handled a @ ids \<and> mset ids = mset (i # [next_skb a..<next_skb b]))"

lemma released_once_one: "handled b = handled a @ [i] \<Longrightarrow> next_skb b = next_skb a \<Longrightarrow> released_once i a b"
  by (simp add: released_once_def)

lemma released_once_io:
  "released_once i a b \<Longrightarrow> handled a' = handled a \<Longrightarrow> next_skb a' = next_skb a \<Longrightarrow>
     handled b' = handled b \<Longrightarrow> next_skb b' = next_skb b \<Longrightarrow> released_once i a' b'"
  by (simp add: released_once_def)

lemma released_once_flood: "released_once (skb_id skb) (snd s) (snd (br_flood jiffies False skb s))"
  unfolding released_once_def using br_flood_handled [where s = s and jiffies = jiffies and skb = skb] by simp

lemma released_once_send:
  assumes "br_get_port (snd s) n = Some p"
  shows "released_once (skb_id skb) (snd s) (snd (br_send_frame jiffies n skb s))"
  by (rule released_once_one [OF br_send_frame_handled [OF assms] br_send_frame_effect(3) [OF assms]])

lemma released_once_up: "released_once (skb_id skb) (snd s) (snd (br_pass_frame_up skb s))"
  by (rule released_once_one [OF br_pass_frame_up_handled])

lemma released_once_flood_up:
  assumes "fst (alloc (snd s))"
  shows "released_once (skb_id skb) (snd s) (snd (br_pass_frame_up skb (br_flood jiffies True skb s)))"
  unfolding released_once_def br_pass_frame_up_handled
  using br_flood_clone_handled [OF assms, of jiffies skb] by (simp add: upt_rec [of "next_skb (snd s)"])

lemma fdb_io:
  "handled (fdb_put_linked a br) = handled br" "next_skb (fdb_put_linked a br) = next_skb br"
  "br_fdb_get jiffies a br = (f, br') \<Longrightarrow> handled br' = handled br"
  "br_fdb_get jiffies a br = (f, br') \<Longrightarrow> next_skb br' = next_skb br"
  using handled_io [OF io_view_fdb_put_linked [of a br]] io_viewD(3) [OF io_view_fdb_put_linked [of a br]]
    handled_io [OF io_view_fdb_get [of jiffies a br]] io_viewD(3) [OF io_view_fdb_get [of jiffies a br]]
  by simp_all

lemma released_once_hit:
  assumes "fdb_hashed br" and "fdb_ports br" and "br_fdb_get jiffies a br = (Some f, br')"
  shows "released_once (skb_id skb) br (fdb_put_linked a (snd (case fdb_dst f of None \<Rightarrow> (g, fault br')
      | Some n \<Rightarrow> br_send_frame jiffies' n skb (g, br'))))"
proof -
  obtain n where n: "fdb_dst f = Some n" "n \<in> set (port_nos br)"
    using br_fdb_get_hit(1) [OF assms] by blast
  then obtain p where p: "br_get_port (snd (g, br')) n = Some p"
    using br_get_port_ex_iff [of br' n] fdb_ok_get(3) [OF assms(1,3)] by auto
  show ?thesis
    unfolding n(1) option.case
    by (rule released_once_io [OF released_once_send [OF p, of skb jiffies']])
       (use fdb_io(3,4) [OF assms(3)] in \<open>simp_all add: fdb_io(1,2)\<close>)
qed

lemma released_once_handle_frame:
  assumes "fdb_hashed (snd s)" and "fdb_ports (snd s)" and "br_get_port (snd s) n = Some p"
    and "mem (snd s) = []"
  shows "released_once (skb_id skb) (snd s) (snd (handle_frame jiffies n skb s))"
proof -
  define br1 where "br1 = learn_source jiffies n skb (snd s)"
  have n: "n \<in> set (port_nos (snd s))" using assms(3) br_get_port_ex_iff [of "snd s" n] by blast
  have ok: "fdb_hashed br1" "fdb_ports br1" "fst (alloc (snd (fst s, br1)))"
    unfolding br1_def using learn_source_fdb assms(1,2) n learn_source_frame(8) [OF assms(4)]
    by (simp_all add: alloc_def)
  note up = released_once_flood_up [OF ok(3), of skb jiffies]
  note flood = released_once_flood [of skb "(fst s, br1)" jiffies]
  have err: "released_once (skb_id skb) br1 (br_input_error skb br1)"
    by (simp add: br_input_error_def released_once_one)
  have "released_once (skb_id skb) br1 (snd (handle_frame jiffies n skb s))"
  proof (cases "br_fdb_get jiffies (h_dest (skb_data skb)) br1")
    case (Pair f br')
    show ?thesis
    proof (cases f)
      case None
      with Pair have "br' = br1" by (simp add: br_fdb_get_miss)
      with Pair None flood up err show ?thesis
        unfolding handle_frame_eq [OF assms(3)] Let_def on_bridge_def fst_conv snd_conv br1_def [symmetric]
        by simp
    next
      case (Some e)
      note hit = released_once_hit [OF ok(1,2) Pair [unfolded Some], of skb "fst s" jiffies]
      have loc: "released_once (skb_id skb) br1
          (fdb_put_linked (h_dest (skb_data skb)) (snd (br_pass_frame_up skb (fst s, br'))))"
        by (rule released_once_io [OF released_once_up [of skb "(fst s, br')"]])
           (use fdb_io(3,4) [OF Pair] in \<open>simp_all add: fdb_io(1,2)\<close>)
      from Pair Some flood up err hit loc show ?thesis
        unfolding handle_frame_eq [OF assms(3)] Let_def on_bridge_def fst_conv snd_conv br1_def [symmetric]
        by simp
    qed
  qed
  then show ?thesis
    by (rule released_once_io)
       (simp_all only: br1_def learn_source_derived learn_source_frame)
qed

text \<open>The transmit routine.\<close>

definition count_tx :: "sk_buff \<Rightarrow> net_bridge \<Rightarrow> net_bridge" where
  "count_tx skb br = br\<lparr>statistics := (statistics br)
     \<lparr>tx_packets := tx_packets (statistics br) + 1, tx_bytes := tx_bytes (statistics br) + skb_len skb\<rparr>\<rparr>"

lemma br_dev_xmit_eq:
  "br_dev_xmit jiffies skb s =
     (let dest = h_dest (skb_data skb);
          br1 = count_tx skb (snd s)
      in if skb_data skb ! 0 AND 1 \<noteq> 0 then br_flood jiffies False skb (fst s, br1)
         else
           (case br_fdb_get jiffies dest br1 of
              (None, br) \<Rightarrow> br_flood jiffies False skb (fst s, br)
            | (Some f, br) \<Rightarrow>
                (let t = (case fdb_dst f of None \<Rightarrow> (fst s, fault br)
                          | Some n \<Rightarrow> br_send_frame jiffies n skb (fst s, br))
                 in (fst t, fdb_put_linked dest (snd t)))))"
  unfolding br_dev_xmit_def Let_def on_bridge_def count_tx_def fst_conv snd_conv by (rule refl)

lemma count_tx_frame: "keeps br (count_tx skb br)" "handled (count_tx skb br) = handled br"
  "next_skb (count_tx skb br) = next_skb br"
  by (simp_all add: count_tx_def keeps_plain handled_def)

text \<open>One case analysis serves both facts about the transmit routine.\<close>

lemma br_dev_xmit_rule:
  assumes "fdb_hashed (snd s)" and "fdb_ports (snd s)"
    and "\<And>br1. fdb_hashed br1 \<Longrightarrow> fdb_ports br1 \<Longrightarrow> Q br1 (snd (br_flood jiffies False skb (fst s, br1)))"
    and "\<And>br1 a f br'. fdb_hashed br1 \<Longrightarrow> fdb_ports br1 \<Longrightarrow> br_fdb_get jiffies a br1 = (Some f, br') \<Longrightarrow>
      Q br1 (fdb_put_linked a (snd (case fdb_dst f of None \<Rightarrow> (fst s, fault br')
        | Some n \<Rightarrow> br_send_frame jiffies n skb (fst s, br'))))"
  shows "Q (count_tx skb (snd s)) (snd (br_dev_xmit jiffies skb s))"
proof -
  define br1 where "br1 = count_tx skb (snd s)"
  have ok: "fdb_hashed br1" "fdb_ports br1"
    unfolding br1_def using assms(1,2) keeps_fdb [OF count_tx_frame(1)] by simp_all
  note flood = assms(3) [OF ok]
  show ?thesis
  proof (cases "br_fdb_get jiffies (h_dest (skb_data skb)) br1")
    case (Pair f br')
    show ?thesis
    proof (cases f)
      case None
      with Pair have "br' = br1" by (simp add: br_fdb_get_miss)
      with Pair None flood show ?thesis
        unfolding br_dev_xmit_eq Let_def br1_def [symmetric] by simp
    next
      case (Some e)
      from Pair Some flood assms(4) [OF ok Pair [unfolded Some]] show ?thesis
        unfolding br_dev_xmit_eq Let_def br1_def [symmetric] by simp
    qed
  qed
qed

lemma keeps_dev_xmit:
  assumes "fdb_hashed (snd s)" and "fdb_ports (snd s)"
  shows "keeps (snd s) (snd (br_dev_xmit jiffies skb s))"
proof (rule keeps_trans [OF count_tx_frame(1)], rule br_dev_xmit_rule [OF assms])
  show "keeps br1 (snd (br_flood jiffies False skb (fst s, br1)))"
    if "fdb_hashed br1" "fdb_ports br1" for br1
    using keeps_flood [of "(fst s, br1)"] that by simp
qed (rule keeps_send_to_hit)

lemma released_once_dev_xmit:
  assumes "fdb_hashed (snd s)" and "fdb_ports (snd s)"
  shows "released_once (skb_id skb) (snd s) (snd (br_dev_xmit jiffies skb s))"
proof -
  have "released_once (skb_id skb) (count_tx skb (snd s)) (snd (br_dev_xmit jiffies skb s))"
  proof (rule br_dev_xmit_rule [OF assms])
    show "released_once (skb_id skb) br1 (snd (br_flood jiffies False skb (fst s, br1)))" for br1
      using released_once_flood [of skb "(fst s, br1)"] by simp
  qed (rule released_once_hit)
  then show ?thesis by (rule released_once_io) (simp_all add: count_tx_frame)
qed

end
