(* ===== verification/Br_Mfd_Table.thy ===== *)
theory Br_Mfd_Table
  imports Br_Fdb "HOL-Library.Monad_Syntax"
begin

text \<open>
  The table of multicast groups (br_mfd.c): a hash table of groups, each with a linked list of the
  ports that have members and a timer per port. The lists of ports are modelled as pointers, since
  what the removal of a port does depends on them: nodes and groups live in maps from addresses to
  records, an address that is not in its map has been freed, and following it gives \<open>None\<close>. The
  chains of the buckets are lists, as in Br_Fdb. Addresses are not used again after they are freed.
\<close>

section \<open>Initialisation\<close>

definition MULTICAST_FORWARDING_ENABLED :: s32 where
  "MULTICAST_FORWARDING_ENABLED = 1"

definition br_mfd_init :: "net_bridge \<Rightarrow> net_bridge" where
  "br_mfd_init br = br\<lparr>mc_forwarding := MULTICAST_FORWARDING_ENABLED\<rparr>"

section \<open>Groups\<close>

text \<open>
  A group address is a word as the little-endian processor loads it from the packet, so its low byte
  is the first octet of the address. The hash takes that byte four times.
\<close>

definition br_addr_hash :: "u32 \<Rightarrow> nat" where
  "br_addr_hash addr =
     (let b = (ucast (ucast addr :: u8) :: u32);
          x = b;
          x = push_bit 2 x XOR b;
          x = push_bit 2 x XOR b;
          x = push_bit 2 x XOR b;
          x = x XOR drop_bit 8 x
      in unat (x AND (of_nat BR_HASH_SIZE - 1)))"

text \<open>The loops run over a list of buckets or groups and stop at a bad pointer.\<close>

fun each :: "('a \<Rightarrow> 's \<Rightarrow> 's option) \<Rightarrow> 'a list \<Rightarrow> 's \<Rightarrow> 's option" where
  "each f [] s = Some s"
| "each f (x # xs) s = do { s \<leftarrow> f x s; each f xs s }"

text \<open>The walk of a chain to the group with a given address.\<close>

fun find_group :: "mfd_table \<Rightarrow> u32 \<Rightarrow> nat list \<Rightarrow> nat option option" where
  "find_group t grp [] = Some None"
| "find_group t grp (f # fs) =
     do { e \<leftarrow> mfd_ents t f;
          if mfd_addr e = grp then Some (Some f) else find_group t grp fs }"

definition br_mfd_get :: "mfd_table \<Rightarrow> u32 \<Rightarrow> nat option option" where
  "br_mfd_get t addr = find_group t addr (mfd_hash t (br_addr_hash addr))"

text \<open>
  The walk of a list of ports to the node of port \<open>p\<close>. A walk that visits more nodes than were ever
  allocated goes round in a circle and does not end; that is \<open>None\<close> too.
\<close>

fun find_node :: "nat \<Rightarrow> mfd_table \<Rightarrow> nat \<Rightarrow> nat option \<Rightarrow> nat option option" where
  "find_node 0 t p pnode = None"
| "find_node (Suc k) t p None = Some None"
| "find_node (Suc k) t p (Some a) =
     do { nd \<leftarrow> mfd_nodes t a;
          if pl_dst nd = p then Some (Some a) else find_node k t p (pl_next nd) }"

definition visits :: "mfd_table \<Rightarrow> nat" where
  "visits t = Suc (mfd_fresh t)"

text \<open>All nodes of a list, in order.\<close>

fun walk_nodes :: "nat \<Rightarrow> mfd_table \<Rightarrow> nat option \<Rightarrow> nat list option" where
  "walk_nodes 0 t pnode = None"
| "walk_nodes (Suc k) t None = Some []"
| "walk_nodes (Suc k) t (Some a) =
     do { nd \<leftarrow> mfd_nodes t a;
          as \<leftarrow> walk_nodes k t (pl_next nd);
          Some (a # as) }"

section \<open>Changing the lists\<close>

definition upd_node :: "nat \<Rightarrow> (port_node \<Rightarrow> port_node) \<Rightarrow> mfd_table \<Rightarrow> mfd_table option" where
  "upd_node a f t =
     do { nd \<leftarrow> mfd_nodes t a;
          Some (t\<lparr>mfd_nodes := (mfd_nodes t)(a \<mapsto> f nd)\<rparr>) }"

definition upd_ent :: "nat \<Rightarrow> (net_bridge_mfd_entry \<Rightarrow> net_bridge_mfd_entry) \<Rightarrow> mfd_table \<Rightarrow> mfd_table option" where
  "upd_ent f g t =
     do { e \<leftarrow> mfd_ents t f;
          Some (t\<lparr>mfd_ents := (mfd_ents t)(f \<mapsto> g e)\<rparr>) }"

definition kfree_node :: "nat \<Rightarrow> mfd_table \<Rightarrow> mfd_table" where
  "kfree_node a t = t\<lparr>mfd_nodes := (mfd_nodes t)(a := None)\<rparr>"

text \<open>\<^verbatim>\<open>__mfd_hash_unlink\<close> and the release of the group.\<close>

definition mfd_unlink_free :: "nat \<Rightarrow> mfd_table \<Rightarrow> mfd_table" where
  "mfd_unlink_free f t =
     t\<lparr>mfd_hash := (\<lambda>i. remove1 f (mfd_hash t i)), mfd_ents := (mfd_ents t)(f := None)\<rparr>"

text \<open>
  Taking out the node \<open>a\<close> of group \<open>f\<close>: its predecessor, or the head of the group's list when there
  is none, is set to the successor, the node is freed and the count goes down. The result says
  whether the count reached zero, in which case the group is freed too.
\<close>

definition remove_node ::
    "nat \<Rightarrow> nat \<Rightarrow> nat option \<Rightarrow> nat option \<Rightarrow> mfd_table \<Rightarrow> (bool \<times> mfd_table) option" where
  "remove_node f a succ prev t =
     do { t \<leftarrow> (case prev of
                 Some b \<Rightarrow> upd_node b (\<lambda>nd. nd\<lparr>pl_next := succ\<rparr>) t
               | None \<Rightarrow> upd_ent f (\<lambda>e. e\<lparr>plist := succ\<rparr>) t);
          let t = kfree_node a t;
          t \<leftarrow> upd_ent f (\<lambda>e. e\<lparr>port_count := port_count e - 1\<rparr>) t;
          e \<leftarrow> mfd_ents t f;
          Some (if port_count e = 0 then (True, mfd_unlink_free f t) else (False, t)) }"

text \<open>
  The inner loop of \<^verbatim>\<open>br_mfd_delete_port\<close> and \<^verbatim>\<open>br_mfd_delete_port_from_group\<close>: it stops at the first
  node of the port. The variable \<^verbatim>\<open>prev_pnode\<close> is part of the result: it keeps its value from one
  group to the next.
\<close>

fun delete_walk ::
    "nat \<Rightarrow> nat \<Rightarrow> nat \<Rightarrow> nat option \<Rightarrow> nat option \<times> mfd_table \<Rightarrow> (nat option \<times> mfd_table) option" where
  "delete_walk 0 p f pnode s = None"
| "delete_walk (Suc k) p f None s = Some s"
| "delete_walk (Suc k) p f (Some a) (prev, t) =
     do { nd \<leftarrow> mfd_nodes t a;
          if pl_dst nd = p
          then do { (last, t) \<leftarrow> remove_node f a (pl_next nd) prev t; Some (prev, t) }
          else delete_walk k p f (pl_next nd) (Some a, t) }"

definition br_mfd_delete_port :: "nat \<Rightarrow> mfd_table \<Rightarrow> mfd_table option" where
  "br_mfd_delete_port p t =
     map_option snd
       (each (\<lambda>i s. each (\<lambda>f (prev, t). do { e \<leftarrow> mfd_ents t f;
                                            delete_walk (visits t) p f (plist e) (prev, t) })
                      (mfd_hash (snd s) i) s)
         [0..<BR_HASH_SIZE] (None, t))"

definition br_mfd_delete_port_from_group :: "nat \<Rightarrow> u32 \<Rightarrow> mfd_table \<Rightarrow> mfd_table option" where
  "br_mfd_delete_port_from_group p grp t =
     map_option snd
       (each (\<lambda>i (prev, t).
                do { found \<leftarrow> find_group t grp (mfd_hash t i);
                     case found of
                       None \<Rightarrow> Some (prev, t)
                     | Some f \<Rightarrow> do { e \<leftarrow> mfd_ents t f;
                                      delete_walk (visits t) p f (plist e) (prev, t) } })
         [0..<BR_HASH_SIZE] (None, t))"

text \<open>
  The inner loop of \<^verbatim>\<open>br_mfd_delete_v1_ports\<close> takes out every port of a version 1 member and leaves the
  group when it has been freed.
\<close>

fun delete_v1_walk ::
    "nat \<Rightarrow> nat \<Rightarrow> nat option \<Rightarrow> nat option \<times> mfd_table \<Rightarrow> (nat option \<times> mfd_table) option" where
  "delete_v1_walk 0 f pnode s = None"
| "delete_v1_walk (Suc k) f None s = Some s"
| "delete_v1_walk (Suc k) f (Some a) (prev, t) =
     do { nd \<leftarrow> mfd_nodes t a;
          if vinfo nd
          then do { (last, t) \<leftarrow> remove_node f a (pl_next nd) prev t;
                    if last then Some (prev, t) else delete_v1_walk k f (pl_next nd) (prev, t) }
          else delete_v1_walk k f (pl_next nd) (Some a, t) }"

definition br_mfd_delete_v1_ports :: "mfd_table \<Rightarrow> mfd_table option" where
  "br_mfd_delete_v1_ports t =
     map_option snd
       (each (\<lambda>i s. each (\<lambda>f (prev, t). do { e \<leftarrow> mfd_ents t f;
                                            delete_v1_walk (visits t) f (plist e) (prev, t) })
                      (mfd_hash (snd s) i) s)
         [0..<BR_HASH_SIZE] (None, t))"

fun free_nodes :: "nat \<Rightarrow> nat option \<Rightarrow> mfd_table \<Rightarrow> mfd_table option" where
  "free_nodes 0 pnode t = None"
| "free_nodes (Suc k) None t = Some t"
| "free_nodes (Suc k) (Some a) t =
     do { nd \<leftarrow> mfd_nodes t a; free_nodes k (pl_next nd) (kfree_node a t) }"

definition br_mfd_delete_all_ports :: "nat \<Rightarrow> mfd_table \<Rightarrow> mfd_table option" where
  "br_mfd_delete_all_ports f t =
     do { e \<leftarrow> mfd_ents t f;
          t \<leftarrow> free_nodes (visits t) (plist e) t;
          upd_ent f (\<lambda>e. e\<lparr>port_count := 0, plist := None\<rparr>) t }"

definition br_mfd_cleanup :: "mfd_table \<Rightarrow> mfd_table option" where
  "br_mfd_cleanup t =
     each (\<lambda>i t. each (\<lambda>f t. do { t \<leftarrow> br_mfd_delete_all_ports f t; Some (mfd_unlink_free f t) })
                   (mfd_hash t i) t)
       [0..<BR_HASH_SIZE] t"

section \<open>Timers\<close>

definition DEFAULT_LEAVE_TIMER :: nat where "DEFAULT_LEAVE_TIMER = 3"
definition DEFAULT_QUERY_RESPONSE_INTERVAL :: nat where "DEFAULT_QUERY_RESPONSE_INTERVAL = 10"
definition DEFAULT_GROUP_MEMBERSHIP_TIMER :: nat where
  "DEFAULT_GROUP_MEMBERSHIP_TIMER = 2 * 125 + DEFAULT_QUERY_RESPONSE_INTERVAL * 10"

text \<open>A pending timer is an entry of \<open>mc_timers\<close>; freeing a node does not take its timer away.\<close>

definition mc_add_timer :: "nat \<Rightarrow> u32 \<Rightarrow> mfd_table \<Rightarrow> mfd_table" where
  "mc_add_timer a expires t = t\<lparr>mc_timers := (mc_timers t)(a \<mapsto> expires)\<rparr>"

text \<open>
  \<^verbatim>\<open>br_membership_timer_expired\<close>, when the timer of node \<open>a\<close> fires: the timer is no longer pending, and
  the node and its group are read.
\<close>

definition br_membership_timer_expired :: "nat \<Rightarrow> mfd_table \<Rightarrow> mfd_table option" where
  "br_membership_timer_expired a t =
     do { let t = t\<lparr>mc_timers := (mc_timers t)(a := None)\<rparr>;
          pnode \<leftarrow> mfd_nodes t a;
          e \<leftarrow> mfd_ents t (pl_mfd pnode);
          br_mfd_delete_port_from_group (pl_dst pnode) (mfd_addr e) t }"

definition br_leave_report_received :: "u32 \<Rightarrow> nat \<Rightarrow> u32 \<Rightarrow> mfd_table \<Rightarrow> mfd_table option" where
  "br_leave_report_received jiffies p grp t =
     each (\<lambda>i t.
             do { found \<leftarrow> find_group t grp (mfd_hash t i);
                  case found of
                    None \<Rightarrow> Some t
                  | Some f \<Rightarrow>
                      do { e \<leftarrow> mfd_ents t f;
                           pnode \<leftarrow> find_node (visits t) t p (plist e);
                           Some (case pnode of
                                   None \<Rightarrow> t
                                 | Some a \<Rightarrow> mc_add_timer a (jiffies + of_nat (DEFAULT_LEAVE_TIMER * HZ)) t) } })
       [0..<BR_HASH_SIZE] t"

section \<open>Reports and queries\<close>

definition IGMP_MEMBERSHIP_QUERY :: u8 where "IGMP_MEMBERSHIP_QUERY = 0x11"
definition IGMP_V1_MEMBERSHIP_REPORT :: u8 where "IGMP_V1_MEMBERSHIP_REPORT = 0x12"
definition IGMP_V2_MEMBERSHIP_REPORT :: u8 where "IGMP_V2_MEMBERSHIP_REPORT = 0x16"
definition IGMP_V3_MEMBERSHIP_REPORT :: u8 where "IGMP_V3_MEMBERSHIP_REPORT = 0x22"
definition IGMP_LEAVE_GROUP :: u8 where "IGMP_LEAVE_GROUP = 0x17"

definition membership_expires :: "u32 \<Rightarrow> u32" where
  "membership_expires jiffies = jiffies + of_nat (DEFAULT_GROUP_MEMBERSHIP_TIMER * HZ)"

text \<open>
  The two ways \<^verbatim>\<open>__mfd_insert_port\<close> changes the table: the port has a node already, or it gets a new one
  at the head of the list.
\<close>

definition refresh_node :: "u32 \<Rightarrow> u8 \<Rightarrow> nat \<Rightarrow> mfd_table \<Rightarrow> mfd_table option" where
  "refresh_node jiffies type a t =
     do { t \<leftarrow> upd_node a (\<lambda>p. if \<not> vinfo p \<and> type = IGMP_V1_MEMBERSHIP_REPORT then p\<lparr>vinfo := True\<rparr> else p) t;
          let t = mc_add_timer a (membership_expires jiffies) t;
          upd_node a (\<lambda>p. p\<lparr>dont_forward_report := False\<rparr>) t }"

definition add_node :: "u32 \<Rightarrow> u8 \<Rightarrow> nat \<Rightarrow> nat \<Rightarrow> mfd_table \<Rightarrow> mfd_table option" where
  "add_node jiffies type f source t =
     do { e \<leftarrow> mfd_ents t f;
          let a = mfd_fresh t;
          let nd = \<lparr>pl_next = plist e, pl_mfd = f, pl_dst = source,
                   vinfo = (type = IGMP_V1_MEMBERSHIP_REPORT), dont_forward_report = False\<rparr>;
          let t = mc_add_timer a (membership_expires jiffies) (t\<lparr>mfd_nodes := (mfd_nodes t)(a \<mapsto> nd), mfd_fresh := a + 1\<rparr>);
          upd_ent f (\<lambda>e. e\<lparr>plist := Some a, port_count := port_count e + 1\<rparr>) t }"

text \<open>A new group, allocated but not yet on a chain, and \<^verbatim>\<open>__mfd_hash_link\<close>.\<close>

definition new_group :: "u32 \<Rightarrow> mfd_table \<Rightarrow> nat \<times> mfd_table" where
  "new_group addr t =
     (mfd_fresh t, t\<lparr>mfd_ents := (mfd_ents t)(mfd_fresh t \<mapsto> \<lparr>port_count = 0, mfd_addr = addr, plist = None\<rparr>),
                    mfd_fresh := mfd_fresh t + 1\<rparr>)"

definition mfd_hash_link :: "nat \<Rightarrow> nat \<Rightarrow> mfd_table \<Rightarrow> mfd_table" where
  "mfd_hash_link f h t = t\<lparr>mfd_hash := (mfd_hash t)(h := f # mfd_hash t h)\<rparr>"

text \<open>
  \<^verbatim>\<open>br_dont_forward_report\<close>: \<open>index\<close> gives the interface index of a port, \<open>None\<close> when the port has been
  freed.
\<close>

fun mark_walk :: "(nat \<Rightarrow> nat option) \<Rightarrow> int \<Rightarrow> nat \<Rightarrow> nat option \<Rightarrow> mfd_table \<Rightarrow> mfd_table option" where
  "mark_walk index exclude 0 pnode t = None"
| "mark_walk index exclude (Suc k) None t = Some t"
| "mark_walk index exclude (Suc k) (Some a) t =
     do { nd \<leftarrow> mfd_nodes t a;
          i \<leftarrow> index (pl_dst nd);
          t \<leftarrow> (if int i \<noteq> exclude then upd_node a (\<lambda>p. p\<lparr>dont_forward_report := True\<rparr>) t else Some t);
          mark_walk index exclude k (pl_next nd) t }"

definition mark_group :: "(nat \<Rightarrow> nat option) \<Rightarrow> int \<Rightarrow> nat \<Rightarrow> mfd_table \<Rightarrow> mfd_table option" where
  "mark_group index exclude f t =
     do { e \<leftarrow> mfd_ents t f; mark_walk index exclude (visits t) (plist e) t }"

definition br_dont_forward_report :: "(nat \<Rightarrow> nat option) \<Rightarrow> u32 \<Rightarrow> int \<Rightarrow> mfd_table \<Rightarrow> mfd_table option" where
  "br_dont_forward_report index grp exclude t =
     (if grp = 0
      then each (\<lambda>i t. each (mark_group index exclude) (mfd_hash t i) t) [0..<BR_HASH_SIZE] t
      else do { found \<leftarrow> br_mfd_get t grp;
                case found of None \<Rightarrow> Some t | Some f \<Rightarrow> mark_group index exclude f t })"

section \<open>Display\<close>

record mfd_record =
  grp_addr :: u32
  no_ports :: u8
  mr_port_list :: "u8 list"
  mr_vinfo_list :: "u8 list"

definition MAX_MCGRP_MEMBERS :: nat where
  "MAX_MCGRP_MEMBERS = 256"

text \<open>
  \<^verbatim>\<open>copy_mfd\<close>. The two arrays of the record have room for 256 members; a longer list would be written
  behind them.
\<close>

fun copy_walk ::
    "(nat \<Rightarrow> nat option) \<Rightarrow> nat \<Rightarrow> mfd_table \<Rightarrow> nat option \<Rightarrow> mfd_record \<Rightarrow> mfd_record option" where
  "copy_walk index 0 t pnode ent = None"
| "copy_walk index (Suc k) t None ent = Some (ent\<lparr>no_ports := of_nat (length (mr_port_list ent))\<rparr>)"
| "copy_walk index (Suc k) t (Some a) ent =
     do { nd \<leftarrow> mfd_nodes t a;
          i \<leftarrow> index (pl_dst nd);
          if length (mr_port_list ent) \<ge> MAX_MCGRP_MEMBERS then None
          else copy_walk index k t (pl_next nd)
                 (ent\<lparr>mr_port_list := mr_port_list ent @ [of_nat i],
                      mr_vinfo_list := mr_vinfo_list ent @ [if vinfo nd then 1 else 0]\<rparr>) }"

definition copy_mfd :: "(nat \<Rightarrow> nat option) \<Rightarrow> mfd_table \<Rightarrow> nat \<Rightarrow> mfd_record option" where
  "copy_mfd index t f =
     do { e \<leftarrow> mfd_ents t f;
          copy_walk index (visits t) t (plist e)
            \<lparr>grp_addr = mfd_addr e, no_ports = 0, mr_port_list = [], mr_vinfo_list = []\<rparr> }"

text \<open>
  \<^verbatim>\<open>br_mfd_get_entries\<close>: all groups, or the error that ends the walk. \<open>copy\<close> tells the outcome of the
  n-th copy to the caller, during which the lock is not held.
\<close>

fun mfd_walk ::
    "(nat \<Rightarrow> copy_outcome) \<Rightarrow> (nat \<Rightarrow> nat option) \<Rightarrow> mfd_table \<Rightarrow> nat list \<Rightarrow> mfd_record list
       \<Rightarrow> (errno + mfd_record list) option" where
  "mfd_walk copy index t [] walk = Some (Inr walk)"
| "mfd_walk copy index t (f # fs) walk =
     do { ent \<leftarrow> copy_mfd index t f;
          case copy (length walk) of
            Copy_fault \<Rightarrow> Some (Inl EFAULT)
          | Copy_unlinked \<Rightarrow> Some (Inl EAGAIN)
          | Copied \<Rightarrow> mfd_walk copy index t fs (walk @ [ent]) }"

definition br_mfd_get_entries ::
    "(nat \<Rightarrow> copy_outcome) \<Rightarrow> (nat \<Rightarrow> nat option) \<Rightarrow> mfd_table \<Rightarrow> (errno + mfd_record list) option" where
  "br_mfd_get_entries copy index t = mfd_walk copy index t (concat (map (mfd_hash t) [0..<BR_HASH_SIZE])) []"

section \<open>The empty table\<close>

lemma each_id: "(\<And>x. x \<in> set xs \<Longrightarrow> f x s = Some s) \<Longrightarrow> each f xs s = Some s"
  by (induction xs) auto

lemma empty_mfd_simps [simp]:
  "mfd_hash empty_mfd i = []" "mfd_ents empty_mfd f = None" "mfd_nodes empty_mfd a = None" "mc_timers empty_mfd a = None"
  by (simp_all add: empty_mfd_def)

lemma delete_from_empty [simp]:
  "br_mfd_delete_port n empty_mfd = Some empty_mfd"
  "br_mfd_delete_v1_ports empty_mfd = Some empty_mfd"
  "br_mfd_get_entries copy index empty_mfd = Some (Inr [])"
proof -
  have "concat (map (mfd_hash empty_mfd) is) = []" for "is" by (simp add: empty_mfd_def)
  then show "br_mfd_get_entries copy index empty_mfd = Some (Inr [])"
    by (simp only: br_mfd_get_entries_def mfd_walk.simps)
qed (simp_all add: br_mfd_delete_port_def br_mfd_delete_v1_ports_def each_id)

lemma on_mfd_empty: "mfd br = empty_mfd \<Longrightarrow> f empty_mfd = Some empty_mfd \<Longrightarrow> on_mfd f br = br"
  by (simp add: on_mfd_def)

end
