(* ===== verification/Br_Netdev.thy ===== *)
theory Br_Netdev
  imports Br_Proc
begin

text \<open>
  The registration of a network device as a bridge goes through it (net/core/dev.c, drivers/net/net_init.c):
  the name, which may be a pattern, the interface index and the list of devices. The list is an argument, as the
  test whether it has a device of a name or of an index; the devices registered here have no \<^verbatim>\<open>init\<close> function,
  and the messages to user space (\<^verbatim>\<open>/sbin/hotplug\<close>) are left out.
\<close>

definition IFNAMSIZ :: nat where "IFNAMSIZ = 16"

definition EINVAL :: int where "EINVAL = 22"
definition EEXIST :: int where "EEXIST = 17"
definition ENFILE :: int where "ENFILE = 23"

section \<open>Names\<close>

text \<open>The format of a name, with \<^verbatim>\<open>%d\<close> as its only conversion, into a buffer of the given size.\<close>

fun expand_d :: "nat \<Rightarrow> string \<Rightarrow> string" where
  "expand_d i [] = []"
| "expand_d i (c # s) =
     (if c = CHR ''%'' \<and> s \<noteq> [] \<and> hd s = CHR ''d'' then fmt_i 0 1 (int i) @ expand_d i (tl s)
      else c # expand_d i s)"

definition snprintf_d :: "nat \<Rightarrow> string \<Rightarrow> nat \<Rightarrow> string" where
  "snprintf_d n name i = take (n - 1) (expand_d i name)"

text \<open>The device keeps its name when no name is found.\<close>

definition dev_alloc_name :: "(string \<Rightarrow> bool) \<Rightarrow> string \<Rightarrow> net_device \<Rightarrow> int \<times> net_device" where
  "dev_alloc_name dev_exists name dev =
     (let p = dropWhile (\<lambda>c. c \<noteq> CHR ''%'') name
      in if p \<noteq> [] \<and> (length p < 2 \<or> p ! 1 \<noteq> CHR ''d'' \<or> CHR ''%'' \<in> set (drop 2 p)) then (- EINVAL, dev)
         else
           (case find (\<lambda>i. \<not> dev_exists (snprintf_d 32 name i)) [0..<100] of
              Some i \<Rightarrow> (int i, dev\<lparr>dev_name := snprintf_d 32 name i\<rparr>)
            | None \<Rightarrow> (- ENFILE, dev)))"

section \<open>Indices\<close>

text \<open>
  The static counter \<^verbatim>\<open>ifindex\<close> before the call; the result, which is also the counter afterwards, or \<open>None\<close>
  when the loop finds no free index and does not end.
\<close>

partial_function (option) dev_new_index :: "(nat \<Rightarrow> bool) \<Rightarrow> s32 \<Rightarrow> s32 option" where
  "dev_new_index used ifidx =
     (let next = (if sint (ifidx + 1) \<le> 0 then 1 else ifidx + 1)
      in if \<not> used (unat next) then Some next else dev_new_index used next)"

section \<open>Registration\<close>

text \<open>
  \<open>idx\<close> is what \<^verbatim>\<open>dev_new_index\<close> gives. The names compared have less than 16 characters, so that the lookup by
  name, which compares 16, finds the same as \<^verbatim>\<open>strcmp\<close>.
\<close>

definition register_netdevice :: "(string \<Rightarrow> bool) \<Rightarrow> nat \<Rightarrow> net_device \<Rightarrow> int \<times> net_device" where
  "register_netdevice dev_exists idx dev =
     (let dev = dev\<lparr>unused_alignment_fixer := ucast (dev_mtu dev), ifindex := idx\<rparr>
      in if dev_exists (dev_name dev) then (- EEXIST, dev)
         else (0, dev\<lparr>dev_listed := True, dev_refcnt := dev_refcnt dev + 1\<rparr>))"

definition register_netdev :: "(string \<Rightarrow> bool) \<Rightarrow> nat \<Rightarrow> net_device \<Rightarrow> int \<times> net_device" where
  "register_netdev dev_exists idx dev =
     (let (err, dev) = (if CHR ''%'' \<in> set (dev_name dev) then dev_alloc_name dev_exists (dev_name dev) dev else (0, dev))
      in if err < 0 then (err, dev)
         else
           (let (err, dev) = (if dev_name dev = [] \<or> hd (dev_name dev) = CHR '' ''
                              then dev_alloc_name dev_exists ''eth%d'' dev else (0, dev))
            in if err < 0 then (err, dev) else register_netdevice dev_exists idx dev))"

section \<open>Properties\<close>

text \<open>A name that is neither a pattern nor one of the two forms that ask for a name.\<close>

definition plain_name :: "string \<Rightarrow> bool" where
  "plain_name s \<longleftrightarrow> CHR ''%'' \<notin> set s \<and> s \<noteq> [] \<and> hd s \<noteq> CHR '' ''"

lemma register_plain:
  "plain_name (dev_name dev) \<Longrightarrow> register_netdev dev_exists idx dev = register_netdevice dev_exists idx dev"
  by (simp add: register_netdev_def plain_name_def)

lemma dev_alloc_name_free:
  assumes "dev_alloc_name ex name dev = (r, dev')" "0 \<le> r"
  shows "\<not> ex (dev_name dev')" "r < 100" "dev' = dev\<lparr>dev_name := snprintf_d 32 name (nat r)\<rparr>"
  using assms
  by (auto simp: dev_alloc_name_def Let_def EINVAL_def ENFILE_def find_Some_iff split: if_splits option.splits)

lemma digits_short:
  assumes "n < 10 ^ k" "0 < k"
  shows "length (digits 10 n) \<le> k"
  using assms
proof (induction k arbitrary: n)
  case (Suc k)
  show ?case
  proof (cases "n < 10")
    case False
    then have "0 < k" using Suc.prems by (cases k) auto
    moreover have "n div 10 < 10 ^ k" using Suc.prems(1) by (simp add: less_mult_imp_div_less mult.commute)
    ultimately show ?thesis using Suc.IH [of "n div 10"] False by (simp add: digits.simps [of 10 n])
  qed (simp add: digits.simps [of 10 n])
qed simp

lemma length_expand_d: "i < 100 \<Longrightarrow> length (expand_d i s) \<le> length s"
proof (induction i s rule: expand_d.induct)
  case (2 i c s)
  show ?case
  proof (cases "c = CHR ''%'' \<and> s \<noteq> [] \<and> hd s = CHR ''d''")
    case True
    then have "length (expand_d i (tl s)) \<le> length s - 1" using 2 by simp
    moreover have "length (fmt_i 0 1 (int i)) \<le> 2"
      using digits_short [of i 2] digits_nonempty [of 10 i] 2(3)
      by (cases "digits 10 i") (simp_all add: fmt_i_def pad_def power2_eq_square)
    ultimately show ?thesis using True by (cases s) auto
  next
    case False
    then show ?thesis using 2 by auto
  qed
qed simp

text \<open>The name that is found fits into the field whenever the pattern does.\<close>

lemma dev_alloc_name_fits:
  assumes "dev_alloc_name ex name dev = (r, dev')" "0 \<le> r"
  shows "length (dev_name dev') \<le> length name"
proof -
  have "length (expand_d (nat r) name) \<le> length name"
    by (rule length_expand_d) (use dev_alloc_name_free(2) [OF assms] assms(2) in linarith)
  then show ?thesis using dev_alloc_name_free(3) [OF assms] by (simp add: snprintf_d_def)
qed

lemma register_netdev_listed:
  assumes "register_netdev ex idx dev = (r, dev')" "\<not> dev_listed dev"
  shows "dev_listed dev' \<longleftrightarrow> r = 0"
  using assms dev_alloc_name_free(3) [of ex]
  by (auto simp: register_netdev_def register_netdevice_def dev_alloc_name_def Let_def EINVAL_def ENFILE_def EEXIST_def
      split: if_splits option.splits)

section \<open>The next index\<close>

lemma dev_new_index_fresh:
  assumes "dev_new_index used c = Some i"
  shows "0 < sint i" "\<not> used (unat i)"
proof -
  define P where "P = (\<lambda>(used :: nat \<Rightarrow> bool) (c :: s32) (i :: s32). 0 < sint i \<and> \<not> used (unat i))"
  have "P used c i"
    by (rule dev_new_index.raw_induct [of P, OF _ assms]) (auto simp: P_def Let_def split: if_splits)
  then show "0 < sint i" "\<not> used (unat i)" by (simp_all add: P_def)
qed

text \<open>One round of the loop: the next value after a counter, and the round that stops.\<close>

definition next_index :: "int \<Rightarrow> int" where
  "next_index v = (if v + 1 < 2 ^ 31 \<and> 0 < v + 1 then v + 1 else 1)"

lemma sint_next_index:
  "sint (if sint (c + 1) \<le> 0 then 1 else c + 1 :: s32) = next_index (sint c)"
proof -
  have c: "- (2 ^ 31) \<le> sint c" "sint c < 2 ^ 31"
    using sint_ge [of c] sint_lt [of c] by simp_all
  have s: "sint (c + 1) = (sint c + 1 + 2 ^ 31) mod 2 ^ 32 - 2 ^ 31"
    by (simp add: sint_word_ariths signed_take_bit_eq_take_bit_shift take_bit_eq_mod)
  have "sint (c + 1) = (if sint c + 1 < 2 ^ 31 then sint c + 1 else - (2 ^ 31))"
  proof (cases "sint c + 1 < 2 ^ 31")
    case True
    then show ?thesis using c s by (simp add: mod_pos_pos_trivial)
  next
    case False
    then have "sint c + 1 + 2 ^ 31 = 2 ^ 32" using c by simp
    then show ?thesis using s False by simp
  qed
  with c show ?thesis by (simp add: next_index_def)
qed

lemma dev_new_index_round:
  obtains c' where "sint c' = next_index (sint c)" "unat c' = nat (next_index (sint c))"
    "dev_new_index used c = (if used (unat c') then dev_new_index used c' else Some c')"
proof
  let ?c = "if sint (c + 1) \<le> 0 then 1 else c + 1 :: s32"
  show s: "sint ?c = next_index (sint c)" by (rule sint_next_index)
  have "0 < next_index (sint c)" by (simp add: next_index_def)
  then have "uint ?c = sint ?c"
    using uint_sint [of ?c] sint_lt [of ?c] unfolding s [symmetric] by (simp add: take_bit_int_eq_self del: sint_lt)
  then show "unat ?c = nat (next_index (sint c))" unfolding s [symmetric] by (metis unat_eq_nat_uint)
  show "dev_new_index used c = (if used (unat ?c) then dev_new_index used ?c else Some ?c)"
    by (subst dev_new_index.simps) (simp add: Let_def)
qed

lemma dev_new_index_up:
  assumes "\<not> used (nat j)" "0 \<le> sint c" "sint c < j" "j < 2 ^ 31"
  shows "\<exists>i. dev_new_index used c = Some i"
  using assms
proof (induction "nat (j - sint c)" arbitrary: c rule: less_induct)
  case less
  obtain c' where c': "sint c' = next_index (sint c)" "unat c' = nat (next_index (sint c))"
    "dev_new_index used c = (if used (unat c') then dev_new_index used c' else Some c')"
    by (rule dev_new_index_round)
  have n: "next_index (sint c) = sint c + 1" using less.prems by (simp add: next_index_def)
  show ?case
  proof (cases "used (unat c')")
    case True
    then have "sint c + 1 \<noteq> j" using c'(2) n less.prems(1) by auto
    then have "\<exists>i. dev_new_index used c' = Some i"
      using less.prems c'(1) n by (intro less.hyps) simp_all
    with True c'(3) show ?thesis by simp
  qed (simp add: c'(3))
qed

lemma dev_new_index_wraps:
  assumes "\<not> used (nat j)" "0 < j" "j < 2 ^ 31" "next_index (sint c) = 1"
  shows "\<exists>i. dev_new_index used c = Some i"
proof -
  obtain c' where c': "sint c' = next_index (sint c)" "unat c' = nat (next_index (sint c))"
    "dev_new_index used c = (if used (unat c') then dev_new_index used c' else Some c')"
    by (rule dev_new_index_round)
  show ?thesis
  proof (cases "used (unat c')")
    case True
    then have "j \<noteq> 1" using assms(1,4) c'(2) by auto
    then have "\<exists>i. dev_new_index used c' = Some i"
      using assms c'(1) by (intro dev_new_index_up [of used j]) simp_all
    with True c'(3) show ?thesis by simp
  qed (simp add: c'(3))
qed

lemma dev_new_index_returns:
  assumes "\<not> used j" "0 < j" "j < 2 ^ 31"
  shows "\<exists>i. dev_new_index used c = Some i"
proof -
  have j: "\<not> used (nat (int j))" "0 < int j" "int j < 2 ^ 31" using assms by simp_all
  consider "next_index (sint c) = 1" | "0 \<le> sint c" "sint c < int j" | "int j \<le> sint c"
    by (fastforce simp: next_index_def)
  then show ?thesis
  proof cases
    case 3
    then show ?thesis
    proof (induction "nat (2 ^ 31 - sint c)" arbitrary: c rule: less_induct)
      case less
      obtain c' where c': "sint c' = next_index (sint c)"
        "dev_new_index used c = (if used (unat c') then dev_new_index used c' else Some c')"
        by (rule dev_new_index_round)
      show ?case
      proof (cases "next_index (sint c) = 1")
        case False
        then have n: "sint c' = sint c + 1" "sint c + 1 < 2 ^ 31" using c'(1) less.prems by (auto simp: next_index_def split: if_splits)
        then have "\<exists>i. dev_new_index used c' = Some i" using less.prems by (intro less.hyps) simp_all
        with c'(2) show ?thesis by simp
      qed (rule dev_new_index_wraps [of used "int j", OF j])
    qed
  qed (use dev_new_index_wraps [of used "int j", OF j] dev_new_index_up [of used "int j", OF j(1) _ _ j(3)] in blast)+
qed

end
