(* ===== verification/Br_If.thy ===== *)
theory Br_If
  imports Br_Stp_If Br_Forward Br_Mfd_Table Br_Netdev
begin

text \<open>
  Creation and deletion of bridges and ports (br_if.c), the device operations of a bridge
  (br_device.c) and the reactions to events on the port devices (br_notify.c). A device is handed in
  as a record and, while it is on the bridge, lives in the record of its port. The devices of other
  bridges are outside the model: \<open>Port n\<close> is a port of the bridge at hand.
\<close>

section \<open>Ports\<close>

definition br_initial_port_cost :: "net_device \<Rightarrow> s32" where
  "br_initial_port_cost dev =
     (if strncmp (dev_name dev) ''lec'' 3 = 0 then 7
      else if strncmp (dev_name dev) ''eth'' 3 = 0 then 100
      else if strncmp (dev_name dev) ''plip'' 4 = 0 then 2500
      else 100)"

definition zero_timer :: br_timer where
  "zero_timer = \<lparr>t_running = False, t_expires = 0\<rparr>"

definition zero_bid :: bridge_id where
  "zero_bid = Bridge_id 0 0 br_mac_zero"

text \<open>The memory of a new port, cleared, with the fields set before it is numbered.\<close>

definition raw_port :: "net_device \<Rightarrow> net_bridge_port" where
  "raw_port dev =
     \<lparr>p_dev = dev, port_no = 0, port_id = 0, p_state = BR_STATE_DISABLED,
      path_cost = br_initial_port_cost dev,
      p_designated_root = zero_bid, p_designated_cost = 0, p_designated_bridge = zero_bid,
      p_designated_port = 0, p_topology_change_ack = False, config_pending = False,
      p_priority = 0x80, forward_delay_timer = zero_timer, hold_timer = zero_timer,
      message_age_timer = zero_timer\<rparr>"

text \<open>The lowest free number below 255.\<close>

definition free_port_no :: "net_bridge \<Rightarrow> nat option" where
  "free_port_no br = find (\<lambda>i. br_get_port br i = None) [1..<255]"

text \<open>
  \<^verbatim>\<open>new_nbp\<close>: the number of the new port, or \<open>None\<close>; the device and the bridge afterwards. When no number
  is free the port is freed, and the device is left pointing at it.
\<close>

definition new_nbp :: "net_device \<Rightarrow> net_bridge \<Rightarrow> nat option \<times> net_device \<times> net_bridge" where
  "new_nbp dev br =
     (let (ok, br) = alloc br
      in if \<not> ok then (None, dev, br)
         else
           (case free_port_no br of
              None \<Rightarrow> (None, dev\<lparr>dev_br_port := Dangling_port\<rparr>, br)
            | Some i \<Rightarrow>
                (let dev = dev\<lparr>dev_br_port := Port i\<rparr>;
                     p = (init_port br ((raw_port dev)\<lparr>port_no := i\<rparr>))\<lparr>p_state := BR_STATE_DISABLED\<rparr>
                 in (Some i, dev, br\<lparr>port_list := p # port_list br\<rparr>))))"

definition EBUSY :: int where "EBUSY = 16"
definition EXFULL :: int where "EXFULL = 52"
definition ENXIO :: int where "ENXIO = 6"
definition ENOMEM :: int where "ENOMEM = 12"

definition br_add_if :: "u32 \<Rightarrow> net_device \<Rightarrow> net_bridge \<Rightarrow> int \<times> net_device \<times> net_bridge" where
  "br_add_if jiffies dev br =
     (if dev_br_port dev \<noteq> No_port then (- EBUSY, dev, br)
      else if dev_loopback dev \<or> \<not> dev_ether dev then (- EINVAL, dev, br)
      else
        (case new_nbp (dev\<lparr>dev_refcnt := dev_refcnt dev + 1\<rparr>) br of
           (None, dev, br) \<Rightarrow> (- EXFULL, dev\<lparr>dev_refcnt := dev_refcnt dev - 1\<rparr>, br)
         | (Some n, dev, br) \<Rightarrow>
             (let dev = dev\<lparr>promiscuity := promiscuity dev + 1\<rparr>;
                  br = upd_port n (\<lambda>p. p\<lparr>p_dev := dev\<rparr>) br;
                  br = br_stp_recalculate_bridge_id jiffies br;
                  br = br_fdb_insert jiffies (Some n) (dev_addr dev) True br
              in (0, dev, if dev_up (br_dev br) \<and> dev_up dev then br_stp_enable_port jiffies n br else br))))"

text \<open>Unlinking a port from the list.\<close>

fun remove_port :: "nat \<Rightarrow> net_bridge_port list \<Rightarrow> net_bridge_port list" where
  "remove_port n [] = []"
| "remove_port n (p # ps) = (if port_no p = n then ps else p # remove_port n ps)"

text \<open>
  \<^verbatim>\<open>__br_del_if\<close> for the device of port \<open>n\<close>.
\<close>

definition del_port :: "u32 \<Rightarrow> nat \<Rightarrow> net_bridge \<Rightarrow> net_bridge" where
  "del_port jiffies n br =
     (let br = br_stp_disable_port jiffies n br;
          br = br\<lparr>port_list := remove_port n (port_list br)\<rparr>
      in on_mfd (br_mfd_delete_port n) (br_fdb_delete_by_port n br))"

definition release_dev :: "net_device \<Rightarrow> net_device" where
  "release_dev dev = dev\<lparr>promiscuity := promiscuity dev - 1, dev_br_port := No_port,
     dev_refcnt := dev_refcnt dev - 1\<rparr>"

definition br_del_if_unlocked :: "u32 \<Rightarrow> net_device \<Rightarrow> net_bridge \<Rightarrow> int \<times> net_device \<times> net_bridge" where
  "br_del_if_unlocked jiffies dev br =
     (case dev_br_port dev of
        No_port \<Rightarrow> (- EINVAL, dev, br)
      | Dangling_port \<Rightarrow> (0, dev, fault br)
      | Port n \<Rightarrow>
          (case br_get_port br n of
             None \<Rightarrow> (0, dev, fault br)
           | Some p \<Rightarrow> (0, release_dev dev, del_port jiffies n br)))"

definition br_del_if :: "u32 \<Rightarrow> net_device \<Rightarrow> net_bridge \<Rightarrow> int \<times> net_device \<times> net_bridge" where
  "br_del_if jiffies dev br =
     (case br_del_if_unlocked jiffies dev br of
        (retval, dev, br) \<Rightarrow> (retval, dev, br_stp_recalculate_bridge_id jiffies br))"

section \<open>The length of the port list\<close>

lemma port_nos_remove_port: "map port_no (remove_port n ps) = remove1 n (map port_no ps)"
  by (induction ps) auto

lemma on_mfd_frame [simp]:
  "port_list (on_mfd f br) = port_list br" "hash (on_mfd f br) = hash br" "root_port (on_mfd f br) = root_port br"
  "designated_root (on_mfd f br) = designated_root br" "bridge_ident (on_mfd f br) = bridge_ident br"
  by (simp_all add: on_mfd_def fault_def split: option.split)

lemma port_nos_del_port: "port_nos (del_port jiffies n br) = remove1 n (port_nos br)"
proof -
  have "port_nos (br_stp_disable_port jiffies n br) = port_nos br"
    by (rule soundD(2) [OF sound_stp_disable_port])
  then show ?thesis
    by (simp add: del_port_def Let_def br_fdb_delete_by_port_def port_nos_remove_port
        port_nos_def sweep_all_def)
qed

lemma length_del_port:
  "port_list br = p # ps \<Longrightarrow> length (port_list (del_port jiffies (port_no p) br)) < Suc (length ps)"
  using port_nos_del_port [of jiffies "port_no p" br, THEN arg_cong, of length]
  by (simp add: port_nos_def)

text \<open>\<^verbatim>\<open>del_ifs\<close>: delete the first port until there is none.\<close>

function del_ifs :: "u32 \<Rightarrow> net_bridge \<Rightarrow> net_bridge" where
  "del_ifs jiffies br =
     (case port_list br of
        [] \<Rightarrow> br
      | p # _ \<Rightarrow> del_ifs jiffies (del_port jiffies (port_no p) br))"
  by pat_completeness auto

termination
  by (relation "measure (\<lambda>(_, br). length (port_list br))") (simp_all add: length_del_port)

declare del_ifs.simps [simp del]

section \<open>Bridges\<close>

definition zero_stats :: net_device_stats where
  "zero_stats = \<lparr>rx_packets = 0, rx_bytes = 0, tx_packets = 0, tx_bytes = 0, tx_dropped = 0\<rparr>"

text \<open>
  \<^verbatim>\<open>new_nb\<close>, given memory: \<open>m\<close> are the outcomes of the later allocations, \<open>i\<close> the number of the next
  buffer. The bridge's own device has the address zero and what \<^verbatim>\<open>ether_setup\<close> and \<^verbatim>\<open>br_dev_setup\<close> give it.
\<close>

definition new_nb :: "string \<Rightarrow> bool list \<Rightarrow> nat \<Rightarrow> net_bridge" where
  "new_nb name m i =
     (let bid = Bridge_id 0x80 0x00 br_mac_zero
      in br_mfd_init \<lparr>port_list = [],
          br_dev = \<lparr>dev_name = take IFNAMSIZ name, dev_addr = br_mac_zero, ifindex = 0, dev_up = False,
                    dev_loopback = False, dev_ether = True, promiscuity = 0, dev_refcnt = 0,
                    dev_br_port = No_port, dev_listed = False, dev_gpromisc = False, dev_mtu = 1500,
                    unused_alignment_fixer = 0, tx_queue_len = 0\<rparr>,
          statistics = zero_stats, hash = (\<lambda>_. []), mfd = empty_mfd, mc_forwarding = 0, filter_lock = 0, blacklist = [], tick = None,
          designated_root = bid, root_path_cost = 0, root_port = 0,
          max_age = of_nat (6 * HZ), hello_time = of_nat (2 * HZ), forward_delay = of_nat (0 * HZ),
          bridge_ident = bid,
          bridge_max_age = of_nat (6 * HZ), bridge_hello_time = of_nat (2 * HZ),
          bridge_forward_delay = of_nat (0 * HZ),
          stp_enabled = False, topology_change = False, topology_change_detected = False,
          br_filter_active = False,
          hello_timer = zero_timer, tcn_timer = zero_timer, topology_change_timer = zero_timer,
          gc_timer = zero_timer,
          ageing_time = of_nat (300 * HZ), gc_interval = of_nat (4 * HZ),
          out = [], mem = m, next_skb = i, oopsed = False\<rparr>)"

text \<open>
  The list of bridges. \<open>dev_exists\<close> tells the names of the registered devices, \<open>ok\<close> whether the
  allocation of the bridge succeeds, \<open>idx\<close> the next interface index. The result of the registration is
  ignored: a bridge whose device could not be registered is on the list of bridges and on no other.
\<close>

definition br_add_bridge ::
    "(string \<Rightarrow> bool) \<Rightarrow> bool \<Rightarrow> bool list \<Rightarrow> nat \<Rightarrow> string \<Rightarrow> net_bridge list \<Rightarrow> int \<times> net_bridge list" where
  "br_add_bridge dev_exists ok m idx name bridge_list =
     (if \<not> ok then (- ENOMEM, bridge_list)
      else if dev_exists name then (- EEXIST, bridge_list)
      else
        (let br = new_nb name m 0
         in (0, br\<lparr>br_dev := snd (register_netdev dev_exists idx (br_dev br))\<rparr> # bridge_list)))"

definition br_named :: "string \<Rightarrow> net_bridge \<Rightarrow> bool" where
  "br_named name br \<longleftrightarrow> strncmp (dev_name (br_dev br)) name IFNAMSIZ = 0"

definition find_br :: "string \<Rightarrow> net_bridge list \<Rightarrow> net_bridge option" where
  "find_br name bridge_list = find (br_named name) bridge_list"

text \<open>The bridge that is freed is returned, as it was when it was freed.\<close>

definition br_del_bridge ::
    "u32 \<Rightarrow> string \<Rightarrow> net_bridge list \<Rightarrow> int \<times> net_bridge list \<times> net_bridge option" where
  "br_del_bridge jiffies name bridge_list =
     (case List.extract (br_named name) bridge_list of
        None \<Rightarrow> (- ENXIO, bridge_list, None)
      | Some (before, br, after) \<Rightarrow>
          if dev_up (br_dev br) then (- EBUSY, bridge_list, None)
          else (0, before @ after, Some (del_ifs jiffies (snd (br_flush_filter br)))))"

definition br_get_bridge_ifindices :: "nat \<Rightarrow> net_bridge list \<Rightarrow> nat list" where
  "br_get_bridge_ifindices num bridge_list = map (\<lambda>br. ifindex (br_dev br)) (take num bridge_list)"

text \<open>The array of 256 indices, by port number.\<close>

definition br_get_port_ifindices :: "net_bridge \<Rightarrow> nat list \<Rightarrow> nat list" where
  "br_get_port_ifindices br indices =
     fold (\<lambda>p is. is[port_no p := ifindex (p_dev p)]) (port_list br) indices"

section \<open>Device operations and events\<close>

definition br_dev_open :: "u32 \<Rightarrow> net_bridge \<Rightarrow> net_bridge" where
  "br_dev_open jiffies br = br_stp_enable_bridge jiffies br"

definition br_dev_stop :: "u32 \<Rightarrow> net_bridge \<Rightarrow> net_bridge" where
  "br_dev_stop jiffies br = br_stp_disable_bridge jiffies br"

definition br_dev_get_stats :: "net_bridge \<Rightarrow> net_device_stats" where
  "br_dev_get_stats br = statistics br"

datatype netdev_event =
    NETDEV_CHANGEADDR
  | NETDEV_GOING_DOWN
  | NETDEV_DOWN
  | NETDEV_UP
  | NETDEV_UNREGISTER

text \<open>
  \<^verbatim>\<open>br_device_event\<close> for the device of port \<open>n\<close>, as it is after the event; a device that is on no
  bridge is ignored.
\<close>

definition br_device_event :: "u32 \<Rightarrow> netdev_event \<Rightarrow> nat \<Rightarrow> net_bridge \<Rightarrow> net_bridge" where
  "br_device_event jiffies event n br =
     deref n (\<lambda>p br.
       case event of
         NETDEV_CHANGEADDR \<Rightarrow>
           br_stp_recalculate_bridge_id jiffies (br_fdb_changeaddr n (dev_addr (p_dev p)) br)
       | NETDEV_GOING_DOWN \<Rightarrow> br
       | NETDEV_DOWN \<Rightarrow> if dev_up (br_dev br) then br_stp_disable_port jiffies n br else br
       | NETDEV_UP \<Rightarrow> if dev_up (br_dev br) then br_stp_enable_port jiffies n br else br
       | NETDEV_UNREGISTER \<Rightarrow> snd (snd (br_del_if jiffies (p_dev p) br))) br"

end
