(* ===== verification/Br_Ioctl.thy ===== *)
theory Br_Ioctl
  imports Br_If
begin

text \<open>
  The control interface (br_ioctl.c and \<^verbatim>\<open>br_dev_do_ioctl\<close> of br_device.c). What the calls find outside
  the bridge is an argument: the devices by index and the caller's memory. What they write to the caller's memory is part of the result.
\<close>

section \<open>Records of the interface\<close>

record bridge_info =
  bi_designated_root :: bridge_id
  bi_bridge_id :: bridge_id
  bi_root_path_cost :: u32
  bi_max_age :: u32
  bi_hello_time :: u32
  bi_forward_delay :: u32
  bi_bridge_max_age :: u32
  bi_bridge_hello_time :: u32
  bi_bridge_forward_delay :: u32
  bi_topology_change :: bool
  bi_topology_change_detected :: bool
  bi_root_port :: nat
  bi_stp_enabled :: bool
  bi_ageing_time :: u32
  bi_gc_interval :: u32
  bi_hello_timer_value :: u32
  bi_tcn_timer_value :: u32
  bi_topology_change_timer_value :: u32
  bi_gc_timer_value :: u32
  bi_br_filter_active :: bool

record port_info =
  pi_designated_root :: bridge_id
  pi_designated_bridge :: bridge_id
  pi_port_id :: u16
  pi_designated_port :: u16
  pi_path_cost :: u32
  pi_designated_cost :: u32
  pi_state :: u32
  pi_top_change_ack :: bool
  pi_config_pending :: bool
  pi_message_age_timer_value :: u32
  pi_forward_delay_timer_value :: u32
  pi_hold_timer_value :: u32

datatype ioctl_out =
    Out_none
  | Out_dev net_device
  | Out_bridge bridge_info
  | Out_indices "nat list"
  | Out_port port_info
  | Out_fdb "fdb_record list"
  | Out_filters "br_filter_entry list"
  | Out_mfd "mfd_record list"
  | Out_mc_status u8

record ioctl_env =
  dev_by_index :: "nat \<Rightarrow> net_device option"
  user_filter :: "br_filter_entry option"
  user_name :: "string option"
  copy_ok :: bool
  fdb_copy :: "nat \<Rightarrow> copy_outcome"
  mfd_copy :: "nat \<Rightarrow> copy_outcome"
  dev_exists :: "string \<Rightarrow> bool"
  mem_ok :: bool
  mem_later :: "bool list"
  new_ifindex :: nat

definition EPERM :: int where "EPERM = 1"
definition EOPNOTSUPP :: int where "EOPNOTSUPP = 122"

primrec errno_val :: "errno \<Rightarrow> int" where
  "errno_val EAGAIN = 11"
| "errno_val EFAULT = 14"

definition br_bridge_info :: "u32 \<Rightarrow> net_bridge \<Rightarrow> bridge_info" where
  "br_bridge_info jiffies br =
     \<lparr>bi_designated_root = designated_root br, bi_bridge_id = bridge_ident br,
      bi_root_path_cost = root_path_cost br, bi_max_age = max_age br, bi_hello_time = hello_time br,
      bi_forward_delay = forward_delay br, bi_bridge_max_age = bridge_max_age br,
      bi_bridge_hello_time = bridge_hello_time br, bi_bridge_forward_delay = bridge_forward_delay br,
      bi_topology_change = topology_change br,
      bi_topology_change_detected = topology_change_detected br,
      bi_root_port = root_port br mod 256, bi_stp_enabled = stp_enabled br,
      bi_ageing_time = ageing_time br, bi_gc_interval = gc_interval br,
      bi_hello_timer_value = br_timer_get_residue jiffies (hello_timer br),
      bi_tcn_timer_value = br_timer_get_residue jiffies (tcn_timer br),
      bi_topology_change_timer_value = br_timer_get_residue jiffies (topology_change_timer br),
      bi_gc_timer_value = br_timer_get_residue jiffies (gc_timer br),
      bi_br_filter_active = br_filter_active br\<rparr>"

text \<open>\<^verbatim>\<open>br_get_mc_status\<close>, up to the copy: the one field of the record.\<close>

definition br_get_mc_status :: "net_bridge \<Rightarrow> u8" where
  "br_get_mc_status br = ucast (mc_forwarding br)"

definition br_port_info :: "u32 \<Rightarrow> net_bridge_port \<Rightarrow> port_info" where
  "br_port_info jiffies pt =
     \<lparr>pi_designated_root = p_designated_root pt, pi_designated_bridge = p_designated_bridge pt,
      pi_port_id = port_id pt, pi_designated_port = p_designated_port pt,
      pi_path_cost = path_cost pt, pi_designated_cost = p_designated_cost pt,
      pi_state = state_val (p_state pt), pi_top_change_ack = p_topology_change_ack pt,
      pi_config_pending = config_pending pt,
      pi_message_age_timer_value = br_timer_get_residue jiffies (message_age_timer pt),
      pi_forward_delay_timer_value = br_timer_get_residue jiffies (forward_delay_timer pt),
      pi_hold_timer_value = br_timer_get_residue jiffies (hold_timer pt)\<rparr>"

section \<open>Commands of a bridge\<close>

datatype brctl =
    BRCTL_GET_VERSION
  | BRCTL_GET_BRIDGES
  | BRCTL_ADD_BRIDGE
  | BRCTL_DEL_BRIDGE
  | BRCTL_ADD_IF
  | BRCTL_DEL_IF
  | BRCTL_GET_BRIDGE_INFO
  | BRCTL_GET_PORT_LIST
  | BRCTL_SET_BRIDGE_FORWARD_DELAY
  | BRCTL_SET_BRIDGE_HELLO_TIME
  | BRCTL_SET_BRIDGE_MAX_AGE
  | BRCTL_SET_AGEING_TIME
  | BRCTL_SET_GC_INTERVAL
  | BRCTL_GET_PORT_INFO
  | BRCTL_SET_BRIDGE_STP_STATE
  | BRCTL_SET_BRIDGE_PRIORITY
  | BRCTL_SET_PORT_PRIORITY
  | BRCTL_SET_PATH_COST
  | BRCTL_GET_FDB_ENTRIES
  | BRCTL_SET_FILTER_ENTRY
  | BRCTL_FLUSH_FILTER_ENTERIES
  | BRCTL_SHOW_FILTER_ENTERIES
  | BRCTL_SET_FILTER_STATE
  | BRCTL_DELETE_FILTER_ENTRY
  | BRCTL_DELETE_MFD_V1_PORTS
  | BRCTL_MFD_DISPLAY
  | BRCTL_GET_MC_STATUS
  | BRCTL_other u32

text \<open>A record goes to the caller, or the call fails.\<close>

definition copy_out :: "ioctl_env \<Rightarrow> ioctl_out \<Rightarrow> net_bridge \<Rightarrow> int \<times> ioctl_out \<times> net_bridge" where
  "copy_out env x br = (if copy_ok env then (0, x, br) else (- errno_val EFAULT, Out_none, br))"

fun br_ioctl_device ::
    "u32 \<Rightarrow> ioctl_env \<Rightarrow> brctl \<Rightarrow> u32 \<Rightarrow> u32 \<Rightarrow> u32 \<Rightarrow> net_bridge \<Rightarrow> int \<times> ioctl_out \<times> net_bridge" where
  "br_ioctl_device jiffies env BRCTL_ADD_IF arg0 arg1 arg2 br =
     (case dev_by_index env (unat arg0) of
        None \<Rightarrow> (- EINVAL, Out_none, br)
      | Some dev \<Rightarrow> (case br_add_if jiffies dev br of (ret, dev, br) \<Rightarrow> (ret, Out_dev dev, br)))"
| "br_ioctl_device jiffies env BRCTL_DEL_IF arg0 arg1 arg2 br =
     (case dev_by_index env (unat arg0) of
        None \<Rightarrow> (- EINVAL, Out_none, br)
      | Some dev \<Rightarrow> (case br_del_if jiffies dev br of (ret, dev, br) \<Rightarrow> (ret, Out_dev dev, br)))"
| "br_ioctl_device jiffies env BRCTL_GET_BRIDGE_INFO arg0 arg1 arg2 br =
     copy_out env (Out_bridge (br_bridge_info jiffies br)) br"
| "br_ioctl_device jiffies env BRCTL_GET_PORT_LIST arg0 arg1 arg2 br =
     copy_out env (Out_indices (br_get_port_ifindices br (replicate 256 0))) br"
| "br_ioctl_device jiffies env BRCTL_SET_BRIDGE_FORWARD_DELAY arg0 arg1 arg2 br =
     (0, Out_none, br\<lparr>bridge_forward_delay := arg0,
        forward_delay := (if br_is_root_bridge br then arg0 else forward_delay br)\<rparr>)"
| "br_ioctl_device jiffies env BRCTL_SET_BRIDGE_HELLO_TIME arg0 arg1 arg2 br =
     (0, Out_none, br\<lparr>bridge_hello_time := arg0,
        hello_time := (if br_is_root_bridge br then arg0 else hello_time br)\<rparr>)"
| "br_ioctl_device jiffies env BRCTL_SET_BRIDGE_MAX_AGE arg0 arg1 arg2 br =
     (0, Out_none, br\<lparr>bridge_max_age := arg0,
        max_age := (if br_is_root_bridge br then arg0 else max_age br)\<rparr>)"
| "br_ioctl_device jiffies env BRCTL_SET_AGEING_TIME arg0 arg1 arg2 br =
     (0, Out_none, br\<lparr>ageing_time := arg0\<rparr>)"
| "br_ioctl_device jiffies env BRCTL_SET_GC_INTERVAL arg0 arg1 arg2 br =
     (0, Out_none, br\<lparr>gc_interval := arg0\<rparr>)"
| "br_ioctl_device jiffies env BRCTL_GET_PORT_INFO arg0 arg1 arg2 br =
     (case br_get_port br (unat arg1) of
        None \<Rightarrow> (- EINVAL, Out_none, br)
      | Some pt \<Rightarrow> copy_out env (Out_port (br_port_info jiffies pt)) br)"
| "br_ioctl_device jiffies env BRCTL_SET_BRIDGE_STP_STATE arg0 arg1 arg2 br =
     (0, Out_none, br\<lparr>stp_enabled := (arg0 \<noteq> 0)\<rparr>)"
| "br_ioctl_device jiffies env BRCTL_SET_BRIDGE_PRIORITY arg0 arg1 arg2 br =
     (0, Out_none, br_stp_set_bridge_priority jiffies arg0 br)"
| "br_ioctl_device jiffies env BRCTL_SET_PORT_PRIORITY arg0 arg1 arg2 br =
     (case br_get_port br (unat arg0) of
        None \<Rightarrow> (- EINVAL, Out_none, br)
      | Some p \<Rightarrow> (0, Out_none, br_stp_set_port_priority jiffies (unat arg0) arg1 br))"
| "br_ioctl_device jiffies env BRCTL_SET_PATH_COST arg0 arg1 arg2 br =
     (case br_get_port br (unat arg0) of
        None \<Rightarrow> (- EINVAL, Out_none, br)
      | Some p \<Rightarrow> (0, Out_none, br_stp_set_path_cost jiffies (unat arg0) arg1 br))"
| "br_ioctl_device jiffies env BRCTL_GET_FDB_ENTRIES arg0 arg1 arg2 br =
     (case br_fdb_get_entries (fdb_copy env) jiffies (sint arg1) (sint arg2) br of
        Inl e \<Rightarrow> (- errno_val e, Out_none, br)
      | Inr rs \<Rightarrow> (int (length rs), Out_fdb rs, br))"
| "br_ioctl_device jiffies env BRCTL_SET_FILTER_STATE arg0 arg1 arg2 br =
     (0, Out_none, br\<lparr>br_filter_active := (arg0 \<noteq> 0)\<rparr>)"
| "br_ioctl_device jiffies env BRCTL_SET_FILTER_ENTRY arg0 arg1 arg2 br =
     (case br_add_filter_entry (user_filter env) br of (ret, br) \<Rightarrow> (ret, Out_none, br))"
| "br_ioctl_device jiffies env BRCTL_DELETE_FILTER_ENTRY arg0 arg1 arg2 br =
     (case br_del_filter_entry (user_filter env) br of (ret, br) \<Rightarrow> (ret, Out_none, br))"
| "br_ioctl_device jiffies env BRCTL_FLUSH_FILTER_ENTERIES arg0 arg1 arg2 br =
     (case br_flush_filter br of (ret, br) \<Rightarrow> (ret, Out_none, br))"
| "br_ioctl_device jiffies env BRCTL_SHOW_FILTER_ENTERIES arg0 arg1 arg2 br =
     (case br_show_filter_entries (sint arg1) br of (fs, ret, br) \<Rightarrow> (ret, Out_filters fs, br))"
| "br_ioctl_device jiffies env BRCTL_DELETE_MFD_V1_PORTS arg0 arg1 arg2 br =
     (0, Out_none, on_mfd br_mfd_delete_v1_ports br)"
| "br_ioctl_device jiffies env BRCTL_MFD_DISPLAY arg0 arg1 arg2 br =
     (case br_mfd_get_entries (mfd_copy env) (port_index br) (mfd br) of
        None \<Rightarrow> (0, Out_none, fault br)
      | Some (Inl e) \<Rightarrow> (- errno_val e, Out_none, br)
      | Some (Inr rs) \<Rightarrow> (int (length rs), Out_mfd rs, br))"
| "br_ioctl_device jiffies env BRCTL_GET_MC_STATUS arg0 arg1 arg2 br =
     copy_out env (Out_mc_status (br_get_mc_status br)) br"
| "br_ioctl_device jiffies env cmd arg0 arg1 arg2 br = (- EOPNOTSUPP, Out_none, br)"

section \<open>Commands without a bridge\<close>

fun br_ioctl_deviceless ::
    "u32 \<Rightarrow> ioctl_env \<Rightarrow> brctl \<Rightarrow> u32 \<Rightarrow> u32 \<Rightarrow> net_bridge list \<Rightarrow> int \<times> ioctl_out \<times> net_bridge list" where
  "br_ioctl_deviceless jiffies env BRCTL_GET_VERSION arg0 arg1 bl = (1, Out_none, bl)"
| "br_ioctl_deviceless jiffies env BRCTL_GET_BRIDGES arg0 arg1 bl =
     (let indices = br_get_bridge_ifindices (unat (min arg1 64)) bl
      in if copy_ok env then (int (length indices), Out_indices indices, bl)
         else (- errno_val EFAULT, Out_none, bl))"
| "br_ioctl_deviceless jiffies env BRCTL_ADD_BRIDGE arg0 arg1 bl =
     (case user_name env of
        None \<Rightarrow> (- errno_val EFAULT, Out_none, bl)
      | Some buf \<Rightarrow>
          (case br_add_bridge (dev_exists env) (mem_ok env) (mem_later env) (new_ifindex env) (take (IFNAMSIZ - 1) buf) bl of
             (ret, bl) \<Rightarrow> (ret, Out_none, bl)))"
| "br_ioctl_deviceless jiffies env BRCTL_DEL_BRIDGE arg0 arg1 bl =
     (case user_name env of
        None \<Rightarrow> (- errno_val EFAULT, Out_none, bl)
      | Some buf \<Rightarrow>
          (case br_del_bridge jiffies (take (IFNAMSIZ - 1) buf) bl of
             (ret, bl, _) \<Rightarrow> (ret, Out_none, bl)))"
| "br_ioctl_deviceless jiffies env cmd arg0 arg1 bl = (- EOPNOTSUPP, Out_none, bl)"

definition br_ioctl_deviceless_stub ::
    "bool \<Rightarrow> u32 \<Rightarrow> ioctl_env \<Rightarrow> (brctl \<times> u32 \<times> u32) option \<Rightarrow> net_bridge list
       \<Rightarrow> int \<times> ioctl_out \<times> net_bridge list" where
  "br_ioctl_deviceless_stub capable jiffies env args bl =
     (if \<not> capable then (- EPERM, Out_none, bl)
      else
        (case args of
           None \<Rightarrow> (- errno_val EFAULT, Out_none, bl)
         | Some (cmd, arg0, arg1) \<Rightarrow> br_ioctl_deviceless jiffies env cmd arg0 arg1 bl))"

text \<open>\<^verbatim>\<open>br_ioctl\<close> for the bridge at position \<open>k\<close> of the list.\<close>

definition br_ioctl ::
    "bool \<Rightarrow> u32 \<Rightarrow> ioctl_env \<Rightarrow> nat \<Rightarrow> brctl \<Rightarrow> u32 \<Rightarrow> u32 \<Rightarrow> u32 \<Rightarrow> net_bridge list
       \<Rightarrow> int \<times> ioctl_out \<times> net_bridge list" where
  "br_ioctl capable jiffies env k cmd arg0 arg1 arg2 bl =
     (if \<not> capable then (- EPERM, Out_none, bl)
      else
        (case br_ioctl_deviceless jiffies env cmd arg0 arg1 bl of
           (err, res, bl) \<Rightarrow>
             if err = - EOPNOTSUPP
             then (case br_ioctl_device jiffies env cmd arg0 arg1 arg2 (bl ! k) of
                     (err, res, br) \<Rightarrow> (err, res, bl[k := br]))
             else (err, res, bl)))"

definition br_dev_do_ioctl ::
    "bool \<Rightarrow> u32 \<Rightarrow> ioctl_env \<Rightarrow> nat \<Rightarrow> bool \<Rightarrow> (brctl \<times> u32 \<times> u32 \<times> u32) option \<Rightarrow> net_bridge list
       \<Rightarrow> int \<times> ioctl_out \<times> net_bridge list" where
  "br_dev_do_ioctl capable jiffies env k siocdevprivate args bl =
     (if \<not> siocdevprivate then (- EOPNOTSUPP, Out_none, bl)
      else
        (case args of
           None \<Rightarrow> (- errno_val EFAULT, Out_none, bl)
         | Some (cmd, arg0, arg1, arg2) \<Rightarrow> br_ioctl capable jiffies env k cmd arg0 arg1 arg2 bl))"

end
