(* ===== verification/Br_Safety.thy ===== *)
theory Br_Safety
  imports Br_Ioctl
begin

text \<open>
  The invariant of a bridge and the steps that can happen to it. In every state a bridge reaches the
  port numbers are distinct and between 1 and 254, the root port is on the list unless the bridge is
  the root, every entry of the forwarding database is on its chain and leads to a port of the bridge,
  and no NULL or dangling pointer has been followed.
\<close>

section \<open>The invariant\<close>

definition bridge_inv :: "net_bridge \<Rightarrow> bool" where
  "bridge_inv br \<longleftrightarrow>
     distinct (port_nos br) \<and> set (port_nos br) \<subseteq> {1..<255} \<and> root_ok br
     \<and> fdb_hashed br \<and> fdb_ports br \<and> \<not> oopsed br \<and> mfd br = empty_mfd"

lemma bridge_invD:
  assumes "bridge_inv br"
  shows "distinct (port_nos br)" "root_ok br" "fdb_hashed br" "fdb_ports br" "\<not> oopsed br" "mfd br = empty_mfd"
  using assms by (simp_all add: bridge_inv_def)

lemma bridge_inv_sound:
  assumes "bridge_inv a" and "sound a b"
  shows "bridge_inv b"
  using assms by (simp add: bridge_inv_def sound_def fdb_hashed_def fdb_ports_def fdb_all_def)

lemma bridge_inv_keeps: "bridge_inv a \<Longrightarrow> keeps a b \<Longrightarrow> bridge_inv b"
  by (blast intro: bridge_inv_sound sound_keeps bridge_invD)

lemma bridge_inv_port_dev:
  assumes "bridge_inv br"
  shows "bridge_inv (upd_port n (\<lambda>p. p\<lparr>p_dev := d\<rparr>) br)" "bridge_inv (br\<lparr>br_dev := e\<rparr>)"
proof -
  have "port_nos (upd_port n (\<lambda>p. p\<lparr>p_dev := d\<rparr>) br) = port_nos br" by (rule port_nos_upd_port) simp
  with assms show "bridge_inv (upd_port n (\<lambda>p. p\<lparr>p_dev := d\<rparr>) br)"
    by (simp add: bridge_inv_def root_ok_def fdb_hashed_def fdb_ports_def fdb_all_def) (simp add: upd_port_def)
  from assms show "bridge_inv (br\<lparr>br_dev := e\<rparr>)"
    by (simp add: bridge_inv_def root_ok_def fdb_hashed_def fdb_ports_def fdb_all_def port_nos_def)
qed

section \<open>Sweeping the table\<close>

lemma root_ok_sweep [simp]: "root_ok (sweep_all P br) \<longleftrightarrow> root_ok br"
  by (simp add: root_ok_def) (simp add: sweep_all_def)

lemma bridge_inv_sweep: "bridge_inv br \<Longrightarrow> bridge_inv (sweep_all P br)"
  by (simp add: bridge_inv_def fdb_hashed_sweep fdb_ports_sweep)

lemma bridge_inv_cleanup: "bridge_inv br \<Longrightarrow> bridge_inv (br_fdb_cleanup jiffies br)"
  by (simp add: br_fdb_cleanup_def Let_def bridge_inv_sweep)

section \<open>Deleting a port\<close>

lemma fold_root_port_step_None: "fold (root_port_step br) ps None = None"
  by (induction ps) (simp_all add: root_port_step_def)

lemma root_port_step_enabled:
  assumes "fold (root_port_step br) ps (Some r) = Some r'"
  shows "r' = r \<or> (\<exists>p\<in>set ps. port_no p = r' \<and> p_state p \<noteq> BR_STATE_DISABLED)"
  using assms
proof (induction ps arbitrary: r)
  case (Cons p ps)
  show ?case
  proof (cases "br_should_become_root_port br p r")
    case None
    then have "root_port_step br p (Some r) = None" by (simp add: root_port_step_def)
    then show ?thesis using Cons.prems fold_root_port_step_None by simp
  next
    case (Some b)
    then have step: "root_port_step br p (Some r) = Some (if b then port_no p else r)"
      by (simp add: root_port_step_def)
    have on: "b \<Longrightarrow> p_state p \<noteq> BR_STATE_DISABLED"
      using Some by (simp add: br_should_become_root_port_def split: if_splits)
    from Cons.IH [of "if b then port_no p else r"] Cons.prems step
    have "r' = (if b then port_no p else r) \<or> (\<exists>p\<in>set ps. port_no p = r' \<and> p_state p \<noteq> BR_STATE_DISABLED)"
      by simp
    with on show ?thesis by (cases b) auto
  qed
qed simp

text \<open>A disabled port is never selected as the root port.\<close>

lemma root_selection_skips_disabled:
  assumes "\<And>p. p \<in> set (port_list br) \<Longrightarrow> port_no p = n \<Longrightarrow> p_state p = BR_STATE_DISABLED" and "0 < n"
  shows "root_port (br_root_selection br) \<noteq> n"
proof -
  obtain r where r: "fold (root_port_step br) (port_list br) (Some 0) = Some r"
    using root_port_step_fold [of "port_list br" br 0] by auto
  from root_port_step_enabled [OF r] assms have "r \<noteq> n" by auto
  then show ?thesis using r
    by (cases "br_get_port br r") (simp_all add: br_root_selection_def fault_def)
qed

lemma stp_disable_port_root:
  assumes "0 < n"
  shows "root_port (br_stp_disable_port jiffies n br) \<noteq> n"
proof -
  let ?f = "\<lambda>p. (br_become_designated_port br p)
             \<lparr>p_state := BR_STATE_DISABLED, p_topology_change_ack := False, config_pending := False,
              message_age_timer := br_timer_clear (message_age_timer p),
              forward_delay_timer := br_timer_clear (forward_delay_timer p),
              hold_timer := br_timer_clear (hold_timer p)\<rparr>"
  define b1 where "b1 = upd_port n ?f br"
  define b2 where "b2 = br_configuration_update b1"
  define b3 where "b3 = br_port_state_selection jiffies b2"
  have "p_state p = BR_STATE_DISABLED" if "p \<in> set (port_list b1)" "port_no p = n" for p
  proof -
    from that(1) have "p \<in> (\<lambda>q. if port_no q = n then ?f q else q) ` set (port_list br)"
      by (simp add: b1_def upd_port_def)
    then obtain q where "p = (if port_no q = n then ?f q else q)" by (rule imageE)
    with that(2) show ?thesis by (cases "port_no q = n") (simp_all add: br_become_designated_port_def)
  qed
  then have "root_port (br_root_selection b1) \<noteq> n" using assms by (rule root_selection_skips_disabled)
  then have 2: "root_port b2 \<noteq> n"
    using keeps_root_port [OF keeps_designated_port_selection [of "br_root_selection b1"]]
    by (simp add: b2_def br_configuration_update_def)
  have ok2: "root_ok b2" unfolding b2_def by (rule soundD(1) [OF sound_configuration_update])
  have k3: "keeps b2 b3" unfolding b3_def by (rule keeps_port_state_selection [OF ok2])
  have "keeps b3 (become_root_if_new jiffies w b3)" for w
    unfolding become_root_if_new_def
    by (rule keeps_if [OF keeps_become_root_bridge keeps_refl]) (use ok2 k3 in \<open>simp add: keepsD\<close>)
  then have "root_port (become_root_if_new jiffies w b3) = root_port b2" for w
    using keeps_root_port [OF keeps_trans [OF k3]] by blast
  with 2 show ?thesis
    by (simp add: br_stp_disable_port_def b1_def b2_def b3_def)
qed

lemma bridge_inv_del_port:
  assumes "bridge_inv br" and "n \<in> set (port_nos br)"
  shows "bridge_inv (del_port jiffies n br)"
proof -
  define b1 where "b1 = br_stp_disable_port jiffies n br"
  have inv: "bridge_inv b1"
    unfolding b1_def by (rule bridge_inv_sound [OF assms(1) sound_stp_disable_port])
  have nos: "port_nos b1 = port_nos br"
    unfolding b1_def by (rule soundD(2) [OF sound_stp_disable_port])
  have "0 < n" using assms by (auto simp: bridge_inv_def)
  then have root: "root_port b1 \<noteq> n" unfolding b1_def by (rule stp_disable_port_root)
  let ?b2 = "b1\<lparr>port_list := remove_port n (port_list b1)\<rparr>"
  have nos2: "port_nos ?b2 = remove1 n (port_nos b1)"
    by (simp add: port_nos_def port_nos_remove_port)
  have del: "del_port jiffies n br = br_fdb_delete_by_port n ?b2"
    using bridge_invD(6) [OF inv]
    by (simp add: del_port_def Let_def b1_def on_mfd_empty br_fdb_delete_by_port_def sweep_all_def)
  have "root_ok ?b2"
    using bridge_invD(2) [OF inv] root unfolding root_ok_def nos2 by (auto intro: in_set_remove1 [THEN iffD2])
  then have ok: "root_ok (del_port jiffies n br)"
    by (simp add: del br_fdb_delete_by_port_def)
  have ports: "fdb_ports (del_port jiffies n br)"
  proof -
    have all: "fdb_all (\<lambda>i f. fdb_dst f \<in> Some ` set (port_nos b1)) b1"
      using bridge_invD(4) [OF inv] by (simp add: fdb_ports_def)
    have "hash (del_port jiffies n br) = hash (br_fdb_delete_by_port n b1)"
      by (simp add: del br_fdb_delete_by_port_def sweep_all_def cong: if_cong)
    also have "\<dots> = (\<lambda>i. filter (\<lambda>f. fdb_dst f \<noteq> Some n) (hash b1 i))"
      unfolding br_fdb_delete_by_port_def by (rule hash_sweep_all [OF bridge_invD(3) [OF inv]])
    finally have h: "hash (del_port jiffies n br) = (\<lambda>i. filter (\<lambda>f. fdb_dst f \<noteq> Some n) (hash b1 i))" .
    have "fdb_dst f \<in> Some ` set (remove1 n (port_nos b1))"
      if "f \<in> set (hash b1 i)" "fdb_dst f \<noteq> Some n" for i f
      using all that unfolding fdb_all_def by (fastforce intro: in_set_remove1 [THEN iffD2])
    then show ?thesis
      unfolding fdb_ports_def fdb_all_def h port_nos_del_port nos [symmetric] set_filter by blast
  qed
  have "fdb_hashed (br_fdb_delete_by_port n ?b2)"
    unfolding br_fdb_delete_by_port_def
    by (rule fdb_hashed_sweep) (use bridge_invD(3) [OF inv] in \<open>simp add: fdb_hashed_def fdb_all_def\<close>)
  then have hashed: "fdb_hashed (del_port jiffies n br)"
    by (simp add: del)
  have "\<not> oopsed (del_port jiffies n br)" "mfd (del_port jiffies n br) = empty_mfd"
    using bridge_invD(5,6) [OF inv] by (simp_all add: del br_fdb_delete_by_port_def sweep_all_def)
  with assms(1) ok ports hashed show ?thesis
    unfolding bridge_inv_def port_nos_del_port by (auto dest: notin_set_remove1 intro: distinct_remove1)
qed

section \<open>Adding a port\<close>

lemma free_port_no_None: "free_port_no br = None \<longleftrightarrow> {1..<255} \<subseteq> set (port_nos br)"
  unfolding free_port_no_def find_None_iff br_get_port_None_iff by auto

lemma free_port_no_Some: "free_port_no br = Some i \<Longrightarrow> i \<in> {1..<255} \<and> i \<notin> set (port_nos br)"
  using br_get_port_None_iff [of br]
  by (auto simp: free_port_no_def find_Some_iff in_set_conv_nth)

lemma bridge_inv_new_port:
  assumes "bridge_inv br" and "port_no p \<in> {1..<255}" and "port_no p \<notin> set (port_nos br)"
  shows "bridge_inv (br\<lparr>port_list := p # port_list br\<rparr>)"
proof -
  have nos: "port_nos (br\<lparr>port_list := p # port_list br\<rparr>) = port_no p # port_nos br"
    by (simp add: port_nos_def)
  have "fdb_ports (br\<lparr>port_list := p # port_list br\<rparr>)"
    using bridge_invD(4) [OF assms(1)] unfolding fdb_ports_def fdb_all_def nos by auto
  moreover have "root_ok (br\<lparr>port_list := p # port_list br\<rparr>)"
    using bridge_invD(2) [OF assms(1)] unfolding root_ok_def nos by auto
  ultimately show ?thesis
    using assms unfolding bridge_inv_def nos by (simp add: fdb_hashed_def fdb_all_def)
qed

lemma bridge_inv_alloc: "bridge_inv br \<Longrightarrow> bridge_inv (snd (alloc br))"
  by (erule bridge_inv_keeps) (rule keeps_plain)

lemma bridge_inv_new_nbp:
  assumes "bridge_inv br" and "new_nbp dev br = (r, dev', br')"
  shows "bridge_inv br' \<and> set_option r \<subseteq> set (port_nos br')"
proof -
  define b1 where "b1 = snd (alloc br)"
  have inv: "bridge_inv b1" unfolding b1_def by (rule bridge_inv_alloc [OF assms(1)])
  show ?thesis
  proof (cases "fst (alloc br)")
    case False
    with assms(2) inv show ?thesis by (simp add: new_nbp_def case_prod_beta b1_def)
  next
    case ok: True
    show ?thesis
    proof (cases "free_port_no b1")
      case None
      with ok assms(2) inv show ?thesis by (simp add: new_nbp_def case_prod_beta b1_def)
    next
      case (Some i)
      let ?p = "(init_port b1 ((raw_port (dev\<lparr>dev_br_port := Port i\<rparr>))\<lparr>port_no := i\<rparr>))\<lparr>p_state := BR_STATE_DISABLED\<rparr>"
      have no: "port_no ?p = i" by (simp add: init_port_def br_become_designated_port_def)
      have eq: "new_nbp dev br = (Some i, dev\<lparr>dev_br_port := Port i\<rparr>, b1\<lparr>port_list := ?p # port_list b1\<rparr>)"
        using ok Some by (simp add: new_nbp_def case_prod_beta b1_def Let_def)
      note eq' = trans [OF assms(2) [symmetric] eq]
      have br': "br' = b1\<lparr>port_list := ?p # port_list b1\<rparr>"
        using arg_cong [OF eq', of "\<lambda>x. snd (snd x)"] by (simp only: snd_conv)
      have r: "r = Some i" using arg_cong [OF eq', of fst] by (simp only: fst_conv)
      have "bridge_inv br'"
        unfolding br' by (rule bridge_inv_new_port [OF inv]) (use free_port_no_Some [OF Some] no in simp_all)
      moreover have "i \<in> set (port_nos br')" using no by (simp add: br' port_nos_def)
      ultimately show ?thesis using r by simp
    qed
  qed
qed

lemma bridge_inv_insert:
  assumes "bridge_inv br" and "n \<in> set (port_nos br)"
  shows "bridge_inv (br_fdb_insert jiffies (Some n) a l br)"
proof -
  have "fdb_ports (br_fdb_insert jiffies (Some n) a l br)"
    by (rule fdb_ports_insert [OF bridge_invD(4) [OF assms(1)]]) (use assms(2) in simp)
  moreover have "fdb_hashed (br_fdb_insert jiffies (Some n) a l br)"
    by (rule fdb_hashed_insert [OF bridge_invD(3) [OF assms(1)]])
  moreover have "root_ok (br_fdb_insert jiffies (Some n) a l br)"
    using bridge_invD(2) [OF assms(1)] by (simp only: root_ok_def br_fdb_insert_frame br_fdb_insert_frame2)
  ultimately show ?thesis using assms(1) by (simp add: bridge_inv_def br_fdb_insert_frame)
qed

lemma bridge_inv_recalculate: "bridge_inv br \<Longrightarrow> bridge_inv (br_stp_recalculate_bridge_id jiffies br)"
  by (blast intro: bridge_inv_sound sound_stp_recalculate_bridge_id bridge_invD)

lemma bridge_inv_add_if:
  assumes "bridge_inv br"
  shows "bridge_inv (snd (snd (br_add_if jiffies dev br)))"
proof -
  obtain r dev' br' where nb: "new_nbp (dev\<lparr>dev_refcnt := dev_refcnt dev + 1\<rparr>) br = (r, dev', br')"
    by (cases "new_nbp (dev\<lparr>dev_refcnt := dev_refcnt dev + 1\<rparr>) br") auto
  note inv = bridge_inv_new_nbp [OF assms nb]
  show ?thesis
  proof (cases r)
    case None
    with nb inv assms show ?thesis by (simp add: br_add_if_def)
  next
    case (Some n)
    define dev1 where "dev1 = dev'\<lparr>promiscuity := promiscuity dev' + 1\<rparr>"
    define b1 where "b1 = upd_port n (\<lambda>p. p\<lparr>p_dev := dev1\<rparr>) br'"
    define b2 where "b2 = br_stp_recalculate_bridge_id jiffies b1"
    define b3 where "b3 = br_fdb_insert jiffies (Some n) (dev_addr dev1) True b2"
    have inv1: "bridge_inv b1" unfolding b1_def using inv by (simp add: bridge_inv_port_dev)
    then have inv2: "bridge_inv b2" unfolding b2_def by (rule bridge_inv_recalculate)
    have "n \<in> set (port_nos b2)"
      using inv Some port_nos_upd_port [of "\<lambda>p. p\<lparr>p_dev := dev1\<rparr>" n br'] soundD(2) [OF sound_stp_recalculate_bridge_id [OF bridge_invD(2) [OF inv1]]]
      by (simp add: b2_def b1_def)
    then have inv3: "bridge_inv b3" unfolding b3_def by (rule bridge_inv_insert [OF inv2])
    have "bridge_inv (br_stp_enable_port jiffies n b3)"
      by (rule bridge_inv_keeps [OF inv3 keeps_stp_enable_port [OF bridge_invD(2) [OF inv3]]])
    with inv3 nb Some assms show ?thesis
      by (simp add: br_add_if_def Let_def b3_def b2_def b1_def dev1_def)
  qed
qed

section \<open>Deleting an interface, events\<close>

definition dev_ok :: "net_bridge \<Rightarrow> net_device \<Rightarrow> bool" where
  "dev_ok br dev \<longleftrightarrow>
     (case dev_br_port dev of No_port \<Rightarrow> True | Port n \<Rightarrow> n \<in> set (port_nos br) | Dangling_port \<Rightarrow> False)"

lemma bridge_inv_del_if:
  assumes "bridge_inv br" and "dev_ok br dev"
  shows "bridge_inv (snd (snd (br_del_if jiffies dev br)))"
proof (cases "dev_br_port dev")
  case No_port
  with assms show ?thesis
    by (simp add: br_del_if_def br_del_if_unlocked_def bridge_inv_recalculate)
next
  case (Port n)
  then have n: "n \<in> set (port_nos br)" using assms(2) by (simp add: dev_ok_def)
  then obtain p where p: "br_get_port br n = Some p" using br_get_port_ex_iff [of br n] by blast
  have "bridge_inv (br_stp_recalculate_bridge_id jiffies (del_port jiffies n br))"
    by (rule bridge_inv_recalculate [OF bridge_inv_del_port [OF assms(1) n]])
  with Port p show ?thesis by (simp add: br_del_if_def br_del_if_unlocked_def)
next
  case Dangling_port
  with assms(2) show ?thesis by (simp add: dev_ok_def)
qed

lemma bridge_inv_changeaddr:
  assumes "bridge_inv br"
  shows "bridge_inv (br_fdb_changeaddr n a br)"
proof -
  have "root_ok (changeaddr_from is n a br) = root_ok br" for "is"
    by (induction "is") (simp_all add: root_ok_def set_chain_def port_nos_def Let_def split: option.split)
  then have "root_ok (br_fdb_changeaddr n a br)"
    using bridge_invD(2) [OF assms] by (simp add: br_fdb_changeaddr_def)
  with assms show ?thesis
    using fdb_hashed_changeaddr fdb_ports_changeaddr
    by (simp add: bridge_inv_def) (simp add: br_fdb_changeaddr_def changeaddr_from_frame)
qed

lemma bridge_inv_device_event:
  assumes "bridge_inv br" and "br_get_port br n = Some p" and "dev_ok br (p_dev p)"
  shows "bridge_inv (br_device_event jiffies event n br)"
proof -
  note ok = bridge_invD(2) [OF assms(1)]
  have "bridge_inv (br_stp_disable_port jiffies n br)"
    by (rule bridge_inv_sound [OF assms(1) sound_stp_disable_port])
  moreover have "bridge_inv (br_stp_enable_port jiffies n br)"
    by (rule bridge_inv_keeps [OF assms(1) keeps_stp_enable_port [OF ok]])
  ultimately show ?thesis
    using bridge_inv_del_if [OF assms(1,3)] assms(1)
      bridge_inv_recalculate [OF bridge_inv_changeaddr [OF assms(1)]]
    by (cases event) (simp_all add: br_device_event_def deref_ok [OF assms(2)])
qed


section \<open>Control calls\<close>

lemma keeps_settings:
  "keeps br (br\<lparr>ageing_time := v\<rparr>)" "keeps br (br\<lparr>gc_interval := v\<rparr>)" "keeps br (br\<lparr>stp_enabled := b\<rparr>)"
  "keeps br (br\<lparr>br_filter_active := b\<rparr>)"
  "keeps br (br\<lparr>bridge_forward_delay := w, forward_delay := v\<rparr>)" "keeps br (br\<lparr>bridge_forward_delay := w\<rparr>)"
  "keeps br (br\<lparr>bridge_hello_time := w, hello_time := v\<rparr>)" "keeps br (br\<lparr>bridge_hello_time := w\<rparr>)"
  "keeps br (br\<lparr>bridge_max_age := w, max_age := v\<rparr>)" "keeps br (br\<lparr>bridge_max_age := w\<rparr>)"
  by (simp_all add: keeps_def stp_key_def port_devs_def port_nos_def)

lemma keeps_ops:
  "keeps a b \<Longrightarrow> keeps a (write_lock_filter b)" "keeps a b \<Longrightarrow> keeps a (write_unlock_filter b)"
  "keeps a b \<Longrightarrow> keeps a (snd (alloc b))" "keeps a b \<Longrightarrow> keeps a (b\<lparr>blacklist := l\<rparr>)"
  "keeps a b \<Longrightarrow> keeps a (b\<lparr>br_filter_active := c\<rparr>)"
  by (simp_all add: write_lock_filter_def write_unlock_filter_def keeps_def stp_key_def port_devs_def port_nos_def
      alloc_def split: list.split)

lemma keeps_add_filter_entry: "keeps br (snd (br_add_filter_entry e br))"
proof -
  let ?b1 = "write_unlock_filter (snd (alloc (write_lock_filter br)))"
  let ?b2 = "write_unlock_filter (snd (alloc (write_lock_filter ?b1)))"
  have 1: "keeps br ?b1" and 2: "keeps br ?b2" and 3: "keeps br (?b2\<lparr>blacklist := l\<rparr>)" for l
    by (intro keeps_ops keeps_refl)+
  show ?thesis
    by (cases e) (simp_all add: br_add_filter_entry_def Let_def case_prod_beta 1 2 3)
qed

lemma keeps_del_filter_entry: "keeps br (snd (br_del_filter_entry e br))"
proof -
  let ?b0 = "br\<lparr>br_filter_active := False\<rparr>"
  let ?b1 = "write_unlock_filter (snd (alloc (write_lock_filter ?b0)))"
  have 1: "keeps br ?b1" and 2: "keeps br (?b1\<lparr>br_filter_active := c\<rparr>)"
    and 3: "keeps br ((write_lock_filter ?b1)\<lparr>blacklist := l, br_filter_active := c\<rparr>)" for l c
    by (intro keeps_ops keeps_refl)+
  show ?thesis
    by (cases e) (simp_all add: br_del_filter_entry_def Let_def case_prod_beta 1 2 3 split: option.split)
qed

lemma keeps_flush_filter: "keeps br (snd (br_flush_filter br))"
proof -
  let ?b0 = "br\<lparr>br_filter_active := False\<rparr>"
  have "keeps br (write_unlock_filter ((write_lock_filter ?b0)\<lparr>blacklist := []\<rparr>)\<lparr>br_filter_active := c\<rparr>)" for c
    by (intro keeps_ops keeps_refl)
  then show ?thesis by (simp add: br_flush_filter_def Let_def keeps_settings)
qed

lemma keeps_show_walk: "keeps br (snd (snd (show_walk es maxnum walk br)))"
proof (induction es arbitrary: walk br)
  case (Cons e es)
  let ?b1 = "write_unlock_filter (snd (alloc (write_lock_filter br)))"
  have 1: "keeps br ?b1" by (intro keeps_ops keeps_refl)
  have "keeps br (snd (snd (show_walk es maxnum w ?b1)))" for w
    by (rule keeps_trans [OF 1 Cons.IH])
  with 1 show ?case by (simp add: Let_def case_prod_beta)
qed simp

lemma snd_copy_out [simp]: "snd (snd (copy_out env x br)) = br"
  by (simp add: copy_out_def)

definition env_ok :: "ioctl_env \<Rightarrow> net_bridge \<Rightarrow> bool" where
  "env_ok env br \<longleftrightarrow> (\<forall>i dev. dev_by_index env i = Some dev \<longrightarrow> dev_ok br dev)"

text \<open>All commands but those that add and remove a port leave the ports and the pointers as they are.\<close>

lemma sound_ioctl:
  assumes "bridge_inv br" and "cmd \<noteq> BRCTL_ADD_IF" and "cmd \<noteq> BRCTL_DEL_IF"
  shows "sound br (snd (snd (br_ioctl_device jiffies env cmd arg0 arg1 arg2 br)))"
proof -
  note ok = bridge_invD(2) [OF assms(1)]
  have k: "sound br b" if "keeps br b" for b by (rule sound_keeps [OF ok that])
  have prio: "sound br (br_stp_set_port_priority jiffies n v br)" if "br_get_port br n = Some p" for n v p
    using that br_get_port_ex_iff [of br n]
    by (blast intro: k keeps_stp_set_port_priority [OF ok] bridge_invD [OF assms(1)])
  show ?thesis
    using assms(2,3)
    by (cases cmd) (simp_all add: prio k keeps_settings keeps_add_filter_entry keeps_del_filter_entry
      keeps_flush_filter keeps_show_walk br_show_filter_entries_def sound_stp_set_bridge_priority
      sound_stp_set_path_cost case_prod_beta on_mfd_empty bridge_invD(6) [OF assms(1)]
      split: option.split sum.split)
qed

lemma bridge_inv_ioctl:
  assumes "bridge_inv br"
    and "\<And>dev. cmd = BRCTL_DEL_IF \<Longrightarrow> dev_by_index env (unat arg0) = Some dev \<Longrightarrow> dev_ok br dev"
  shows "bridge_inv (snd (snd (br_ioctl_device jiffies env cmd arg0 arg1 arg2 br)))"
proof -
  consider "cmd = BRCTL_ADD_IF" | "cmd = BRCTL_DEL_IF" | "cmd \<noteq> BRCTL_ADD_IF" "cmd \<noteq> BRCTL_DEL_IF" by blast
  then show ?thesis
  proof cases
    case 1
    then show ?thesis
      using bridge_inv_add_if [OF assms(1)] assms(1) by (simp add: case_prod_beta split: option.split)
  next
    case 2
    then show ?thesis
      using bridge_inv_del_if [OF assms(1)] assms by (simp add: case_prod_beta split: option.split)
  next
    case 3
    then show ?thesis by (rule bridge_inv_sound [OF assms(1) sound_ioctl [OF assms(1)]])
  qed
qed


section \<open>Steps\<close>

text \<open>
  What can happen to a bridge: frames from its ports and from the local stack, the tick, received
  protocol messages, the bridge device going up or down, changes of a port's device and the events
  they raise, control calls, and writes to the module's tables. The tick timer only runs while no
  topology change notification is due on the root bridge, the case the code does not guard.
\<close>

inductive bridge_step :: "br_sys \<Rightarrow> br_sys \<Rightarrow> bool" where
  step_receive: "br_get_port (snd s) n = Some p \<Longrightarrow> bridge_step s (handle_frame jiffies n skb s)"
| step_transmit: "bridge_step s (br_dev_xmit jiffies skb s)"
| step_tick: "tcn_safe jiffies (snd s) \<Longrightarrow> bridge_step s (on_bridge (br_tick jiffies) s)"
| step_bpdu: "br_get_port (snd s) n = Some p \<Longrightarrow> bridge_step s (on_bridge (br_stp_handle_bpdu jiffies n i buf) s)"
| step_open: "bridge_step s
    (on_bridge (\<lambda>br. (br_dev_open jiffies br)\<lparr>br_dev := (br_dev (br_dev_open jiffies br))\<lparr>dev_up := True\<rparr>\<rparr>) s)"
| step_stop: "bridge_step s
    (on_bridge (\<lambda>br. (br_dev_stop jiffies br)\<lparr>br_dev := (br_dev (br_dev_stop jiffies br))\<lparr>dev_up := False\<rparr>\<rparr>) s)"
| step_device: "br_get_port (snd s) n = Some p \<Longrightarrow>
    bridge_step s (on_bridge (upd_port n (\<lambda>p. p\<lparr>p_dev := d\<rparr>)) s)"
| step_event: "br_get_port (snd s) n = Some p \<Longrightarrow> dev_ok (snd s) (p_dev p) \<Longrightarrow>
    bridge_step s (on_bridge (br_device_event jiffies event n) s)"
| step_ioctl: "env_ok env (snd s) \<Longrightarrow>
    bridge_step s (on_bridge (\<lambda>br. snd (snd (br_ioctl_device jiffies env cmd arg0 arg1 arg2 br))) s)"
| step_filter_proc: "bridge_step s (snd (br_filter_write_proc buf (fst s)), snd s)"
| step_trigger_proc: "bridge_step s (snd (br_trigger_write_proc junk buf (fst s)), snd s)"

inductive_cases bridge_stepE: "bridge_step s t"

lemma snd_on_bridge [simp]: "snd (on_bridge f s) = f (snd s)"
  by (simp add: on_bridge_def)

lemma bridge_inv_handle_frame:
  assumes "bridge_inv (snd s)" and "br_get_port (snd s) n = Some p"
  shows "bridge_inv (snd (handle_frame jiffies n skb s))"
proof -
  have n: "n \<in> set (port_nos (snd s))" using assms(2) br_get_port_ex_iff [of "snd s" n] by blast
  have "bridge_inv (learn_source jiffies n skb (snd s))"
    using bridge_inv_insert [OF assms(1) n] assms(1) by (simp add: learn_source_def split: option.split)
  then show ?thesis
    by (rule bridge_inv_keeps [OF _ keeps_handle_frame [OF bridge_invD(3,4) [OF assms(1)] assms(2)]])
qed

lemma bridge_inv_tick:
  assumes "bridge_inv br" and "tcn_safe jiffies br"
  shows "bridge_inv (br_tick jiffies br)"
proof -
  have "keeps br (br\<lparr>gc_timer := t\<rparr>)" for t by simp
  then have "bridge_inv (check_gc_timer jiffies br)"
    using assms(1) bridge_inv_cleanup bridge_inv_keeps by (simp add: check_gc_timer_def)
  then have "bridge_inv (br_check_timers jiffies br)"
    by (rule bridge_inv_sound [OF _ sound_check_timers [OF bridge_invD(2) [OF assms(1)] assms(2)]])
  then show ?thesis
    unfolding br_tick_def by (rule bridge_inv_keeps) simp
qed

lemma bridge_inv_open: "bridge_inv br \<Longrightarrow> bridge_inv (br_dev_open jiffies br)"
  unfolding br_dev_open_def by (blast intro: bridge_inv_keeps keeps_stp_enable_bridge bridge_invD)

lemma bridge_inv_stop:
  assumes "bridge_inv br"
  shows "bridge_inv (br_dev_stop jiffies br)"
proof -
  have "keeps br (br\<lparr>topology_change := False\<rparr>)" by simp
  then have "bridge_inv (br_fdb_cleanup jiffies (br\<lparr>topology_change := False\<rparr>))"
    by (rule bridge_inv_cleanup [OF bridge_inv_keeps [OF assms]])
  then show ?thesis
    unfolding br_dev_stop_def
    by (rule bridge_inv_sound [OF _ sound_stp_disable_bridge [OF bridge_invD(2) [OF assms]]])
qed

lemma bridge_inv_step:
  assumes "bridge_step s t" and "bridge_inv (snd s)"
  shows "bridge_inv (snd t)"
  using assms
proof cases
  case (step_receive n p jiffies skb)
  then show ?thesis using bridge_inv_handle_frame [OF assms(2)] by blast
next
  case (step_transmit jiffies skb)
  then show ?thesis
    using bridge_inv_keeps [OF assms(2) keeps_dev_xmit [OF bridge_invD(3,4) [OF assms(2)]]] by simp
next
  case (step_tick jiffies)
  then show ?thesis using bridge_inv_tick [OF assms(2)] by simp
next
  case (step_bpdu n p jiffies i buf)
  then have "n \<in> set (port_nos (snd s))" using br_get_port_ex_iff [of "snd s" n] by blast
  then show ?thesis
    using step_bpdu(1) bridge_inv_sound [OF assms(2) sound_stp_handle_bpdu [OF bridge_invD(2) [OF assms(2)]]]
    by simp
next
  case (step_open jiffies)
  then show ?thesis using bridge_inv_port_dev(2) [OF bridge_inv_open [OF assms(2)]] by simp
next
  case (step_stop jiffies)
  then show ?thesis using bridge_inv_port_dev(2) [OF bridge_inv_stop [OF assms(2)]] by simp
next
  case (step_device n p d)
  then show ?thesis using bridge_inv_port_dev(1) [OF assms(2)] by simp
next
  case (step_event n p jiffies event)
  then show ?thesis using bridge_inv_device_event [OF assms(2)] by simp
next
  case (step_ioctl env jiffies cmd arg0 arg1 arg2)
  then show ?thesis using bridge_inv_ioctl [OF assms(2)] by (simp add: env_ok_def)
next
  case (step_filter_proc buf)
  then show ?thesis using assms(2) by simp
next
  case (step_trigger_proc junk buf)
  then show ?thesis using assms(2) by simp
qed

lemma bridge_inv_new_nb: "bridge_inv (new_nb name m i)"
  by (simp add: bridge_inv_def new_nb_def port_nos_def root_ok_def fdb_hashed_def fdb_ports_def
      fdb_all_def Let_def br_mfd_init_def)

lemma bridge_inv_reachable:
  assumes "bridge_step\<^sup>*\<^sup>* (g, new_nb name m i) s"
  shows "bridge_inv (snd s)"
  using assms by (induction rule: rtranclp_induct) (use bridge_inv_new_nb bridge_inv_step in auto)

end
