(* ===== verification/Br_Stp_Spec.thy ===== *)
theory Br_Stp_Spec
  imports Br_Stp "HOL-Library.Product_Lexorder"
begin

text \<open>
  What the spanning tree machine computes, against IEEE 802.1D: the root port carries the best
  priority vector, received information replaces a port's own when it is better, and after a
  selection exactly the ports that are neither root nor designated are blocked.
\<close>

section \<open>Root selection finds the best priority vector\<close>

text \<open>A port may become the root port when it is enabled, not designated, and hears of a better root.\<close>

definition root_candidate :: "net_bridge \<Rightarrow> net_bridge_port \<Rightarrow> bool" where
  "root_candidate br p \<longleftrightarrow>
     p_state p \<noteq> BR_STATE_DISABLED \<and> \<not> br_is_designated_port br p \<and> p_designated_root p < bridge_ident br"

text \<open>The priority vector of IEEE 802.1D: root, cost, bridge, port, receiving port.\<close>

definition root_vector :: "net_bridge_port \<Rightarrow> bridge_id \<times> int \<times> bridge_id \<times> u16 \<times> u16" where
  "root_vector p =
     (p_designated_root p, sint (p_designated_cost p + path_cost p), p_designated_bridge p,
      p_designated_port p, port_id p)"

text \<open>The identifiers at hand are among those the comparison routine orders correctly.\<close>

definition ids_safe :: "net_bridge \<Rightarrow> bool" where
  "ids_safe br \<longleftrightarrow>
     (\<forall>p\<in>set (port_list br).
        bid_safe (bridge_ident br) (p_designated_root p) \<and>
        (\<forall>q\<in>set (port_list br). bid_safe (p_designated_root p) (p_designated_root q) \<and>
           bid_safe (p_designated_bridge p) (p_designated_bridge q)))"

lemma bid_cmp_not_less:
  "bid_safe a b \<Longrightarrow> bid_cmp a b \<le> 0 \<longleftrightarrow> \<not> b < a"
  using bid_cmp_greater_order [of a b] by (simp add: not_less [symmetric])

lemma should_become_root_first:
  assumes "bid_safe (bridge_ident br) (p_designated_root p)"
  shows "br_should_become_root_port br p 0 = Some (root_candidate br p)"
  using bid_cmp_not_less [OF assms] by (simp add: br_should_become_root_port_def root_candidate_def)

lemma lex_cascade:
  fixes a1 a2 :: "'a :: linorder" and b1 b2 :: "'b :: linorder" and c1 c2 :: "'c :: linorder"
    and d1 d2 :: "'d :: linorder" and e1 e2 :: "'e :: linorder"
  shows "(if a1 < a2 then True else if a2 < a1 then False
     else if b1 < b2 then True else if b2 < b1 then False
     else if c1 < c2 then True else if c2 < c1 then False
     else if d1 < d2 then True else if d2 < d1 then False
     else if e1 < e2 then True else False) \<longleftrightarrow> (a1, b1, c1, d1, e1) < (a2, b2, c2, d2, e2)"
  by (cases a1 a2 rule: linorder_cases; cases b1 b2 rule: linorder_cases;
      cases c1 c2 rule: linorder_cases; cases d1 d2 rule: linorder_cases) auto

lemma should_become_root_other:
  assumes "br_get_port br r = Some rp" and "r \<noteq> 0"
    and "bid_safe (bridge_ident br) (p_designated_root p)"
    and "bid_safe (p_designated_root p) (p_designated_root rp)"
    and "bid_safe (p_designated_bridge p) (p_designated_bridge rp)"
  shows "br_should_become_root_port br p r = Some (root_candidate br p \<and> root_vector p < root_vector rp)"
proof (cases "root_candidate br p")
  case True
  then have "br_should_become_root_port br p r = Some
     (if p_designated_root p < p_designated_root rp then True
      else if p_designated_root rp < p_designated_root p then False
      else if sint (p_designated_cost p + path_cost p) < sint (p_designated_cost rp + path_cost rp) then True
      else if sint (p_designated_cost rp + path_cost rp) < sint (p_designated_cost p + path_cost p) then False
      else if p_designated_bridge p < p_designated_bridge rp then True
      else if p_designated_bridge rp < p_designated_bridge p then False
      else if p_designated_port p < p_designated_port rp then True
      else if p_designated_port rp < p_designated_port p then False
      else if port_id p < port_id rp then True else False)"
    by (simp add: br_should_become_root_port_def root_candidate_def Let_def assms(1,2)
        bid_cmp_not_less [OF assms(3)] bid_cmp_less_order [OF assms(4)] bid_cmp_greater_order [OF assms(4)]
        bid_cmp_less_order [OF assms(5)] bid_cmp_greater_order [OF assms(5)] cong: if_cong split del: if_split)
  with True show ?thesis unfolding lex_cascade root_vector_def by simp
next
  case no: False
  have "br_should_become_root_port br p r = Some False"
  proof (cases "p_state p = BR_STATE_DISABLED \<or> br_is_designated_port br p")
    case False
    then have "bid_cmp (bridge_ident br) (p_designated_root p) \<le> 0"
      using no bid_cmp_not_less [OF assms(3)] by (simp add: root_candidate_def)
    then show ?thesis by (simp add: br_should_become_root_port_def)
  qed (simp add: br_should_become_root_port_def)
  with no show ?thesis by simp
qed

text \<open>The best of the candidates seen so far.\<close>

definition best_root :: "net_bridge \<Rightarrow> net_bridge_port list \<Rightarrow> nat \<Rightarrow> bool" where
  "best_root br ps r \<longleftrightarrow>
     (if r = 0 then \<forall>q\<in>set ps. \<not> root_candidate br q
      else \<exists>p\<in>set ps. port_no p = r \<and> root_candidate br p
             \<and> (\<forall>q\<in>set ps. root_candidate br q \<longrightarrow> root_vector p \<le> root_vector q))"

lemma best_root_step:
  assumes "best_root br ps r" and "port_no p \<noteq> 0"
    and "\<And>rp. rp \<in> set ps \<Longrightarrow> port_no rp = r \<Longrightarrow> br_get_port br r = Some rp"
    and "bid_safe (bridge_ident br) (p_designated_root p)"
    and "\<And>q. q \<in> set ps \<Longrightarrow> bid_safe (p_designated_root p) (p_designated_root q)"
    and "\<And>q. q \<in> set ps \<Longrightarrow> bid_safe (p_designated_bridge p) (p_designated_bridge q)"
  shows "\<exists>r'. root_port_step br p (Some r) = Some r' \<and> best_root br (ps @ [p]) r'"
proof (cases "r = 0")
  case True
  then have "root_port_step br p (Some r) = Some (if root_candidate br p then port_no p else 0)"
    by (simp add: root_port_step_def should_become_root_first [OF assms(4)])
  moreover have "best_root br (ps @ [p]) (if root_candidate br p then port_no p else 0)"
    using assms(1,2) True by (simp add: best_root_def)
  ultimately show ?thesis by blast
next
  case False
  with assms(1) obtain rp where rp: "rp \<in> set ps" "port_no rp = r" "root_candidate br rp"
    and best: "\<forall>q\<in>set ps. root_candidate br q \<longrightarrow> root_vector rp \<le> root_vector q"
    unfolding best_root_def by (simp only: if_False) blast
  let ?b = "root_candidate br p \<and> root_vector p < root_vector rp"
  have step: "root_port_step br p (Some r) = Some (if ?b then port_no p else r)"
    using should_become_root_other [OF assms(3) [OF rp(1,2)] False assms(4) assms(5,6) [OF rp(1)]]
    by (simp add: root_port_step_def)
  have "best_root br (ps @ [p]) (if ?b then port_no p else r)"
  proof (cases ?b)
    case True
    have "\<forall>q\<in>set ps. root_candidate br q \<longrightarrow> root_vector p \<le> root_vector q"
      using best True by (meson less_imp_le order_trans)
    then show ?thesis using True assms(2) by (simp add: best_root_def)
  next
    case nb: False
    have "\<forall>q\<in>set (ps @ [p]). root_candidate br q \<longrightarrow> root_vector rp \<le> root_vector q"
      using best nb by (simp add: not_less)
    then have "best_root br (ps @ [p]) r"
      unfolding best_root_def using False rp by (simp only: if_False set_append) blast
    then show ?thesis unfolding if_not_P [OF nb] .
  qed
  with step show ?thesis by blast
qed

lemma best_root_fold:
  assumes "best_root br ps r" and "port_list br = ps @ qs" and "ids_safe br"
    and "0 \<notin> set (port_nos br)" and "distinct (port_nos br)"
  shows "\<exists>r'. fold (root_port_step br) qs (Some r) = Some r' \<and> best_root br (port_list br) r'"
  using assms
proof (induction qs arbitrary: ps r)
  case (Cons p qs)
  have p: "p \<in> set (port_list br)" using Cons.prems(2) by simp
  have sub: "q \<in> set ps \<Longrightarrow> q \<in> set (port_list br)" for q using Cons.prems(2) by simp
  have "\<exists>r'. root_port_step br p (Some r) = Some r' \<and> best_root br (ps @ [p]) r'"
  proof (rule best_root_step [OF Cons.prems(1)])
    show "port_no p \<noteq> 0" using Cons.prems(4) p by (metis imageI list.set_map port_nos_def)
    show "br_get_port br r = Some rp" if "rp \<in> set ps" "port_no rp = r" for rp
      using br_get_port_in_list [OF Cons.prems(5) sub [OF that(1)]] that(2) by simp
  qed (use Cons.prems(3) p sub in \<open>simp_all add: ids_safe_def\<close>)
  then obtain r' where "root_port_step br p (Some r) = Some r'" "best_root br (ps @ [p]) r'" by blast
  with Cons.IH [of "ps @ [p]" r'] Cons.prems(2-) show ?case by simp
qed simp

lemma br_root_selection_best:
  assumes "ids_safe br" and "0 \<notin> set (port_nos br)" and "distinct (port_nos br)"
  shows "best_root br (port_list br) (root_port (br_root_selection br))"
    and "root_port (br_root_selection br) = 0 \<Longrightarrow>
      designated_root (br_root_selection br) = bridge_ident br \<and> root_path_cost (br_root_selection br) = 0"
    and "br_get_port br (root_port (br_root_selection br)) = Some p \<Longrightarrow> root_port (br_root_selection br) \<noteq> 0 \<Longrightarrow>
      designated_root (br_root_selection br) = p_designated_root p
      \<and> root_path_cost (br_root_selection br) = p_designated_cost p + path_cost p"
proof -
  have "best_root br [] 0" by (simp add: best_root_def)
  from best_root_fold [OF this _ assms, of "port_list br"] obtain r
    where r: "fold (root_port_step br) (port_list br) (Some 0) = Some r" and best: "best_root br (port_list br) r"
    by auto
  have root: "root_port (br_root_selection br) = r"
    using r by (simp add: br_root_selection_def fault_def split: option.split)
  show "best_root br (port_list br) (root_port (br_root_selection br))" using best root by simp
  show "root_port (br_root_selection br) = 0 \<Longrightarrow>
      designated_root (br_root_selection br) = bridge_ident br \<and> root_path_cost (br_root_selection br) = 0"
    unfolding root using r by (simp add: br_root_selection_def)
  show "br_get_port br (root_port (br_root_selection br)) = Some p \<Longrightarrow> root_port (br_root_selection br) \<noteq> 0 \<Longrightarrow>
      designated_root (br_root_selection br) = p_designated_root p
      \<and> root_path_cost (br_root_selection br) = p_designated_cost p + path_cost p"
    unfolding root using r by (simp add: br_root_selection_def)
qed

section \<open>Walks that change each port by itself\<close>

text \<open>
  A walk whose body changes the port at hand by \<open>g\<close>, and keeps \<open>K\<close>, changes every port by \<open>g\<close>.
\<close>

lemma map_upd_if: "k \<notin> A \<Longrightarrow> (\<And>x. key (g x) = key x) \<Longrightarrow>
   map (\<lambda>x. if key x \<in> A then g x else x) (map (\<lambda>x. if key x = k then g x else x) xs) =
   map (\<lambda>x. if key x \<in> insert k A then g x else x) xs"
  by (induction xs) auto

lemma key_unique: "distinct (map k xs) \<Longrightarrow> find (\<lambda>x. k x = n) xs = Some x \<Longrightarrow> y \<in> set xs \<Longrightarrow> k y = n \<Longrightarrow> y = x"
  using find_key_in [of k xs y] by auto

text \<open>On a list of distinct ports, a change of the port numbered \<open>n\<close> is a change of the port found.\<close>

lemma port_map_at:
  assumes "distinct (port_nos b)" and "br_get_port b n = Some p"
  shows "map (\<lambda>q. if port_no q = n then h q else q) (port_list b) =
    map (\<lambda>q. if port_no q = n then h p else q) (port_list b)"
  using key_unique [OF assms(1) [unfolded port_nos_def] assms(2) [unfolded br_get_port_def]]
  by (intro map_cong refl) (simp split: if_split)

lemma port_list_upd_port:
  "port_list (upd_port n f b) = map (\<lambda>q. if port_no q = n then f q else q) (port_list b)"
  by (simp add: upd_port_def)

lemma port_list_unchanged:
  assumes "distinct (port_nos b)" and "br_get_port b n = Some p"
  shows "port_list b = map (\<lambda>q. if port_no q = n then p else q) (port_list b)"
  using port_map_at [OF assms, of id] by (simp cong: if_cong)

lemma for_each_port_map:
  assumes "distinct (port_nos br)" and "K br" and key: "\<And>q. port_no (g q) = port_no q"
    and body: "\<And>b p. K b \<Longrightarrow> distinct (port_nos b) \<Longrightarrow> br_get_port b (port_no p) = Some p \<Longrightarrow>
      port_list (f p b) = map (\<lambda>q. if port_no q = port_no p then g p else q) (port_list b) \<and> K (f p b)"
  shows "port_list (for_each_port f br) = map g (port_list br) \<and> K (for_each_port f br)"
proof -
  have "port_list (fold (\<lambda>n. deref n f) ns b) = map (\<lambda>q. if port_no q \<in> set ns then g q else q) (port_list b)
      \<and> K (fold (\<lambda>n. deref n f) ns b)"
    if "distinct ns" and "set ns \<subseteq> set (port_nos b)" and "K b" and "distinct (port_nos b)" for ns b
    using that
  proof (induction ns arbitrary: b)
    case (Cons n ns)
    from Cons.prems(2) obtain p where p: "br_get_port b n = Some p"
      using br_get_port_ex_iff [of b n] by auto
    note n = br_get_port_port_no [OF p]
    have "port_list (deref n f b) = map (\<lambda>q. if port_no q = n then g p else q) (port_list b)"
      and K: "K (deref n f b)"
      using body [of b p] Cons.prems(3,4) p n by (simp_all add: deref_ok)
    then have step: "port_list (deref n f b) = map (\<lambda>q. if port_no q = n then g q else q) (port_list b)"
      using port_map_at [OF Cons.prems(4) p, of g] by simp
    have nos: "port_nos (deref n f b) = port_nos b"
      using map_key_map_upd [of port_no g n "port_list b"] key by (simp add: port_nos_def step)
    from Cons.IH [of "deref n f b"] Cons.prems K nos
    have "port_list (fold (\<lambda>n. deref n f) ns (deref n f b)) =
        map (\<lambda>q. if port_no q \<in> set ns then g q else q) (port_list (deref n f b))
        \<and> K (fold (\<lambda>n. deref n f) ns (deref n f b))" by simp
    then show ?case
      unfolding step using map_upd_if [of n "set ns" port_no g "port_list b"] Cons.prems(1) key by simp
  qed simp
  from this [OF assms(1) subset_refl assms(2,1)]
  have *: "port_list (for_each_port f br) = map (\<lambda>q. if port_no q \<in> set (port_nos br) then g q else q) (port_list br)"
    and K: "K (for_each_port f br)" by (simp_all add: for_each_port_def)
  have "map (\<lambda>q. if port_no q \<in> set (port_nos br) then g q else q) (port_list br) = map g (port_list br)"
    by (rule map_cong [OF refl]) (simp add: port_nos_def)
  with * K show ?thesis by simp
qed

section \<open>Designated ports\<close>

lemma port_list_designated_port_selection:
  assumes "distinct (port_nos br)"
  shows "port_list (br_designated_port_selection br) =
    map (\<lambda>p. if p_state p \<noteq> BR_STATE_DISABLED \<and> br_should_become_designated_port br p
             then br_become_designated_port br p else p) (port_list br)"
proof -
  let ?K = "\<lambda>b. bridge_ident b = bridge_ident br \<and> designated_root b = designated_root br
    \<and> root_path_cost b = root_path_cost br"
  have cong: "br_should_become_designated_port b p = br_should_become_designated_port br p"
    "br_become_designated_port b = br_become_designated_port br" if "?K b" for b p
    using that by (simp_all add: br_should_become_designated_port_def br_become_designated_port_def
        br_is_designated_port_def fun_eq_iff)
  show ?thesis
    unfolding br_designated_port_selection_def
  proof (rule for_each_port_map [where K = ?K, THEN conjunct1, OF assms])
    fix b p
    assume K: "?K b" and d: "distinct (port_nos b)" and p: "br_get_port b (port_no p) = Some p"
    show "port_list (if p_state p \<noteq> BR_STATE_DISABLED \<and> br_should_become_designated_port b p
         then upd_port (port_no p) (br_become_designated_port b) b else b) =
      map (\<lambda>q. if port_no q = port_no p
               then if p_state p \<noteq> BR_STATE_DISABLED \<and> br_should_become_designated_port br p
                    then br_become_designated_port br p else p
               else q) (port_list b) \<and>
      ?K (if p_state p \<noteq> BR_STATE_DISABLED \<and> br_should_become_designated_port b p
         then upd_port (port_no p) (br_become_designated_port b) b else b)"
      using port_list_unchanged [OF d p] port_map_at [OF d p, of "br_become_designated_port br"] K
      by (simp add: cong [OF K] port_list_upd_port) (simp add: upd_port_def)
  qed (simp_all add: br_become_designated_port_def)
qed


section \<open>Port states\<close>

definition forwarding_port :: "u32 \<Rightarrow> bool \<Rightarrow> net_bridge_port \<Rightarrow> net_bridge_port" where
  "forwarding_port jiffies stp p =
     (if p_state p = BR_STATE_BLOCKING
      then p\<lparr>p_state := (if stp then BR_STATE_LISTENING else BR_STATE_LEARNING),
             forward_delay_timer := br_timer_set jiffies (forward_delay_timer p)\<rparr>
      else p)"

definition blocking_port :: "net_bridge_port \<Rightarrow> net_bridge_port" where
  "blocking_port p =
     (if p_state p \<noteq> BR_STATE_DISABLED \<and> p_state p \<noteq> BR_STATE_BLOCKING
      then p\<lparr>p_state := BR_STATE_BLOCKING, forward_delay_timer := br_timer_clear (forward_delay_timer p)\<rparr>
      else p)"

text \<open>What a selection makes of a port.\<close>

definition selected_port :: "u32 \<Rightarrow> net_bridge \<Rightarrow> net_bridge_port \<Rightarrow> net_bridge_port" where
  "selected_port jiffies br p =
     (if p_state p = BR_STATE_DISABLED then p
      else if port_no p = root_port br
      then forwarding_port jiffies (stp_enabled br) (p\<lparr>config_pending := False, p_topology_change_ack := False\<rparr>)
      else if br_is_designated_port br p
      then forwarding_port jiffies (stp_enabled br) (p\<lparr>message_age_timer := br_timer_clear (message_age_timer p)\<rparr>)
      else blocking_port (p\<lparr>config_pending := False, p_topology_change_ack := False\<rparr>))"

lemma topology_change_detection_ports:
  "port_list (br_topology_change_detection jiffies b) = port_list b"
  "stp_enabled (br_topology_change_detection jiffies b) = stp_enabled b"
proof -
  have "port_list (br_transmit_tcn b) = port_list b" "stp_enabled (br_transmit_tcn b) = stp_enabled b"
    using stp_viewD(1,5) [OF stp_view_send_bpdu [of "root_port b" _ b]]
    by (simp_all add: br_transmit_tcn_def br_send_tcn_bpdu_def)
  then show "port_list (br_topology_change_detection jiffies b) = port_list b"
    "stp_enabled (br_topology_change_detection jiffies b) = stp_enabled b"
    by (simp_all add: br_topology_change_detection_def Let_def)
qed

lemma make_forwarding_ports:
  assumes "distinct (port_nos b)" and "br_get_port b n = Some p"
  shows "port_list (br_make_forwarding jiffies n b) =
      map (\<lambda>q. if port_no q = n then forwarding_port jiffies (stp_enabled b) p else q) (port_list b)"
    and "stp_enabled (br_make_forwarding jiffies n b) = stp_enabled b"
proof -
  show "port_list (br_make_forwarding jiffies n b) =
      map (\<lambda>q. if port_no q = n then forwarding_port jiffies (stp_enabled b) p else q) (port_list b)"
  proof (cases "p_state p = BR_STATE_BLOCKING")
    case True
    then show ?thesis
      by (simp only: br_make_forwarding_def deref_ok [OF assms(2)] forwarding_port_def if_True simp_thms
          port_list_upd_port) (rule port_map_at [OF assms])
  next
    case False
    then show ?thesis
      using port_list_unchanged [OF assms]
      by (simp only: br_make_forwarding_def deref_ok [OF assms(2)] forwarding_port_def if_False)
  qed
  show "stp_enabled (br_make_forwarding jiffies n b) = stp_enabled b"
    by (simp add: br_make_forwarding_def deref_ok [OF assms(2)] upd_port_def)
qed

lemma make_blocking_ports:
  assumes "distinct (port_nos b)" and "br_get_port b n = Some p"
  shows "port_list (br_make_blocking jiffies n b) =
      map (\<lambda>q. if port_no q = n then blocking_port p else q) (port_list b)"
    and "stp_enabled (br_make_blocking jiffies n b) = stp_enabled b"
proof -
  show "port_list (br_make_blocking jiffies n b) =
      map (\<lambda>q. if port_no q = n then blocking_port p else q) (port_list b)"
  proof (cases "p_state p \<noteq> BR_STATE_DISABLED \<and> p_state p \<noteq> BR_STATE_BLOCKING")
    case True
    then have "port_list (br_make_blocking jiffies n b) = map (\<lambda>q. if port_no q = n then
        q\<lparr>p_state := BR_STATE_BLOCKING, forward_delay_timer := br_timer_clear (forward_delay_timer q)\<rparr> else q)
        (port_list b)"
      by (simp add: br_make_blocking_def deref_ok [OF assms(2)] port_list_upd_port
          topology_change_detection_ports)
    also have "\<dots> = map (\<lambda>q. if port_no q = n then blocking_port p else q) (port_list b)"
      using True by (simp only: blocking_port_def if_True simp_thms) (rule port_map_at [OF assms])
    finally show ?thesis .
  next
    case False
    then show ?thesis
      using port_list_unchanged [OF assms]
      by (simp only: br_make_blocking_def deref_ok [OF assms(2)] blocking_port_def if_False)
  qed
  show "stp_enabled (br_make_blocking jiffies n b) = stp_enabled b"
    by (simp add: br_make_blocking_def deref_ok [OF assms(2)] topology_change_detection_ports upd_port_def Let_def)
qed

text \<open>A port is written first, then moved between states.\<close>

lemma upd_then_state:
  assumes "distinct (port_nos b)" and "br_get_port b n = Some p" and "\<And>p. port_no (f p) = port_no p"
  shows "distinct (port_nos (upd_port n f b))" "br_get_port (upd_port n f b) n = Some (f p)"
    "map (\<lambda>q. if port_no q = n then h else q) (port_list (upd_port n f b)) =
     map (\<lambda>q. if port_no q = n then h else q) (port_list b)"
    "stp_enabled (upd_port n f b) = stp_enabled b"
  using assms port_nos_upd_port [of f n b] br_get_port_upd_port [of f n b n]
  by (simp_all add: port_list_upd_port comp_def cong: if_cong) (simp add: upd_port_def)

lemma port_list_state_selection:
  assumes "distinct (port_nos br)" and "root_ok br"
  shows "port_list (br_port_state_selection jiffies br) = map (selected_port jiffies br) (port_list br)"
proof -
  let ?K = "\<lambda>b. keeps br b \<and> stp_enabled b = stp_enabled br"
  let ?f = "\<lambda>p br. let n = port_no p in
       if p_state p \<noteq> BR_STATE_DISABLED
       then
         (if n = root_port br
          then br_make_forwarding jiffies n
                 (upd_port n (\<lambda>p. p\<lparr>config_pending := False, p_topology_change_ack := False\<rparr>) br)
          else if br_is_designated_port br p
          then br_make_forwarding jiffies n
                 (upd_port n (\<lambda>p. p\<lparr>message_age_timer := br_timer_clear (message_age_timer p)\<rparr>) br)
          else br_make_blocking jiffies n
                 (upd_port n (\<lambda>p. p\<lparr>config_pending := False, p_topology_change_ack := False\<rparr>) br))
       else br"
  show ?thesis
    unfolding br_port_state_selection_def
  proof (rule for_each_port_map [where K = ?K, THEN conjunct1, OF assms(1)])
    fix b p
    assume K: "?K b" and d: "distinct (port_nos b)" and p: "br_get_port b (port_no p) = Some p"
    have same: "root_port b = root_port br" "br_is_designated_port b p = br_is_designated_port br p"
      using K by (simp_all add: keeps_def stp_key_def br_is_designated_port_def)
    from K have k: "keeps br b" by simp
    have ok: "root_ok b" using keepsD [OF k] assms(2) by simp
    have n: "port_no p \<in> set (port_nos b)" using p br_get_port_ex_iff [of b] by blast
    have "keeps b (?f p b)"
      unfolding Let_def by (intro keeps_if keeps_upd_make [OF ok n] keeps_refl) simp_all
    then have 1: "keeps br (?f p b)" using K by (blast intro: keeps_trans)
    have 2: "port_list (?f p b) = map (\<lambda>q. if port_no q = port_no p then selected_port jiffies br p else q) (port_list b)
      \<and> stp_enabled (?f p b) = stp_enabled b"
    proof (cases "p_state p = BR_STATE_DISABLED")
      case True
      then have sel: "selected_port jiffies br p = p" and f: "?f p b = b" by (simp_all add: selected_port_def)
      show ?thesis unfolding sel f using port_list_unchanged [OF d p] by simp
    next
      case on: False
      let ?u1 = "upd_port (port_no p) (\<lambda>p. p\<lparr>config_pending := False, p_topology_change_ack := False\<rparr>) b"
      let ?u2 = "upd_port (port_no p) (\<lambda>p. p\<lparr>message_age_timer := br_timer_clear (message_age_timer p)\<rparr>) b"
      note u1 = upd_then_state [OF d p, of "\<lambda>p. p\<lparr>config_pending := False, p_topology_change_ack := False\<rparr>", simplified]
      note u2 = upd_then_state [OF d p, of "\<lambda>p. p\<lparr>message_age_timer := br_timer_clear (message_age_timer p)\<rparr>", simplified]
      note facts = make_forwarding_ports [OF u1(1,2), of jiffies] make_blocking_ports [OF u1(1,2), of jiffies]
        make_forwarding_ports [OF u2(1,2), of jiffies]
      show ?thesis
      proof (cases "root_port br = port_no p")
        case True
        then show ?thesis
          using on K facts by (simp add: Let_def selected_port_def same u1(3,4) cong: if_cong)
      next
        case False
        then show ?thesis
          using on K facts by (simp add: Let_def selected_port_def same u1(3,4) u2(3,4) cong: if_cong)
      qed
    qed
    show "port_list (?f p b) = map (\<lambda>q. if port_no q = port_no p then selected_port jiffies br p else q) (port_list b)
        \<and> ?K (?f p b)"
      using 1 2 K by simp
  qed (simp_all add: selected_port_def forwarding_port_def blocking_port_def)
qed

end
