(* ===== verification/Br_Hash_Chain.thy ===== *)
theory Br_Hash_Chain
  imports Br_Fdb
begin

text \<open>
  The doubly linked hash chains of br_fdb.c at the level of pointers: \<^verbatim>\<open>__hash_link\<close>,
  \<^verbatim>\<open>__hash_unlink\<close> and the loop that unlinks entries while it walks a bucket. They refine the lists
  that theory Br_Fdb keeps per bucket.
\<close>

section \<open>Memory\<close>

text \<open>
  A pointer cell is the head of a bucket or the \<^verbatim>\<open>next_hash\<close> field of an entry; \<^verbatim>\<open>pprev_hash\<close> is
  the address of such a cell. Entries are known by their addresses, NULL is \<open>None\<close>.
\<close>

datatype slot = Head nat | Next nat

record chain_heap =
  heads :: "nat \<Rightarrow> nat option"
  next_hash :: "nat \<Rightarrow> nat option"
  pprev_hash :: "nat \<Rightarrow> slot option"

primrec load :: "slot \<Rightarrow> chain_heap \<Rightarrow> nat option" where
  "load (Head i) h = heads h i"
| "load (Next a) h = next_hash h a"

primrec store :: "slot \<Rightarrow> nat option \<Rightarrow> chain_heap \<Rightarrow> chain_heap" where
  "store (Head i) v h = h\<lparr>heads := (heads h)(i := v)\<rparr>"
| "store (Next a) v h = h\<lparr>next_hash := (next_hash h)(a := v)\<rparr>"

definition set_pprev :: "nat \<Rightarrow> slot option \<Rightarrow> chain_heap \<Rightarrow> chain_heap" where
  "set_pprev a s h = h\<lparr>pprev_hash := (pprev_hash h)(a := s)\<rparr>"

section \<open>Linking and unlinking\<close>

definition hash_link :: "nat \<Rightarrow> nat \<Rightarrow> chain_heap \<Rightarrow> chain_heap" where
  "hash_link ent i h0 =
     (let h1 = store (Next ent) (load (Head i) h0) h0;
          h2 = (case load (Next ent) h1 of None \<Rightarrow> h1 | Some n \<Rightarrow> set_pprev n (Some (Next ent)) h1);
          h3 = store (Head i) (Some ent) h2
      in set_pprev ent (Some (Head i)) h3)"

text \<open>\<open>None\<close>: the entry is on no chain, and the code writes through a NULL pointer.\<close>

definition hash_unlink :: "nat \<Rightarrow> chain_heap \<Rightarrow> chain_heap option" where
  "hash_unlink ent h0 =
     (case pprev_hash h0 ent of
        None \<Rightarrow> None
      | Some s \<Rightarrow>
          (let h1 = store s (next_hash h0 ent) h0;
               h2 = (case next_hash h1 ent of None \<Rightarrow> h1 | Some n \<Rightarrow> set_pprev n (pprev_hash h1 ent) h1);
               h3 = store (Next ent) None h2
           in Some (set_pprev ent None h3)))"

text \<open>
  The loop of \<^verbatim>\<open>br_fdb_cleanup\<close> and \<^verbatim>\<open>br_fdb_delete_by_port\<close> over one bucket: the successor is read
  before the entry is unlinked. The fuel bounds the number of entries visited.
\<close>

fun chain_sweep ::
    "('s \<Rightarrow> 'a \<Rightarrow> 'a option) \<Rightarrow> ('a \<Rightarrow> 's \<Rightarrow> 's option) \<Rightarrow> ('a \<Rightarrow> bool) \<Rightarrow> nat \<Rightarrow> 'a option \<Rightarrow> 's \<Rightarrow> 's option" where
  "chain_sweep nxt unlink P fuel None h = Some h"
| "chain_sweep nxt unlink P 0 (Some f) h = None"
| "chain_sweep nxt unlink P (Suc fuel) (Some f) h =
     (let g = nxt h f in
      if P f
      then (case unlink f h of None \<Rightarrow> None | Some h1 \<Rightarrow> chain_sweep nxt unlink P fuel g h1)
      else chain_sweep nxt unlink P fuel g h)"

section \<open>What the links mean\<close>

fun linked :: "chain_heap \<Rightarrow> slot \<Rightarrow> nat list \<Rightarrow> bool" where
  "linked h s [] \<longleftrightarrow> load s h = None"
| "linked h s (a # as) \<longleftrightarrow> load s h = Some a \<and> pprev_hash h a = Some s \<and> linked h (Next a) as"

definition chains :: "chain_heap \<Rightarrow> (nat \<Rightarrow> nat list) \<Rightarrow> bool" where
  "chains h c \<longleftrightarrow>
     (\<forall>i. linked h (Head i) (c i)) \<and> (\<forall>i. distinct (c i)) \<and> (\<forall>i j. i \<noteq> j \<longrightarrow> set (c i) \<inter> set (c j) = {})"

text \<open>An interface to a table of chains that a list per bucket describes.\<close>

locale chain_table =
  fixes rep :: "'s \<Rightarrow> (nat \<Rightarrow> 'a list) \<Rightarrow> bool"
    and top :: "'s \<Rightarrow> nat \<Rightarrow> 'a option"
    and nxt :: "'s \<Rightarrow> 'a \<Rightarrow> 'a option"
    and link :: "'a \<Rightarrow> nat \<Rightarrow> 's \<Rightarrow> 's"
    and unlink :: "'a \<Rightarrow> 's \<Rightarrow> 's option"
  assumes rep_top: "rep h c \<Longrightarrow> top h i = (case c i of [] \<Rightarrow> None | a # _ \<Rightarrow> Some a)"
    and rep_nxt: "rep h c \<Longrightarrow> c i = xs @ a # ys \<Longrightarrow> nxt h a = (case ys of [] \<Rightarrow> None | b # _ \<Rightarrow> Some b)"
    and rep_link: "rep h c \<Longrightarrow> (\<And>j. a \<notin> set (c j)) \<Longrightarrow> rep (link a i h) (c(i := a # c i))"
    and rep_unlink: "rep h c \<Longrightarrow> c i = xs @ a # ys \<Longrightarrow> \<exists>h'. unlink a h = Some h' \<and> rep h' (c(i := xs @ ys))"
begin

lemma sweep_from:
  "rep h c \<Longrightarrow> c i = xs @ ys \<Longrightarrow> length ys \<le> fuel \<Longrightarrow>
   \<exists>h'. chain_sweep nxt unlink P fuel (case ys of [] \<Rightarrow> None | a # _ \<Rightarrow> Some a) h = Some h'
     \<and> rep h' (c(i := xs @ filter (\<lambda>a. \<not> P a) ys))"
proof (induction ys arbitrary: h c xs fuel)
  case Nil
  then show ?case by (simp add: fun_upd_idem)
next
  case (Cons a ys)
  then obtain n where n: "fuel = Suc n" "length ys \<le> n" by (cases fuel) auto
  note g = rep_nxt [OF Cons.prems(1,2)]
  show ?case
  proof (cases "P a")
    case True
    obtain h1 where h1: "unlink a h = Some h1" "rep h1 (c(i := xs @ ys))"
      using rep_unlink [OF Cons.prems(1,2)] by blast
    with Cons.IH [OF h1(2) _ n(2), of xs] g n(1) True show ?thesis by (simp cong: if_cong)
  next
    case False
    with Cons.IH [OF Cons.prems(1) _ n(2), of "xs @ [a]"] Cons.prems(2) g n(1) show ?thesis by simp
  qed
qed

text \<open>With fuel for every entry of the bucket the sweep ends, and removes exactly the entries that pass the test.\<close>

lemma sweep_bucket:
  assumes "rep h c" and "length (c i) \<le> fuel"
  shows "\<exists>h'. chain_sweep nxt unlink P fuel (top h i) h = Some h' \<and> rep h' (c(i := filter (\<lambda>a. \<not> P a) (c i)))"
  using sweep_from [OF assms(1), of i "[]" "c i" fuel P] assms(2) by (simp add: rep_top [OF assms(1)])

text \<open>Linking an entry and unlinking it again restores the chains.\<close>

lemma unlink_link:
  assumes "rep h c" and "\<And>j. a \<notin> set (c j)"
  shows "\<exists>h'. unlink a (link a i h) = Some h' \<and> rep h' c"
  using rep_unlink [OF rep_link [OF assms, of i], of i "[]" a "c i"] by simp

end

section \<open>The code keeps the chains\<close>

lemma linked_cong:
  "load s h' = load s h \<Longrightarrow> (\<And>a. a \<in> set as \<Longrightarrow> load (Next a) h' = load (Next a) h \<and> pprev_hash h' a = pprev_hash h a) \<Longrightarrow>
   linked h' s as \<longleftrightarrow> linked h s as"
  by (induction as arbitrary: s) auto

lemma linked_next: "linked h s (xs @ a # ys) \<Longrightarrow> next_hash h a = (case ys of [] \<Rightarrow> None | b # _ \<Rightarrow> Some b)"
  by (induction xs arbitrary: s) (auto split: list.split)

lemma linked_pprev: "linked h s (xs @ a # ys) \<Longrightarrow> pprev_hash h a = Some (if xs = [] then s else Next (last xs))"
  by (induction xs arbitrary: s) auto

lemma load_store: "load t (store s v h) = (if t = s then v else load t h)"
  by (cases s; cases t) auto

lemma pprev_store [simp]: "pprev_hash (store s v h) = pprev_hash h"
  by (cases s) auto

lemma load_set_pprev [simp]: "load t (set_pprev a s h) = load t h"
  by (cases t) (auto simp: set_pprev_def)

lemma pprev_set_pprev: "pprev_hash (set_pprev a s h) b = (if b = a then s else pprev_hash h b)"
  by (simp add: set_pprev_def)

lemma next_hash_load: "next_hash h a = load (Next a) h"
  by simp

lemma hash_unlink_effect:
  assumes "pprev_hash h a = Some t" and "t \<noteq> Next a" and "load (Next a) h \<noteq> Some a"
  shows "\<exists>h'. hash_unlink a h = Some h'
     \<and> (\<forall>s. load s h' = (if s = Next a then None else if s = t then load (Next a) h else load s h))
     \<and> (\<forall>b. pprev_hash h' b = (if b = a then None else if load (Next a) h = Some b then Some t else pprev_hash h b))"
  using assms unfolding hash_unlink_def next_hash_load
  by (cases "load (Next a) h") (simp_all del: load.simps store.simps add: load_store pprev_set_pprev Let_def)

lemma hash_link_effect:
  assumes "load (Head i) h \<noteq> Some a"
  shows "load s (hash_link a i h) = (if s = Head i then Some a else if s = Next a then load (Head i) h else load s h)"
    and "pprev_hash (hash_link a i h) b =
      (if b = a then Some (Head i) else if load (Head i) h = Some b then Some (Next a) else pprev_hash h b)"
  using assms unfolding hash_link_def
  by (cases "load (Head i) h"; simp del: load.simps store.simps add: load_store pprev_set_pprev Let_def)+

lemma linked_unlink:
  assumes "linked h s (xs @ a # ys)" and "distinct (xs @ a # ys)" and "\<And>b. b \<in> set (xs @ a # ys) \<Longrightarrow> s \<noteq> Next b"
    and "load (Next a) h = (case ys of [] \<Rightarrow> None | b # _ \<Rightarrow> Some b)"
    and "pprev_hash h a = Some t"
    and load: "\<And>s. load s h' = (if s = Next a then None else if s = t then load (Next a) h else load s h)"
    and pprev: "\<And>b. pprev_hash h' b = (if b = a then None else if load (Next a) h = Some b then Some t else pprev_hash h b)"
  shows "linked h' s (xs @ ys)"
  using assms(1-5)
proof (induction xs arbitrary: s)
  case Nil
  then have t: "t = s" by simp
  show ?case
  proof (cases ys)
    case Nil
    with Nil.prems t show ?thesis by (simp del: load.simps add: load)
  next
    case (Cons b zs)
    have "linked h' (Next b) zs \<longleftrightarrow> linked h (Next b) zs"
      by (rule linked_cong) (use Nil.prems Cons t in \<open>auto simp del: load.simps simp: load pprev\<close>)
    then show ?thesis using Nil.prems Cons t by (simp del: load.simps add: load pprev)
  qed
next
  case (Cons x xs)
  have rest: "linked h' (Next x) (xs @ ys)"
    by (rule Cons.IH) (use Cons.prems in auto)
  have "t = Next (last (x # xs))" using linked_pprev [OF Cons.prems(1)] Cons.prems(5) by simp
  moreover have "last (x # xs) \<in> set ((x # xs) @ a # ys)" by (metis UnI1 last_in_set list.discI set_append)
  ultimately have "t \<noteq> s" using Cons.prems(3) by metis
  moreover have "load (Next a) h \<noteq> Some x" "x \<noteq> a"
    using Cons.prems(2,4) by (auto split: list.splits)
  ultimately show ?case using rest Cons.prems(1,3) by (simp del: load.simps add: load pprev)
qed

lemma chains_top: "chains h c \<Longrightarrow> heads h i = (case c i of [] \<Rightarrow> None | a # _ \<Rightarrow> Some a)"
  unfolding chains_def by (drule conjunct1, drule spec [of _ i]) (cases "c i"; simp)

lemma chains_link:
  assumes "chains h c" and "\<And>j. a \<notin> set (c j)"
  shows "chains (hash_link a i h) (c(i := a # c i))"
proof -
  have l: "linked h (Head j) (c j)" for j using assms(1) by (simp add: chains_def)
  have ne: "load (Head i) h \<noteq> Some a" using l [of i] assms(2) [of i] by (cases "c i") auto
  note eff = hash_link_effect [OF ne]
  have other: "linked (hash_link a i h) (Head j) (c j)" if "j \<noteq> i" for j
  proof -
    have "load (Head i) h \<noteq> Some b" if "b \<in> set (c j)" for b
      using l [of i] assms(1) \<open>j \<noteq> i\<close> that unfolding chains_def by (cases "c i") fastforce+
    then have "linked (hash_link a i h) (Head j) (c j) \<longleftrightarrow> linked h (Head j) (c j)"
      by (intro linked_cong) (use assms(2) [of j] that in \<open>auto simp del: load.simps simp: eff\<close>)
    then show ?thesis using l by simp
  qed
  have "linked (hash_link a i h) (Next a) (c i)"
  proof (cases "c i")
    case Nil
    then show ?thesis using l [of i] by (simp del: load.simps add: eff)
  next
    case (Cons b bs)
    have "distinct (b # bs)" using assms(1) Cons unfolding chains_def by metis
    then have "linked (hash_link a i h) (Next b) bs \<longleftrightarrow> linked h (Next b) bs"
      using assms(2) [of i] l [of i] Cons by (intro linked_cong) (auto simp del: load.simps simp: eff)
    then show ?thesis using l [of i] Cons assms(2) [of i] by (simp del: load.simps add: eff)
  qed
  then have "linked (hash_link a i h) (Head i) (a # c i)" by (simp del: load.simps add: eff)
  with other show ?thesis using assms by (auto simp: chains_def)
qed

lemma chains_unlink:
  assumes "chains h c" and "c i = xs @ a # ys"
  shows "\<exists>h'. hash_unlink a h = Some h' \<and> chains h' (c(i := xs @ ys))"
proof -
  have l: "linked h (Head j) (c j)" for j using assms(1) by (simp add: chains_def)
  have d: "distinct (xs @ a # ys)" using assms unfolding chains_def by metis
  define t where "t = (if xs = [] then Head i else Next (last xs))"
  have pa: "pprev_hash h a = Some t" using linked_pprev [of h "Head i" xs a ys] l [of i] assms(2) by (simp add: t_def)
  have na: "load (Next a) h = (case ys of [] \<Rightarrow> None | b # _ \<Rightarrow> Some b)"
    using linked_next [of h "Head i" xs a ys] l [of i] assms(2) by simp
  have "t \<noteq> Next a" using d by (auto simp: t_def)
  moreover have "load (Next a) h \<noteq> Some a" using na d by (auto split: list.splits)
  ultimately obtain h' where u: "hash_unlink a h = Some h'"
    and load: "\<And>s. load s h' = (if s = Next a then None else if s = t then load (Next a) h else load s h)"
    and pprev: "\<And>b. pprev_hash h' b = (if b = a then None else if load (Next a) h = Some b then Some t else pprev_hash h b)"
    using hash_unlink_effect [OF pa] by blast
  have "linked h' (Head i) (xs @ ys)"
    by (rule linked_unlink [OF _ d _ na pa load pprev]) (use l [of i] assms(2) in auto)
  moreover have "linked h' (Head j) (c j)" if "j \<noteq> i" for j
  proof -
    have dis: "set (c j) \<inter> set (xs @ a # ys) = {}" using assms that unfolding chains_def by metis
    have "t \<noteq> Head j" "\<And>b. b \<in> set (c j) \<Longrightarrow> t \<noteq> Next b" "\<And>b. b \<in> set (c j) \<Longrightarrow> load (Next a) h \<noteq> Some b"
      using dis that na by (auto simp: t_def split: list.splits if_splits)
    then have "linked h' (Head j) (c j) \<longleftrightarrow> linked h (Head j) (c j)"
      by (intro linked_cong) (use dis in \<open>auto simp del: load.simps simp: load pprev\<close>)
    then show ?thesis using l by simp
  qed
  moreover have "distinct (c j)" "j \<noteq> k \<Longrightarrow> set (c j) \<inter> set (c k) = {}" for j k
    using assms(1) by (auto simp: chains_def)
  ultimately have "chains h' (c(i := xs @ ys))"
    using d assms(2) unfolding chains_def by (auto split: if_splits) (metis Un_iff disjoint_iff insert_iff list.set(2) set_append)+
  with u show ?thesis by blast
qed

interpretation hash_chain: chain_table chains heads next_hash hash_link hash_unlink
proof (unfold_locales, goal_cases)
  case (1 h c i)
  then show ?case by (rule chains_top)
next
  case (2 h c i xs a ys)
  then show ?case using linked_next [of h "Head i" xs a ys] unfolding chains_def by metis
next
  case (3 h c a i)
  then show ?case by (rule chains_link)
next
  case (4 h c i xs a ys)
  then show ?case by (rule chains_unlink)
qed

section \<open>The list model is what the chains hold\<close>

text \<open>
  \<open>ents\<close> gives the contents of the entries. Sweeping a bucket of the pointer structure leaves the
  entries that the list model leaves, in the same order.
\<close>

lemma sweep_bucket_refines:
  assumes "chains h c" and "length (c i) \<le> fuel"
  shows "\<exists>h' c'. chain_sweep next_hash hash_unlink (\<lambda>a. P (ents a)) fuel (heads h i) h = Some h'
    \<and> chains h' c' \<and> map ents (c' i) = fst (fdb_sweep P (map ents (c i))) \<and> (\<forall>j. j \<noteq> i \<longrightarrow> c' j = c j)"
proof -
  obtain h' where "chain_sweep next_hash hash_unlink (\<lambda>a. P (ents a)) fuel (heads h i) h = Some h'"
    "chains h' (c(i := filter (\<lambda>a. \<not> P (ents a)) (c i)))"
    using hash_chain.sweep_bucket [OF assms, of "\<lambda>a. P (ents a)"] by blast
  then show ?thesis
    by (intro exI [of _ h'] exI [of _ "c(i := filter (\<lambda>a. \<not> P (ents a)) (c i))"])
       (simp add: fst_fdb_sweep filter_map comp_def)
qed

end
