(* ===== verification/Br_Demo.thy ===== *)
theory Br_Demo
  imports Br_Safety Br_Stp_Spec Br_Hash_Chain
begin

text \<open>
  Small concrete bridges, built from the model's own constructors, on which the properties are
  instantiated.
\<close>

definition demo_dev :: "nat \<Rightarrow> net_device" where
  "demo_dev n =
     \<lparr>dev_name = ''eth'', dev_addr = MAC 0 0 0 0 0 (of_nat n), ifindex = n, dev_up = True,
      dev_loopback = False, dev_ether = True, promiscuity = 0, dev_refcnt = 1, dev_br_port = Port n, dev_listed = True,
      dev_gpromisc = False, dev_mtu = 1500, unused_alignment_fixer = 1500, tx_queue_len = 100\<rparr>"

definition demo_port :: "nat \<Rightarrow> br_state \<Rightarrow> net_bridge_port" where
  "demo_port n st = (raw_port (demo_dev n))\<lparr>port_no := n, port_id := of_nat n, p_state := st\<rparr>"

definition demo_bridge :: "net_bridge_port list \<Rightarrow> net_bridge" where
  "demo_bridge ps = (new_nb ''br0'' [] 0)\<lparr>port_list := ps\<rparr>"

text \<open>The same bridge with its numbers written out, for evaluation.\<close>

lemma demo_bridge_code [code]:
  "demo_bridge ps = \<lparr>port_list = ps,
     br_dev = \<lparr>dev_name = ''br0'', dev_addr = MAC 0 0 0 0 0 0, ifindex = 0, dev_up = False,
                    dev_loopback = False, dev_ether = True, promiscuity = 0, dev_refcnt = 0,
                    dev_br_port = No_port, dev_listed = False, dev_gpromisc = False, dev_mtu = 1500,
                    unused_alignment_fixer = 0, tx_queue_len = 0\<rparr>,
          statistics = \<lparr>rx_packets = 0, rx_bytes = 0, tx_packets = 0, tx_bytes = 0, tx_dropped = 0\<rparr>, hash = (\<lambda>_. []),
          mfd = empty_mfd, mc_forwarding = 1, filter_lock = 0, blacklist = [], tick = None,
          designated_root = Bridge_id 0x80 0 (MAC 0 0 0 0 0 0), root_path_cost = 0, root_port = 0,
          max_age = 600, hello_time = 200, forward_delay = 0,
          bridge_ident = Bridge_id 0x80 0 (MAC 0 0 0 0 0 0),
          bridge_max_age = 600, bridge_hello_time = 200,
          bridge_forward_delay = 0,
          stp_enabled = False, topology_change = False, topology_change_detected = False,
          br_filter_active = False,
          hello_timer = \<lparr>t_running = False, t_expires = 0\<rparr>, tcn_timer = \<lparr>t_running = False, t_expires = 0\<rparr>, topology_change_timer = \<lparr>t_running = False, t_expires = 0\<rparr>,
          gc_timer = \<lparr>t_running = False, t_expires = 0\<rparr>,
          ageing_time = 30000, gc_interval = 400,
          out = [], mem = [], next_skb = 0, oopsed = False\<rparr>"
  by (simp add: demo_bridge_def new_nb_def Let_def HZ_def zero_stats_def zero_timer_def br_mac_zero_def IFNAMSIZ_def
      br_mfd_init_def MULTICAST_FORWARDING_ENABLED_def)

text \<open>A port that has heard of the root \<open>r\<close> at cost \<open>c\<close> from the bridge \<open>d\<close>.\<close>

definition hearing :: "bridge_id \<Rightarrow> s32 \<Rightarrow> bridge_id \<Rightarrow> net_bridge_port \<Rightarrow> net_bridge_port" where
  "hearing r c d p =
     p\<lparr>p_designated_root := r, p_designated_cost := c, p_designated_bridge := d, p_designated_port := 1\<rparr>"

definition demo_bid :: "u8 \<Rightarrow> bridge_id" where
  "demo_bid x = Bridge_id 0x70 0 (MAC 0 0 0 0 0 x)"

definition demo_mac :: "u8 \<Rightarrow> mac" where
  "demo_mac x = MAC 0 1 2 3 4 x"

lemmas demo_defs = demo_dev_def demo_port_def demo_bridge_def hearing_def demo_bid_def raw_port_def
  new_nb_def zero_timer_def zero_bid_def zero_stats_def br_mac_zero_def Let_def br_initial_port_cost_def
  port_nos_def br_get_port_def br_mfd_init_def

end
