(* ===== verification/Br_Stp_Props.thy ===== *)
theory Br_Stp_Props
  imports Br_Demo
begin

text \<open>
  Properties of the spanning tree machine: comparison of identifiers, the roles and states of the
  ports, messages on the wire and timers, each with an instance on a concrete bridge.
\<close>

section \<open>Definitions and concrete bridges\<close>

text \<open>Two ports hear of the same root; the cheaper one wins.\<close>

definition demo_two_roots :: net_bridge where
  "demo_two_roots = demo_bridge
     [hearing (demo_bid 1) 19 (demo_bid 2) (demo_port 1 BR_STATE_FORWARDING),
      hearing (demo_bid 1) 4 (demo_bid 3) (demo_port 2 BR_STATE_FORWARDING)]"

definition demo_roles :: net_bridge where
  "demo_roles = (demo_bridge
     [hearing (demo_bid 1) 19 (demo_bid 2) (demo_port 1 BR_STATE_FORWARDING),
      hearing (demo_bid 1) 4 (demo_bid 3) (demo_port 2 BR_STATE_BLOCKING),
      demo_port 3 BR_STATE_DISABLED])
     \<lparr>root_port := 2, designated_root := demo_bid 1, stp_enabled := True\<rparr>"

definition demo_offers :: net_bridge where
  "demo_offers = (demo_bridge
     [hearing (demo_bid 1) 19 (demo_bid 2) (demo_port 1 BR_STATE_FORWARDING),
      hearing (demo_bid 1) 4 (demo_bid 3) (demo_port 2 BR_STATE_BLOCKING)])
     \<lparr>root_port := 2, designated_root := demo_bid 1, root_path_cost := 10\<rparr>"

definition demo_bpdu :: br_config_bpdu where
  "demo_bpdu = \<lparr>b_topology_change = False, b_topology_change_ack = True, b_root = demo_bid 1, b_root_path_cost = 4,
     b_bridge_id = demo_bid 2, b_port_id = 0x8001, b_message_age = 1, b_max_age = 2000, b_hello_time = 200,
     b_forward_delay = 1500\<rparr>"

definition demo_root :: net_bridge where
  "demo_root = (demo_bridge [demo_port 1 BR_STATE_FORWARDING])\<lparr>stp_enabled := True\<rparr>"

definition demo_leaf :: net_bridge where
  "demo_leaf = (demo_bridge
     [hearing (demo_bid 1) 19 (Bridge_id 0x90 0 (MAC 0 0 0 0 0 0)) (demo_port 1 BR_STATE_FORWARDING)])
     \<lparr>root_port := 1, designated_root := demo_bid 1, stp_enabled := True, root_path_cost := 119,
      topology_change_detected := True, tcn_timer := \<lparr>t_running = True, t_expires = 0\<rparr>\<rparr>"

section \<open>Comparison of identifiers\<close>



section \<open>Root, designated and blocked ports\<close>



text \<open>C9: After a state selection an enabled port is blocked exactly when it is neither the root port nor
  designated for its segment; a disabled port is left as it was.\<close>

theorem blocked_iff_no_role:
  assumes "distinct (port_nos br)" and "root_ok br"
  shows "list_all2 (\<lambda>p p'. port_no p' = port_no p \<and>
      (if p_state p = BR_STATE_DISABLED then p' = p
       else p_state p' \<noteq> BR_STATE_DISABLED \<and>
         (p_state p' = BR_STATE_BLOCKING \<longleftrightarrow> port_no p \<noteq> root_port br \<and> \<not> br_is_designated_port br p)))
    (port_list br) (port_list (br_port_state_selection jiffies br))"
  unfolding port_list_state_selection [OF assms] list_all2_map2
  by (intro list.rel_refl_strong) (auto simp: selected_port_def forwarding_port_def blocking_port_def)

theorem blocked_iff_no_role_witness:
  "map p_state (port_list (br_port_state_selection 5 demo_roles)) =
     [BR_STATE_BLOCKING, BR_STATE_LISTENING, BR_STATE_DISABLED]
   \<and> list_all2 (\<lambda>p p'. port_no p' = port_no p \<and>
      (if p_state p = BR_STATE_DISABLED then p' = p
       else p_state p' \<noteq> BR_STATE_DISABLED \<and>
         (p_state p' = BR_STATE_BLOCKING \<longleftrightarrow> port_no p \<noteq> root_port demo_roles \<and> \<not> br_is_designated_port demo_roles p)))
    (port_list demo_roles) (port_list (br_port_state_selection 5 demo_roles))"
proof -
  have d: "distinct (port_nos demo_roles)" by code_simp
  have r: "root_ok demo_roles" by code_simp
  have "map p_state (map (selected_port 5 demo_roles) (port_list demo_roles)) =
     [BR_STATE_BLOCKING, BR_STATE_LISTENING, BR_STATE_DISABLED]" by code_simp
  then show ?thesis
    unfolding port_list_state_selection [OF d r, symmetric] by (rule conjI [OF _ blocked_iff_no_role [OF d r]])
qed



text \<open>A received configuration replaces the information of the port exactly when it is better in
  (root, cost, bridge), or equal in them and sent by another bridge or by no later a port of this one.\<close>

theorem supersedes_iff_better:
  assumes "bid_safe (b_root bpdu) (p_designated_root p)" and "bid_safe (b_bridge_id bpdu) (p_designated_bridge p)"
  shows "br_supersedes_port_info br p bpdu \<longleftrightarrow>
    (let new = (b_root bpdu, sint (b_root_path_cost bpdu), b_bridge_id bpdu);
         old = (p_designated_root p, sint (p_designated_cost p), p_designated_bridge p)
     in new < old \<or> new = old \<and> (b_bridge_id bpdu \<noteq> bridge_ident br \<or> b_port_id bpdu \<le> p_designated_port p))"
  by (auto simp: br_supersedes_port_info_def Let_def bid_cmp_less_order [OF assms(1)] bid_cmp_greater_order [OF assms(1)]
      bid_cmp_less_order [OF assms(2)] bid_cmp_greater_order [OF assms(2)])

theorem supersedes_iff_better_witness:
  "br_supersedes_port_info demo_offers (hearing (demo_bid 1) 19 (demo_bid 2) (demo_port 1 BR_STATE_FORWARDING)) demo_bpdu"
proof -
  let ?p = "hearing (demo_bid 1) 19 (demo_bid 2) (demo_port 1 BR_STATE_FORWARDING)"
  have s: "bid_safe (b_root demo_bpdu) (p_designated_root ?p)" "bid_safe (b_bridge_id demo_bpdu) (p_designated_bridge ?p)"
    by code_simp+
  show ?thesis unfolding supersedes_iff_better [OF s] by (simp add: demo_defs demo_bpdu_def)
qed

section \<open>Messages\<close>


text \<open>A time of less than 256 seconds loses at most one tick of the clock on the wire, and never grows.\<close>

theorem wire_time_loses_one_tick:
  assumes "k < 25600"
  shows "unat (ticks_trip (of_nat k)) \<le> k \<and> k \<le> unat (ticks_trip (of_nat k)) + 1"
proof -
  have "100 * (256 * k div 100) div 256 < 2 ^ 32" using assms by simp
  then have "unat (ticks_trip (of_nat k)) = 100 * (256 * k div 100) div 256"
    unfolding ticks_trip_of_nat [OF assms] by (simp add: unat_of_nat take_bit_nat_eq_self)
  moreover have "100 * (256 * k div 100) div 256 \<le> k \<and> k \<le> 100 * (256 * k div 100) div 256 + 1"
  proof -
    define t u where "t = 256 * k div 100" and "u = 100 * t div 256"
    have "100 * t \<le> 256 * k" "256 * k < 100 * t + 100" "256 * u \<le> 100 * t" "100 * t < 256 * u + 256"
      unfolding t_def u_def by simp_all
    then have "u \<le> k \<and> k \<le> u + 1" by linarith
    then show ?thesis by (simp only: t_def u_def)
  qed
  ultimately show ?thesis by simp
qed

theorem wire_time_loses_one_tick_witness: "unat (ticks_trip (of_nat 199)) = 198 \<and> 199 \<le> unat (ticks_trip (of_nat 199)) + 1"
proof -
  have "unat (ticks_trip (of_nat 199)) = 198" by code_simp
  then show ?thesis using wire_time_loses_one_tick [of 199] by simp
qed

section \<open>Timers\<close>

text \<open>A timer started at any tick, also just before the 32-bit tick counter wraps, has expired exactly
  when the timeout has passed, for timeouts and waits below 2^31 ticks.\<close>

theorem timer_expiry_exact:
  assumes "to < 2 ^ 31" and "d < 2 ^ 31"
  shows "br_timer_has_expired (start + of_nat d) (br_timer_set start t) (of_nat to) \<longleftrightarrow> to \<le> d"
  using time_after_eq_add [OF assms] by (simp add: br_timer_has_expired_def br_timer_set_def)

theorem timer_expiry_exact_witness:
  "br_timer_has_expired (0xFFFFFFFF + of_nat 100) (br_timer_set 0xFFFFFFFF zero_timer) (of_nat 100)
   \<and> \<not> br_timer_has_expired (0xFFFFFFFF + of_nat 99) (br_timer_set 0xFFFFFFFF zero_timer) (of_nat 100)"
proof -
  have "(100 :: nat) < 2 ^ 31" "(99 :: nat) < 2 ^ 31" by simp_all
  then show ?thesis
    using timer_expiry_exact [of 100 100 "0xFFFFFFFF" zero_timer] timer_expiry_exact [of 100 99 "0xFFFFFFFF" zero_timer]
    by (simp del: of_nat_numeral)
qed

lemma transmit_config_held:
  assumes "br_get_port br n = Some p" and "br_timer_is_running (hold_timer p)"
  shows "br_transmit_config jiffies n br = upd_port n (\<lambda>p. p\<lparr>config_pending := True\<rparr>) br"
  using assms(2) by (simp add: br_transmit_config_def deref_ok [OF assms(1)])

lemma get_port_transmit_config:
  assumes "root_ok br" and p: "br_get_port br n = Some p"
  shows "\<exists>q. br_get_port (br_transmit_config jiffies n br) n = Some q \<and> br_timer_is_running (hold_timer q)"
proof (cases "br_timer_is_running (hold_timer p)")
  case True
  then show ?thesis using p by (simp add: transmit_config_held br_get_port_upd_port)
next
  case False
  let ?age = "if br_is_root_bridge br then Some 0
                else map_option (\<lambda>root. br_timer_get_residue jiffies (message_age_timer root) + 1)
                       (br_get_port br (root_port br))"
  have "br_is_root_bridge br \<or> (\<exists>q. br_get_port br (root_port br) = Some q)"
    using assms(1) br_get_port_ex_iff [of br "root_port br"] by (auto simp: root_ok_def br_is_root_bridge_iff)
  then obtain age where age: "?age = Some age" by fastforce
  have "br_get_port (br_send_config_bpdu n bpdu br) n = Some p" for bpdu
    using stp_viewD(1) [OF stp_view_send_bpdu [of n "config_bpdu_buf bpdu" br]] p
    by (simp add: br_get_port_def br_send_config_bpdu_def)
  then show ?thesis
    using False age
    by (simp add: br_transmit_config_def deref_ok [OF p] br_get_port_upd_port br_timer_set_def
        br_timer_is_running_def)
qed

text \<open>The hold timer limits the rate of configuration messages: right after a port sent one, a second
  request sends nothing, whatever the time, and is remembered on the port.\<close>

theorem config_rate_limited:
  assumes "root_ok br" and "br_get_port br n = Some p"
  shows "out (br_transmit_config j2 n (br_transmit_config j1 n br)) = out (br_transmit_config j1 n br)
    \<and> map_option config_pending (br_get_port (br_transmit_config j2 n (br_transmit_config j1 n br)) n) = Some True"
proof -
  obtain q where q: "br_get_port (br_transmit_config j1 n br) n = Some q" "br_timer_is_running (hold_timer q)"
    using get_port_transmit_config [OF assms] by blast
  then show ?thesis
    unfolding transmit_config_held [OF q] by (simp add: br_get_port_upd_port) (simp add: upd_port_def)
qed

theorem config_rate_limited_witness:
  "length (out (br_transmit_config 5 1 demo_root)) = 1
   \<and> length (out (br_transmit_config 7 1 (br_transmit_config 5 1 demo_root))) = 1"
proof -
  have "root_ok demo_root" by code_simp
  moreover have "br_get_port demo_root 1 = Some (demo_port 1 BR_STATE_FORWARDING)"
    by (simp add: demo_root_def demo_bridge_def demo_port_def br_get_port_def)
  ultimately have rule: "out (br_transmit_config 7 1 (br_transmit_config 5 1 demo_root)) =
      out (br_transmit_config 5 1 demo_root)"
    using config_rate_limited by blast
  have "length (out (br_transmit_config 5 1 demo_root)) = 1" by code_simp
  with rule show ?thesis by simp
qed


end
