(* ===== verification/Br_Fdb_Props.thy ===== *)
theory Br_Fdb_Props
  imports Br_Demo
begin

text \<open>
  Properties of the forwarding database: learning and ageing, removal, reference counts, the dump in
  pages, and the pointer chains below the list model.
\<close>

section \<open>Definitions and concrete bridges\<close>

text \<open>What a list of sightings (tick, port, address) does to the table.\<close>

definition learn_trace :: "(u32 \<times> nat \<times> mac) list \<Rightarrow> net_bridge \<Rightarrow> net_bridge" where
  "learn_trace xs = fold (\<lambda>(j, n, a). br_fdb_insert j (Some n) a False) xs"

definition demo_table :: net_bridge where
  "demo_table = learn_trace [(5, 1, demo_mac 9), (40000, 2, demo_mac 8)] (demo_bridge [])"

definition demo_empty_heap :: chain_heap where
  "demo_empty_heap = \<lparr>heads = (\<lambda>_. None), next_hash = (\<lambda>_. None), pprev_hash = (\<lambda>_. None)\<rparr>"

definition demo_heap :: chain_heap where
  "demo_heap = hash_link 3 7 (hash_link 2 7 (hash_link 1 7 demo_empty_heap))"

definition demo_entry :: "nat \<Rightarrow> net_bridge_fdb_entry" where
  "demo_entry n = \<lparr>use_count = 1, fdb_addr = demo_mac (of_nat n), fdb_dst = Some n, ageing_timer = 0,
     is_local = False, is_static = False\<rparr>"

section \<open>Learning\<close>

lemma learn_trace_lookup:
  assumes "fdb_ok br" and "mem br = []"
  shows "fdb_lookup (learn_trace xs br) a =
    fold (\<lambda>(j, n, _) e. Some (fdb_seen (j, Some n, False) a e)) (filter (\<lambda>(j, n, b). b = a) xs) (fdb_lookup br a)"
proof -
  let ?f = "\<lambda>(j, n, a). ((j, Some n, False), a)"
  have 1: "learn_trace xs br = fold (\<lambda>(x, k). (\<lambda>(jiffies, source, local) addr. br_fdb_insert jiffies source addr local) x k)
      (map ?f xs) br"
    unfolding learn_trace_def by (induction xs arbitrary: br) auto
  have 2: "filter (\<lambda>(x, k'). k' = a) (map ?f xs) = map ?f (filter (\<lambda>(j, n, b). b = a) xs)"
    by (induction xs) auto
  have 3: "fold (\<lambda>(x, _) e. Some (fdb_seen x a e)) (map ?f ys) e =
      fold (\<lambda>(j, n, _) e. Some (fdb_seen (j, Some n, False) a e)) ys e" for ys e
    by (induction ys arbitrary: e) auto
  show ?thesis unfolding 1 using fdb.look_learn_all [of br "map ?f xs" a] assms by (simp only: 2 3)
qed

lemma fdb_ok_learn_trace:
  assumes "fdb_ok br" and "mem br = []"
  shows "fdb_ok (learn_trace xs br)"
proof -
  have "fdb_ok (fold (\<lambda>(j, n, a). br_fdb_insert j (Some n) a False) xs br)"
    using assms
  proof (induction xs arbitrary: br)
    case (Cons x xs)
    show ?case
      using Cons.IH [of "br_fdb_insert (fst x) (Some (fst (snd x))) (snd (snd x)) False br"] Cons.prems
      by (simp add: case_prod_beta fdb_ok_def fdb_hashed_insert fdb_unique_insert br_fdb_insert_frame(4))
  qed simp
  then show ?thesis by (simp only: learn_trace_def)
qed

lemma demo_bridge_fdb [simp]: "fdb_ok (demo_bridge ps)" "mem (demo_bridge ps) = []"
  by (simp_all add: fdb_ok_def fdb_hashed_def fdb_unique_def fdb_all_def demo_bridge_code)

lemma fold_seen_dynamic:
  "ys \<noteq> [] \<Longrightarrow> (case e of None \<Rightarrow> True | Some f \<Rightarrow> \<not> is_static f) \<Longrightarrow>
   \<exists>f. fold (\<lambda>(j, n, _) e. Some (fdb_seen (j, Some n, False) a e)) ys e = Some f \<and> \<not> is_static f
     \<and> fdb_dst f = Some (fst (snd (last ys))) \<and> ageing_timer f = fst (last ys)"
proof (induction ys rule: rev_induct)
  case (snoc y ys)
  obtain j n b where y: "y = (j, n, b)" by (cases y)
  show ?case
  proof (cases "ys = []")
    case True
    with snoc.prems(2) show ?thesis
      by (cases e) (simp_all add: y fdb_seen_def fdb_possibly_replace_def)
  next
    case False
    with snoc.IH snoc.prems(2) show ?thesis by (auto simp: y fdb_seen_def fdb_possibly_replace_def)
  qed
qed simp

lemma fold_seen_static:
  "is_static f \<Longrightarrow> fold (\<lambda>(j, n, _) e. Some (fdb_seen (j, Some n, False) a e)) ys (Some f) = Some f"
  by (induction ys) (auto simp: fdb_seen_def fdb_possibly_replace_def)

text \<open>C10: Station learning: after any sequence of sightings, a learned address leads to the port it was last
  seen on and its age counts from that sighting; a static entry, such as a port's own address, is never
  changed by what is seen on the wire; an address that was not seen is as it was.\<close>

theorem learning_last_sighting:
  assumes "fdb_ok br" and "mem br = []"
  shows "case (fdb_lookup br a, filter (\<lambda>(j, n, b). b = a) xs) of
      (Some f, ys) \<Rightarrow>
        if is_static f \<or> ys = [] then fdb_lookup (learn_trace xs br) a = Some f
        else (\<exists>g. fdb_lookup (learn_trace xs br) a = Some g \<and> fdb_dst g = Some (fst (snd (last ys)))
               \<and> ageing_timer g = fst (last ys))
    | (None, ys) \<Rightarrow>
        if ys = [] then fdb_lookup (learn_trace xs br) a = None
        else (\<exists>g. fdb_lookup (learn_trace xs br) a = Some g \<and> fdb_dst g = Some (fst (snd (last ys)))
               \<and> ageing_timer g = fst (last ys))"
  using fold_seen_dynamic [of "filter (\<lambda>(j, n, b). b = a) xs" "fdb_lookup br a" a]
  by (auto simp: learn_trace_lookup [OF assms] fold_seen_static split: option.split)

theorem learning_last_sighting_witness:
  "\<exists>g. fdb_lookup (learn_trace [(5, 1, demo_mac 9), (6, 1, demo_mac 8), (7, 2, demo_mac 9)] (demo_bridge [])) (demo_mac 9) = Some g
     \<and> fdb_dst g = Some 2"
proof -
  have "fdb_ok (demo_bridge [])" "mem (demo_bridge []) = []" "fdb_lookup (demo_bridge []) (demo_mac 9) = None"
    by (simp_all add: fdb_ok_def fdb_hashed_def fdb_unique_def fdb_all_def demo_defs fdb_lookup_def)
  with learning_last_sighting [where br = "demo_bridge []" and a = "demo_mac 9" and xs = "[(5, 1, demo_mac 9), (6, 1, demo_mac 8), (7, 2, demo_mac 9)]"]
  show ?thesis by (auto simp: demo_mac_def)
qed

lemma insert_settings:
  "topology_change (br_fdb_insert j s a l br) = topology_change br"
  "ageing_time (br_fdb_insert j s a l br) = ageing_time br"
  by (simp_all add: br_fdb_insert_def Let_def case_prod_beta set_chain_def alloc_def split: option.split list.split)



text \<open>A cleanup cannot be noticed by a lookup at the same tick: it removes exactly what a lookup already
  refuses to return.\<close>

theorem cleanup_invisible:
  assumes "fdb_ok br"
  shows "fst (br_fdb_get jiffies a (br_fdb_cleanup jiffies br)) = fst (br_fdb_get jiffies a br)
    \<and> (\<forall>f. fdb_lookup (br_fdb_cleanup jiffies br) a = Some f \<longrightarrow> \<not> has_expired jiffies br f)"
proof -
  have test: "(\<lambda>f. \<not> is_static f \<and> time_before_eq (ageing_timer f) (fdb_timeout jiffies br)) = has_expired jiffies br"
    by (simp add: has_expired_def fun_eq_iff)
  have frame: "has_expired jiffies (sweep_all P br) = has_expired jiffies br" for P
    by (simp add: has_expired_def fdb_timeout_def sweep_all_def fun_eq_iff)
  have look: "fdb_lookup (br_fdb_cleanup jiffies br) a =
      (case fdb_lookup br a of None \<Rightarrow> None | Some f \<Rightarrow> if has_expired jiffies br f then None else Some f)"
    using assms by (simp add: br_fdb_cleanup_def test fdb_lookup_sweep fdb_ok_def)
  then show ?thesis
    by (simp add: br_fdb_get_lookup) (simp add: br_fdb_cleanup_def test frame split: option.split)
qed

theorem cleanup_invisible_witness:
  "fst (br_fdb_get 40000 (demo_mac 8) (br_fdb_cleanup 40000 demo_table)) = fst (br_fdb_get 40000 (demo_mac 8) demo_table)
   \<and> fst (br_fdb_get 40000 (demo_mac 8) demo_table) \<noteq> None"
proof -
  have "fdb_ok demo_table" by (simp add: demo_table_def fdb_ok_learn_trace)
  moreover have "fst (br_fdb_get 40000 (demo_mac 8) demo_table) \<noteq> None" by code_simp
  ultimately show ?thesis using cleanup_invisible [of demo_table 40000 "demo_mac 8"] by blast
qed

text \<open>Deleting a port's entries leaves no entry that leads to the port, and all other entries.\<close>

theorem delete_by_port_exact:
  assumes "fdb_ok br"
  shows "fdb_lookup (br_fdb_delete_by_port n br) a =
    (case fdb_lookup br a of Some f \<Rightarrow> if fdb_dst f = Some n then None else Some f | None \<Rightarrow> None)
    \<and> fdb_all (\<lambda>i f. i < BR_HASH_SIZE \<longrightarrow> fdb_dst f \<noteq> Some n) (br_fdb_delete_by_port n br)"
proof
  show "fdb_lookup (br_fdb_delete_by_port n br) a =
    (case fdb_lookup br a of Some f \<Rightarrow> if fdb_dst f = Some n then None else Some f | None \<Rightarrow> None)"
    using assms by (simp add: br_fdb_delete_by_port_def fdb_lookup_sweep fdb_ok_def split: option.split)
  show "fdb_all (\<lambda>i f. i < BR_HASH_SIZE \<longrightarrow> fdb_dst f \<noteq> Some n) (br_fdb_delete_by_port n br)"
    by (simp add: br_fdb_delete_by_port_def fdb_all_def sweep_all_def fst_fdb_sweep)
qed

theorem delete_by_port_exact_witness:
  "fdb_lookup (br_fdb_delete_by_port 1 demo_table) (demo_mac 9) = None
   \<and> fdb_lookup (br_fdb_delete_by_port 1 demo_table) (demo_mac 8) = fdb_lookup demo_table (demo_mac 8)"
proof -
  have ok: "fdb_ok demo_table" by (simp add: demo_table_def fdb_ok_learn_trace)
  have "map_option fdb_dst (fdb_lookup demo_table (demo_mac 9)) = Some (Some 1)"
    "map_option fdb_dst (fdb_lookup demo_table (demo_mac 8)) = Some (Some 2)" by code_simp+
  then show ?thesis
    using conjunct1 [OF delete_by_port_exact [OF ok, of 1 "demo_mac 9"]]
      conjunct1 [OF delete_by_port_exact [OF ok, of 1 "demo_mac 8"]] by auto
qed

section \<open>References, comparison, dump\<close>

text \<open>A lookup takes one reference and its release gives it back: the table is then exactly what it was,
  and no entry was freed on its chain.\<close>

theorem get_put_restores:
  assumes "fdb_hashed br" and "br_fdb_get jiffies a br = (Some f, br')"
  shows "fdb_put_linked a br' = br"
  using assms by (rule br_fdb_get_put)

theorem get_put_restores_witness:
  "fdb_put_linked (demo_mac 8) (snd (br_fdb_get 40000 (demo_mac 8) demo_table)) = demo_table"
proof -
  have "fdb_ok demo_table" by (simp add: demo_table_def fdb_ok_learn_trace)
  then have "fdb_hashed demo_table" by (simp add: fdb_ok_def)
  moreover have "fst (br_fdb_get 40000 (demo_mac 8) demo_table) \<noteq> None" by code_simp
  ultimately show ?thesis using get_put_restores by (metis not_None_eq prod.collapse)
qed

text \<open>The halfword comparison of the fast path agrees with memcmp on every pair of addresses, and the
  hash of every address is an index of the table.\<close>

theorem maccmp_memcmp:
  "(maccmp a b = 0 \<longleftrightarrow> memcmp (mac_bytes a) (mac_bytes b) ETH_ALEN = 0) \<and> br_mac_hash a < BR_HASH_SIZE"
  using memcmp_eq_0_iff [of "mac_bytes a" ETH_ALEN "mac_bytes b"]
  by (cases a; cases b) (simp add: br_mac_hash_less ETH_ALEN_def)

text \<open>Reading the table in pages of \<open>m\<close> records gives, page after page, every live entry once and in
  order.\<close>

theorem dump_pages:
  "\<exists>ps. map (\<lambda>i. br_fdb_get_entries (\<lambda>_. Copied) jiffies (int m) (int (i * m)) br) [0..<k] = map Inr ps
    \<and> concat ps = take (k * m) (map (copy_fdb jiffies) (fdb_live jiffies br))"
proof -
  let ?all = "map (copy_fdb jiffies) (fdb_live jiffies br)"
  have "br_fdb_get_entries (\<lambda>_. Copied) jiffies (int m) (int (i * m)) br = Inr (take m (drop (i * m) ?all))" for i
    using br_fdb_get_entries_page [of "int (i * m)" jiffies "int m" br] by (simp only: nat_int of_nat_0_le_iff drop_map)
  moreover have "concat (map (\<lambda>i. take m (drop (i * m) ?all)) [0..<k]) = take (k * m) ?all"
  proof (induction k)
    case (Suc k)
    have "take (Suc k * m) ?all = take (k * m) ?all @ take m (drop (k * m) ?all)"
      using take_add [of "k * m" m ?all] by (simp add: add.commute)
    then show ?case using Suc by simp
  qed simp
  ultimately show ?thesis
    by (intro exI [of _ "map (\<lambda>i. take m (drop (i * m) ?all)) [0..<k]"]) simp
qed

text \<open>When a device takes an address that a station on another segment already has, the table ends up
  with two entries for that address: the uniqueness that learning maintains is lost.\<close>

theorem changeaddr_duplicates:
  "let br = br_fdb_insert 1 (Some 1) (demo_mac 1) True demo_table
   in fdb_ok br \<and> \<not> fdb_unique (br_fdb_changeaddr 1 (demo_mac 8) br)"
proof -
  let ?br = "br_fdb_insert 1 (Some 1) (demo_mac 1) True demo_table"
  have "fdb_ok demo_table" by (simp add: demo_table_def fdb_ok_learn_trace)
  then have "fdb_ok ?br" by (simp add: fdb_ok_def fdb_hashed_insert fdb_unique_insert)
  moreover have "\<not> distinct (map fdb_addr (hash (br_fdb_changeaddr 1 (demo_mac 8) ?br) (br_mac_hash (demo_mac 8))))"
    by code_simp
  ultimately show ?thesis by (auto simp: fdb_unique_def)
qed

section \<open>Pointer chains\<close>

text \<open>C11: On the doubly linked chains of the code, the loop that unlinks the entries of a bucket while it
  walks it ends after at most one visit per entry, dereferences no NULL pointer, keeps all chains well
  linked, leaves the other buckets alone, and leaves in this bucket the entries the list model leaves,
  in the same order.\<close>

theorem bucket_sweep_refines_list:
  assumes "chains h c" and "length (c i) \<le> fuel"
  shows "\<exists>h' c'. chain_sweep next_hash hash_unlink (\<lambda>a. P (ents a)) fuel (heads h i) h = Some h'
    \<and> chains h' c' \<and> map ents (c' i) = fst (fdb_sweep P (map ents (c i))) \<and> (\<forall>j. j \<noteq> i \<longrightarrow> c' j = c j)"
  using assms by (rule sweep_bucket_refines)

lemma demo_entry_dst: "fdb_dst (demo_entry n) = Some n"
  by (simp add: demo_entry_def)

lemma demo_heap_chains: "chains demo_heap ((\<lambda>_. [])(7 := [3, 2, 1]))"
proof -
  have 0: "chains demo_empty_heap (\<lambda>_. [])" by (simp add: chains_def demo_empty_heap_def)
  have 1: "chains (hash_link 1 7 demo_empty_heap) ((\<lambda>_. [])(7 := [1]))" using chains_link [OF 0, of 1 7] by simp
  have 2: "chains (hash_link 2 7 (hash_link 1 7 demo_empty_heap)) ((\<lambda>_. [])(7 := [2, 1]))"
    using chains_link [OF 1, of 2 7] by (simp split: if_splits cong: if_cong)
  show ?thesis unfolding demo_heap_def using chains_link [OF 2, of 3 7] by (simp split: if_splits cong: if_cong)
qed

theorem bucket_sweep_refines_list_witness:
  "\<exists>h' c'. chain_sweep next_hash hash_unlink (\<lambda>a. fdb_dst (demo_entry a) = Some 2) 3 (heads demo_heap 7) demo_heap = Some h'
    \<and> chains h' c' \<and> map demo_entry (c' 7) = [demo_entry 3, demo_entry 1]"
  using bucket_sweep_refines_list [OF demo_heap_chains, of 7 3 "\<lambda>f. fdb_dst f = Some 2" demo_entry]
  by (simp add: fst_fdb_sweep demo_entry_dst) (elim exE conjE, intro exI conjI)

end
