(* ===== verification/Br_Filter_Props.thy ===== *)
theory Br_Filter_Props
  imports Br_Demo
begin

text \<open>
  Properties of the packet filters: the MAC filter of br_filter.c and the two files of br.c, the
  triggers and the source address filters.
\<close>

section \<open>Definitions and concrete bridges\<close>

definition demo_rule :: br_filter_entry where
  "demo_rule = \<lparr>fe_sport = ''eth0'', fe_dport = ''usb0'', fe_src_mac_addr = MAC 0 0 0 0 0 0,
     fe_dst_mac_addr = MAC 0 0 0 0 0 0, fe_proto = 0x0800, fe_access_type = 0, fe_frames_matched = 0\<rparr>"

definition demo_globals :: br_globals where
  "demo_globals = \<lparr>vpn_triggers = replicate 8 zero_trigger, vpn_total_triggers = 8, vpn_read_sema = 0,
     my_br_ifa_address = 0, br_filter_root = [], g_oops = False\<rparr>"

text \<open>Decimal notation, as a user writes it.\<close>

fun decimal :: "nat \<Rightarrow> string" where
  "decimal n = (if n < 10 then [char_of (48 + n)] else decimal (n div 10) @ [char_of (48 + n mod 10)])"

declare decimal.simps [simp del]

section \<open>The MAC filter\<close>

text \<open>C27: For an entry made by the control call, the 32-way switch of br_filter_frame computes what the
  mask says, one criterion per bit, except that with an outgoing port the incoming port is not looked
  at: cases 24 to 31 compare the outgoing port twice.\<close>

theorem filter_switch_is_mask:
  "filter_match fr (Some sname) (new_filter_entry inp) =
     (let e = new_filter_entry inp
      in Some (if match_check e = 0 then access_type e = 0 \<or> access_type e = 1
               else meets_criteria fr (if bit (match_check e) 4 then sport e else sname) e))"
  using filter_match_mask [of "new_filter_entry inp" fr sname] record_match_less
  by (simp add: new_filter_entry_def Let_def)

text \<open>A rule that names both ports applies to frames from every port: the name of the incoming
  port makes no difference.\<close>

theorem both_ports_rule_ignores_source:
  assumes "24 \<le> match_check e" and "match_check e < 32"
  shows "filter_match fr s (e\<lparr>sport := x\<rparr>) = filter_match fr t e"
  using u8_below_32 [OF assms(2)] assms(1)
  by (elim insertE) (simp_all add: filter_match_def match_both_ports_cases_def word_le_nat_alt)

theorem both_ports_rule_ignores_source_witness:
  "filter_match \<lparr>fr_dest = demo_mac 1, fr_source = demo_mac 2, fr_proto = htons 0x0800, fr_dname = ''usb0''\<rparr> (Some ''eth0'')
     ((new_filter_entry demo_rule)\<lparr>sport := ''wan0''\<rparr>) =
   filter_match \<lparr>fr_dest = demo_mac 1, fr_source = demo_mac 2, fr_proto = htons 0x0800, fr_dname = ''usb0''\<rparr> None
     (new_filter_entry demo_rule)"
proof -
  have "match_check (new_filter_entry demo_rule) = 25" by code_simp
  then show ?thesis by (intro both_ports_rule_ignores_source) (simp_all add: word_le_nat_alt)
qed

text \<open>The first entry that matches decides: a frame is dropped unless that entry allows it, a frame
  without a matching entry passes, and the counter of the deciding entry alone goes up by one.\<close>

theorem filter_first_match:
  "filter_walk fr (Some sname) es =
     (case upd_first (\<lambda>e. filter_match fr (Some sname) e = Some True)
             (\<lambda>e. e\<lparr>frames_matched := frames_matched e + 1\<rparr>) es of None \<Rightarrow> es | Some es' \<Rightarrow> es',
      case find (\<lambda>e. filter_match fr (Some sname) e = Some True) es of
        None \<Rightarrow> Pass | Some e \<Rightarrow> if access_type e = 1 then Pass else Drop)"
proof -
  have "filter_match fr (Some sname) e \<noteq> None" for e by (simp add: filter_match_def)
  then show ?thesis
    using filter_walk_find [of es fr "Some sname"] filter_walk_counts [of es fr "Some sname"]
    by (simp add: prod_eq_iff)
qed

text \<open>An address criterion compares the bytes 0 and 4 of the two addresses and no others.\<close>

theorem mac_match_two_bytes:
  "mac_match (MAC a b c d e f) (MAC a' b' c' d' e' f') \<longleftrightarrow> a = a' \<and> e = e'"
proof -
  have "(ucast x :: s32) AND 0xffff = ucast y AND 0xffff \<longleftrightarrow> x = y" for x y :: u8
  proof -
    have "y AND 0xffff = take_bit 16 y" for y :: s32 by (simp add: take_bit_eq_mask mask_eq_exp_minus_1)
    then have low: "(ucast x :: s32) AND 0xffff = ucast x" for x :: u8
      by (simp only:) (rule bit_word_eqI, auto simp: bit_simps dest: bit_imp_le_length)
    have "(ucast (ucast x :: s32) :: u8) = x" for x
      by (rule bit_word_eqI) (simp add: bit_simps)
    then show ?thesis unfolding low by metis
  qed
  then show ?thesis by (simp add: mac_match_def)
qed

lemma filter_lock_ops:
  "filter_lock (write_lock_filter br) = filter_lock br + 1" "filter_lock (write_unlock_filter br) = filter_lock br - 1"
  "filter_lock (snd (alloc br)) = filter_lock br"
  "blacklist (write_lock_filter br) = blacklist br" "blacklist (write_unlock_filter br) = blacklist br"
  "blacklist (snd (alloc br)) = blacklist br"
  "mem (write_lock_filter br) = mem br" "mem (write_unlock_filter br) = mem br"
  "fst (alloc (write_lock_filter br)) = fst (alloc br)" "fst (alloc (br\<lparr>br_filter_active := b\<rparr>)) = fst (alloc br)"
  by (simp_all add: write_lock_filter_def write_unlock_filter_def alloc_def split: list.split)

lemma filter_lock_show_walk: "filter_lock (snd (snd (show_walk es maxnum walk br))) = filter_lock br"
  by (induction es arbitrary: walk br) (simp_all add: Let_def case_prod_beta filter_lock_ops)

lemma extract_is_None: "List.extract P xs = None \<longleftrightarrow> \<not> (\<exists>x\<in>set xs. P x)"
  by (simp add: extract_None_iff)

text \<open>Adding, listing and flushing release the lock of the filter list; deleting an entry that is
  found returns with the lock held.\<close>

theorem filter_lock_balance:
  "filter_lock (snd (br_add_filter_entry entry br)) = filter_lock br
   \<and> filter_lock (snd (snd (br_show_filter_entries maxnum br))) = filter_lock br
   \<and> filter_lock (snd (br_flush_filter br)) = filter_lock br
   \<and> filter_lock (snd (br_del_filter_entry entry br)) = filter_lock br +
       (if fst (alloc br) \<and> (\<exists>inp. entry = Some inp \<and> (\<exists>e\<in>set (blacklist br). del_match inp e)) then 1 else 0)"
proof (intro conjI)
  show "filter_lock (snd (br_add_filter_entry entry br)) = filter_lock br"
    by (simp add: br_add_filter_entry_def Let_def case_prod_beta filter_lock_ops split: option.split)
  show "filter_lock (snd (snd (br_show_filter_entries maxnum br))) = filter_lock br"
    by (simp add: br_show_filter_entries_def filter_lock_show_walk)
  show "filter_lock (snd (br_flush_filter br)) = filter_lock br"
    by (simp add: br_flush_filter_def Let_def filter_lock_ops)
  show "filter_lock (snd (br_del_filter_entry entry br)) = filter_lock br +
       (if fst (alloc br) \<and> (\<exists>inp. entry = Some inp \<and> (\<exists>e\<in>set (blacklist br). del_match inp e)) then 1 else 0)"
  proof (cases "\<exists>inp. entry = Some inp \<and> (\<exists>e\<in>set (blacklist br). del_match inp e)")
    case True
    then obtain inp xs x ys where "entry = Some inp" "List.extract (del_match inp) (blacklist br) = Some (xs, x, ys)"
      using extract_is_None by (metis not_None_eq prod_cases3)
    with True show ?thesis by (simp add: br_del_filter_entry_def Let_def case_prod_beta filter_lock_ops)
  next
    case False
    then have "entry = Some inp \<Longrightarrow> List.extract (del_match inp) (blacklist br) = None" for inp
      using extract_is_None by blast
    with False show ?thesis
      by (cases entry) (simp_all add: br_del_filter_entry_def Let_def case_prod_beta filter_lock_ops)
  qed
qed

text \<open>Flushing an empty list switches the filter off; flushing any other keeps it as it was.\<close>

theorem flush_empty_disables:
  "br_filter_active (snd (br_flush_filter br)) = (blacklist br \<noteq> [] \<and> br_filter_active br)"
  by (simp add: br_flush_filter_def Let_def write_lock_filter_def write_unlock_filter_def)

text \<open>Adding an entry and deleting it again, with memory available and no earlier entry like it,
  gives the list back.\<close>

theorem add_delete_roundtrip:
  assumes "mem br = []" and "\<forall>e\<in>set (blacklist br). \<not> del_match inp e"
  shows "blacklist (snd (br_del_filter_entry (Some inp) (snd (br_add_filter_entry (Some inp) br)))) = blacklist br"
proof -
  have swap: "htons (htons x) = x" for x by (rule bit_word_eqI) (auto simp: htons_def bit_simps)
  have "del_match inp (new_filter_entry inp)"
    by (simp add: del_match_def new_filter_entry_def Let_def swap strcmp_refl mac_match_def)
  then have "List.extract (del_match inp) (blacklist br @ [new_filter_entry inp]) = Some (blacklist br, new_filter_entry inp, [])"
    using assms(2) by (simp add: extract_Some_iff)
  moreover have "br_add_filter_entry (Some inp) br =
      (0, (write_unlock_filter (write_lock_filter (write_unlock_filter (write_lock_filter br))))
            \<lparr>blacklist := blacklist br @ [new_filter_entry inp]\<rparr>)"
    using assms(1) by (simp add: br_add_filter_entry_def Let_def alloc_frame(5) filter_lock_ops)
  ultimately show ?thesis
    using assms(1) by (simp add: br_del_filter_entry_def Let_def alloc_frame(5) filter_lock_ops)
qed

theorem add_delete_roundtrip_witness:
  "blacklist (snd (br_del_filter_entry (Some demo_rule) (snd (br_add_filter_entry (Some demo_rule) (demo_bridge []))))) = []"
  using add_delete_roundtrip [of "demo_bridge []" demo_rule] by (simp add: demo_bridge_code)

text \<open>A listed entry is the one that was added, except that its protocol comes back with its bytes
  swapped.\<close>

theorem show_swaps_protocol:
  "show_filter_entry (new_filter_entry inp) = inp\<lparr>fe_proto := htons (fe_proto inp), fe_frames_matched := 0\<rparr>"
  by (cases inp) (simp add: show_filter_entry_def new_filter_entry_def Let_def)

section \<open>VPN triggers\<close>

lemma trigger_walk_length: "length (fst (trigger_walk s d ts)) = length ts"
  by (induction ts) (simp_all add: case_prod_beta Let_def)

lemma trigger_walk_again:
  "trigger_walk s d (fst (trigger_walk s d ts)) = (fst (trigger_walk s d ts), False, snd (snd (trigger_walk s d ts)))"
  by (induction ts) (auto simp: case_prod_beta Let_def trigger_covers_def)

text \<open>A trigger wakes its reader once: a second packet with the same addresses is swallowed like the
  first one and changes nothing more.\<close>

theorem trigger_fires_once:
  "br_trigger_hook skb (snd (br_trigger_hook skb g)) = (fst (br_trigger_hook skb g), snd (br_trigger_hook skb g))
   \<and> vpn_read_sema (snd (br_trigger_hook skb g)) \<le> vpn_read_sema g + 1"
proof -
  let ?n = "vpn_total_triggers g"
  let ?w = "\<lambda>ts. trigger_walk (be32_at (skb_data skb) 12) (be32_at (skb_data skb) 16) ts"
  have "take ?n (fst (?w (take ?n (vpn_triggers g))) @ drop ?n (vpn_triggers g)) = fst (?w (take ?n (vpn_triggers g)))"
    "drop ?n (fst (?w (take ?n (vpn_triggers g))) @ drop ?n (vpn_triggers g)) = drop ?n (vpn_triggers g)"
    by (simp_all add: trigger_walk_length min_def)
  then show ?thesis
    by (simp add: br_trigger_hook_def Let_def case_prod_beta trigger_walk_again)
qed

text \<open>The table of triggers has room for eight; a ninth line is written behind its end.\<close>

theorem trigger_table_overflow:
  assumes "vpn_total_triggers g = MAX_VPN_POLICY" and "16 \<le> length buf"
  shows "g_oops (snd (br_trigger_write_proc junk (Some buf) g))"
proof -
  have "\<not> length (take BRTRIGGER_WRITE_LENGTH buf) < 16" using assms(2) by (simp add: BRTRIGGER_WRITE_LENGTH_def)
  then show ?thesis using assms(1) by (simp add: br_trigger_write_proc_def Let_def)
qed

theorem trigger_table_overflow_witness:
  "\<not> g_oops demo_globals \<and> g_oops (snd (br_trigger_write_proc zero_trigger (Some ''1 2 3 4 tunnel-number-9'') demo_globals))"
  using trigger_table_overflow [of demo_globals "''1 2 3 4 tunnel-number-9''" zero_trigger]
  by (simp add: demo_globals_def MAX_VPN_POLICY_def)

section \<open>Source address filters\<close>

lemma char_of_digit: "d < 10 \<Longrightarrow> (of_char (char_of (48 + d) :: char) :: nat) = 48 + d"
  by (simp add: of_char_of)

lemma decimal_digits: "decimal n \<noteq> [] \<and> (\<forall>c\<in>set (decimal n). isdigit c)"
proof (induction n rule: decimal.induct)
  case (1 n)
  have "isdigit (char_of (48 + d))" if "d < 10" for d :: nat
    using char_of_digit [OF that] that by (simp add: isdigit_def)
  with 1 show ?case by (simp add: decimal.simps [of n])
qed

lemma of_char_digit_word: "d < 10 \<Longrightarrow> (of_char (char_of (48 + d) :: char) :: u32) - 48 = of_nat d"
proof -
  assume "d < 10"
  have "(of_char c :: u32) = of_nat (of_char c :: nat)" for c :: char
    by (simp add: of_nat_of_char)
  then show ?thesis using char_of_digit [OF \<open>d < 10\<close>] by simp
qed

lemma simple_strtoul_decimal: "simple_strtoul (decimal n) = of_nat n"
proof (induction n rule: decimal.induct)
  case (1 n)
  show ?case
  proof (cases "n < 10")
    case True
    then show ?thesis using of_char_digit_word [of n] by (simp add: decimal.simps [of n] simple_strtoul_def)
  next
    case False
    have "(of_nat n :: u32) = of_nat (n div 10) * 10 + of_nat (n mod 10)"
      by (metis div_mult_mod_eq of_nat_add of_nat_mult of_nat_numeral)
    then show ?thesis
      using False 1 of_char_digit_word [of "n mod 10"] by (simp add: decimal.simps [of n] simple_strtoul_def)
  qed
qed

lemma isdigit_not_space: "isdigit c \<Longrightarrow> \<not> isspace c" "isdigit c \<Longrightarrow> c \<noteq> CHR 0x00" "\<not> isdigit (CHR '':'')"
  by (auto simp: isdigit_def isspace_def)

lemma scan_address_line:
  assumes "name \<noteq> []" and "\<forall>c\<in>set name. \<not> isspace c"
  shows "vsscanf (''1:'' @ decimal n @ '':'' @ name) [Lit (CHR ''1''), Lit (CHR '':''), Conv_u, Lit (CHR '':''), Conv_s] =
    [Number (of_nat n), Text name]"
proof -
  obtain c cs where c: "decimal n = c # cs" "isdigit c" using decimal_digits [of n] by (cases "decimal n") auto
  have tk: "takeWhile isdigit (decimal n @ CHR '':'' # name) = decimal n"
    "dropWhile isdigit (decimal n @ CHR '':'' # name) = CHR '':'' # name"
    using decimal_digits [of n] isdigit_not_space(3) by (simp_all add: takeWhile_append dropWhile_append)
  have dw: "dropWhile isspace (decimal n @ CHR '':'' # name) = decimal n @ CHR '':'' # name"
    using c isdigit_not_space(1) by simp
  have nm: "dropWhile isspace name = name" "takeWhile (\<lambda>c. \<not> isspace c) name = name"
    using assms by (cases name; simp)+ 
  show ?thesis
    using tk dw nm assms(1) c by (simp add: simple_strtoul_decimal [symmetric] Let_def)
qed

text \<open>Writing the line 1:address:device to the filter file, with a name that fits its field, appends
  the filter of that address and device; from then on that device sends IP packets with that source
  address only.\<close>

theorem filter_line_takes_effect:
  assumes "name \<noteq> []" and "\<forall>c\<in>set name. \<not> isspace c \<and> c \<noteq> CHR 0x00" and "length name \<le> 10"
    and "length (decimal n) \<le> 10"
  shows "let (r, g') = br_filter_write_proc (Some (''1:'' @ decimal n @ '':'' @ name)) g
    in r = int (length (decimal n) + length name + 3)
     \<and> br_filter_root g' = br_filter_root g @ [\<lparr>bf_dev_name = name, bf_saddr = of_nat n, bf_dev = None\<rparr>]
     \<and> g_oops g' = g_oops g
     \<and> (br_filter_root g = [] \<longrightarrow> dev_name (p_dev p) = name \<longrightarrow> skb_protocol skb = htons ETH_P_IP \<longrightarrow>
          (fst (br_filter_pass p skb g') \<longleftrightarrow> nh_saddr skb = of_nat n))"
proof -
  let ?buf = "''1:'' @ decimal n @ '':'' @ name"
  have "\<forall>c\<in>set ?buf. c \<noteq> CHR 0x00" using decimal_digits [of n] isdigit_not_space(2) assms(2) by auto
  then have "c_str (take BRFILTER_WRITE_LENGTH ?buf) = ?buf"
    using assms(3,4) by (simp add: c_str_def BRFILTER_WRITE_LENGTH_def takeWhile_eq_all_conv)
  moreover have "filter_of_conversions (vsscanf ?buf [Lit (CHR ''1''), Lit (CHR '':''), Conv_u, Lit (CHR '':''), Conv_s]) =
      \<lparr>bf_dev_name = name, bf_saddr = of_nat n, bf_dev = None\<rparr>"
    using scan_address_line [of name n] assms(1,2) by (simp add: filter_of_conversions_def)
  ultimately have w: "br_filter_write_proc (Some ?buf) g = (int (length (decimal n) + length name + 3),
      g\<lparr>br_filter_root := br_filter_root g @ [\<lparr>bf_dev_name = name, bf_saddr = of_nat n, bf_dev = None\<rparr>]\<rparr>)"
    using assms(3,4) by (simp add: br_filter_write_proc_def Let_def BRFILTER_WRITE_LENGTH_def)
  show ?thesis unfolding w by (auto simp: br_filter_pass_def strcmp_refl Let_def)
qed

theorem filter_line_takes_effect_witness:
  "br_filter_root (snd (br_filter_write_proc (Some ''1:4711:usb0'') demo_globals)) =
     [\<lparr>bf_dev_name = ''usb0'', bf_saddr = 4711, bf_dev = None\<rparr>]"
proof -
  have d: "decimal 4711 = ''4711''" by (simp add: decimal.simps char_of_def bit_Suc_0_iff)
  show ?thesis
    using filter_line_takes_effect [of "''usb0''" 4711 demo_globals "demo_port 1 BR_STATE_FORWARDING"]
    by (simp add: d case_prod_beta demo_globals_def isspace_def)
qed

end
