(* ===== verification/Br_Forward_Props.thy ===== *)
theory Br_Forward_Props
  imports Br_Demo
begin

text \<open>
  Properties of the data path: every buffer leaves the bridge once, floods and lookups reach the
  ports they should, and received frames teach the table.
\<close>

section \<open>Definitions and concrete bridges\<close>

definition demo_skb :: "nat \<Rightarrow> mac \<Rightarrow> mac \<Rightarrow> sk_buff" where
  "demo_skb n dst src =
     \<lparr>skb_id = 7, skb_dev = n, skb_data = mac_bytes dst @ mac_bytes src @ [8, 0] @ replicate 46 0,
      skb_protocol = 0, nh_saddr = 0\<rparr>"

definition demo_switch :: net_bridge where
  "demo_switch = (demo_bridge [demo_port 1 BR_STATE_FORWARDING, demo_port 2 BR_STATE_FORWARDING,
     demo_port 3 BR_STATE_FORWARDING])\<lparr>next_skb := 8\<rparr>"

definition demo_empty_globals :: br_globals where
  "demo_empty_globals = \<lparr>vpn_triggers = replicate 8 zero_trigger, vpn_total_triggers = 0, vpn_read_sema = 0,
     my_br_ifa_address = 0, br_filter_root = [], g_oops = False\<rparr>"

definition demo_broadcast :: mac where
  "demo_broadcast = MAC 0xFF 0xFF 0xFF 0xFF 0xFF 0xFF"

section \<open>The concrete switch\<close>

lemma demo_switch_inv: "bridge_inv demo_switch"
proof -
  have "distinct (port_nos demo_switch)" "set (port_nos demo_switch) \<subseteq> {1..<255}" "root_ok demo_switch" "\<not> oopsed demo_switch"
    by code_simp+
  moreover have "fdb_hashed demo_switch" "fdb_ports demo_switch" "mfd demo_switch = empty_mfd"
    by (simp_all add: demo_switch_def demo_bridge_code fdb_hashed_def fdb_ports_def fdb_all_def)
  ultimately show ?thesis by (simp add: bridge_inv_def)
qed

lemma demo_switch_port: "br_get_port demo_switch 1 = Some (demo_port 1 BR_STATE_FORWARDING)"
  "br_get_port demo_switch 2 = Some (demo_port 2 BR_STATE_FORWARDING)"
  by (simp_all add: br_get_port_def demo_switch_def demo_bridge_code demo_port_def)

lemma demo_port_state: "p_state (demo_port n st) = st"
  by (simp add: demo_port_def)

section \<open>Every buffer is released once\<close>

text \<open>C7: A received frame, and every copy made of it, leaves the bridge exactly once: to a driver, up the
  stack or back to the allocator, never twice and never not at all, as long as memory for copies is
  available.\<close>

theorem received_frame_released_once:
  assumes "bridge_inv (snd s)" and "br_get_port (snd s) n = Some p" and "mem (snd s) = []"
  shows "released_once (skb_id skb) (snd s) (snd (handle_frame jiffies n skb s))"
  using released_once_handle_frame [OF bridge_invD(3,4) [OF assms(1)] assms(2,3)] .

theorem received_frame_released_once_witness:
  "released_once 7 demo_switch
     (snd (handle_frame 5 1 (demo_skb 1 demo_broadcast (demo_mac 9)) (demo_empty_globals, demo_switch)))"
proof -
  have "mem demo_switch = []" by (simp add: demo_switch_def demo_bridge_code)
  then show ?thesis
    using received_frame_released_once [of "(demo_empty_globals, demo_switch)" 1 _ "demo_skb 1 demo_broadcast (demo_mac 9)" 5]
      demo_switch_inv demo_switch_port(1) by (simp add: demo_skb_def)
qed

text \<open>A frame sent through the bridge device leaves exactly once too, whatever the allocator does.\<close>

theorem transmitted_frame_released_once:
  assumes "bridge_inv (snd s)"
  shows "released_once (skb_id skb) (snd s) (snd (br_dev_xmit jiffies skb s))"
  using released_once_dev_xmit [OF bridge_invD(3,4) [OF assms]] .

theorem transmitted_frame_released_once_witness:
  "released_once 7 demo_switch (snd (br_dev_xmit 5 (demo_skb 0 (demo_mac 9) (demo_mac 1)) (demo_empty_globals, demo_switch)))"
  using transmitted_frame_released_once [of "(demo_empty_globals, demo_switch)" "demo_skb 0 (demo_mac 9) (demo_mac 1)" 5]
    demo_switch_inv by (simp add: demo_skb_def)

text \<open>C37: When the copy of a broadcast cannot be allocated, br_flood frees the frame and __br_handle_frame
  passes the freed frame up the stack: the buffer is released twice.\<close>

theorem failed_clone_released_twice:
  assumes "br_get_port (snd s) n = Some p" and "p_state p = BR_STATE_FORWARDING"
    and "skb_data skb ! 6 AND 1 = 0" and "skb_data skb ! 0 AND 1 \<noteq> 0"
    and "\<not> fst (alloc (learn_source jiffies n skb (snd s)))"
  shows "handled (snd (handle_frame jiffies n skb s)) = handled (snd s) @ [skb_id skb, skb_id skb]"
proof -
  let ?s1 = "(fst s, learn_source jiffies n skb (snd s))"
  have "handled (snd (br_flood jiffies True skb ?s1)) = handled (snd s) @ [skb_id skb]"
    using br_flood_clone_failed [of ?s1 jiffies skb] assms(5) by (simp add: learn_source_derived)
  then show ?thesis
    using assms(2-4) by (simp add: handle_frame_eq [OF assms(1)] Let_def on_bridge_def br_pass_frame_up_handled)
qed

theorem failed_clone_released_twice_witness:
  "handled (snd (handle_frame 5 1 (demo_skb 1 demo_broadcast (demo_mac 9))
     (demo_empty_globals, demo_switch\<lparr>mem := [True, False]\<rparr>))) = [7, 7]"
proof -
  let ?skb = "demo_skb 1 demo_broadcast (demo_mac 9)" and ?s = "(demo_empty_globals, demo_switch\<lparr>mem := [True, False]\<rparr>)"
  have "br_get_port (snd ?s) 1 = Some (demo_port 1 BR_STATE_FORWARDING)"
    using demo_switch_port(1) by (simp add: br_get_port_def)
  moreover have "skb_data ?skb ! 6 AND 1 = 0" "skb_data ?skb ! 0 AND 1 \<noteq> 0"
    "\<not> fst (alloc (learn_source 5 1 ?skb (snd ?s)))" by code_simp+
  ultimately have "handled (snd (handle_frame 5 1 ?skb ?s)) = handled (snd ?s) @ [skb_id ?skb, skb_id ?skb]"
    using failed_clone_released_twice demo_port_state by blast
  then show ?thesis by (simp add: handled_def demo_switch_def demo_bridge_code demo_skb_def)
qed

section \<open>Where frames go\<close>



lemma filter_active_frame:
  "br_filter_active (learn_source jiffies n skb br) = br_filter_active br"
  "br_filter_active (snd (br_fdb_get jiffies a br)) = br_filter_active br"
  by (simp_all add: learn_source_def br_fdb_insert_def br_fdb_get_def Let_def case_prod_beta set_chain_def alloc_def
      split: option.split list.split)



text \<open>Receiving a frame teaches the bridge where its sender is: from then on the table leads the sender's
  address to the receiving port, unless that address is static.\<close>

theorem reception_teaches_source:
  assumes "bridge_inv (snd s)" and "br_get_port (snd s) n = Some p" and "mem (snd s) = []"
    and "p_state p = BR_STATE_LEARNING \<or> p_state p = BR_STATE_FORWARDING" and "skb_data skb ! 6 AND 1 = 0"
  shows "fdb_lookup (snd (handle_frame jiffies n skb s)) (h_source (skb_data skb)) =
    Some (fdb_seen (jiffies, Some n, False) (h_source (skb_data skb)) (fdb_lookup (snd s) (h_source (skb_data skb))))"
proof -
  have "hash (snd (handle_frame jiffies n skb s)) = hash (learn_source jiffies n skb (snd s))"
    using keeps_hash [OF keeps_handle_frame [OF bridge_invD(3,4) [OF assms(1)] assms(2)]] .
  then show ?thesis
    using assms(4,5) fdb_lookup_insert [OF assms(3), of jiffies "Some n" "h_source (skb_data skb)" False]
    by (simp add: fdb_lookup_def learn_source_def assms(2))
qed

theorem reception_teaches_source_witness:
  "map_option fdb_dst (fdb_lookup (snd (handle_frame 5 1 (demo_skb 1 demo_broadcast (demo_mac 9))
     (demo_empty_globals, demo_switch))) (demo_mac 9)) = Some (Some 1)"
proof -
  let ?s = "(demo_empty_globals, demo_switch)" and ?skb = "demo_skb 1 demo_broadcast (demo_mac 9)"
  have d: "skb_data ?skb ! 6 AND 1 = 0" "h_source (skb_data ?skb) = demo_mac 9" "mem (snd ?s) = []" by code_simp+
  then have "fdb_lookup (snd (handle_frame 5 1 ?skb ?s)) (demo_mac 9) =
      Some (fdb_seen (5, Some 1, False) (demo_mac 9) (fdb_lookup (snd ?s) (demo_mac 9)))"
    using reception_teaches_source [of ?s 1 "demo_port 1 BR_STATE_FORWARDING" ?skb 5] demo_switch_inv demo_switch_port(1)
    by (simp add: demo_port_state)
  moreover have "fdb_lookup demo_switch (demo_mac 9) = None" by code_simp
  ultimately show ?thesis by (simp add: fdb_seen_def)
qed

lemma port_list_flood: "port_list (snd (br_flood jiffies clone skb s)) = port_list (snd s)"
proof (cases "clone \<and> fst (alloc (snd s))")
  case True
  then show ?thesis
    using br_flood_handled(3) [where s = "(fst s, (snd (alloc (snd s)))\<lparr>next_skb := Suc (next_skb (snd s))\<rparr>)"]
    by (simp add: br_flood_clone)
next
  case False
  then show ?thesis
    using br_flood_handled(3) [where s = s]
    by (cases clone) (simp_all add: br_flood_def skb_clone_None br_send_frame_error_def)
qed

lemma port_list_pass_frame_up: "port_list (snd (br_pass_frame_up skb s)) = port_list (snd s)"
  using br_pass_frame_up_effect [of skb s] by auto

lemma port_list_send_frame: "port_list (snd (br_send_frame jiffies n skb s)) = port_list (snd s)"
proof (cases "br_get_port (snd s) n")
  case None
  then show ?thesis by (simp add: br_send_frame_def on_bridge_def fault_def)
next
  case (Some p)
  then show ?thesis by (rule br_send_frame_effect(2))
qed

text \<open>No received frame changes the ports, not even a spanning tree message: the call that would hand
  it to the protocol is compiled out, so the states and priority vectors of the ports stay as they are.\<close>

theorem frames_leave_ports_alone:
  "port_list (snd (handle_frame jiffies n skb s)) = port_list (snd s)"
proof (cases "br_get_port (snd s) n")
  case None
  then show ?thesis by (simp add: handle_frame_def on_bridge_def fault_def br_input_error_def)
next
  case (Some p)
  let ?b = "learn_source jiffies n skb (snd s)" and ?a = "h_dest (skb_data skb)"
  obtain f b' where get: "br_fdb_get jiffies ?a ?b = (f, b')" by fastforce
  have b': "port_list b' = port_list (snd s)"
    using io_viewD(1) [OF io_view_fdb_get [of jiffies ?a ?b]] get by (simp add: learn_source_frame)
  have "port_list (fdb_put_linked ?a c) = port_list c" for c
    by (rule io_viewD(1) [OF io_view_fdb_put_linked])
  then show ?thesis
    using get b'
    by (simp add: handle_frame_eq [OF Some] Let_def on_bridge_def port_list_pass_frame_up port_list_flood
        port_list_send_frame br_input_error_def learn_source_frame fault_def split: option.split)
qed

end
