(* ===== verification/Br_Mfd_Heap.thy ===== *)
theory Br_Mfd_Heap
  imports Br_Mfd_Table
begin

text \<open>
  What a well-formed table of groups is, and that reports, leaves, queries and expiring timers keep
  it so: the lists of ports are finite, separate and without repetition, the counts are their
  lengths, groups are on the chain of their address, and exactly the nodes have a pending timer. On
  such a table every walk ends and no operation follows a bad pointer.
\<close>

section \<open>Lists on the heap\<close>

fun path :: "(nat \<Rightarrow> port_node option) \<Rightarrow> nat option \<Rightarrow> nat list \<Rightarrow> bool" where
  "path ns p [] \<longleftrightarrow> p = None"
| "path ns p (a # as) \<longleftrightarrow> p = Some a \<and> (\<exists>nd. ns a = Some nd \<and> path ns (pl_next nd) as)"

lemma path_None [simp]: "path ns None as \<longleftrightarrow> as = []"
  by (cases as) auto

lemma path_Some: "path ns (Some a) as \<longleftrightarrow> (\<exists>nd bs. as = a # bs \<and> ns a = Some nd \<and> path ns (pl_next nd) bs)"
  by (cases as) auto

lemma path_upd [simp]: "a \<notin> set as \<Longrightarrow> path (ns(a := v)) p as \<longleftrightarrow> path ns p as"
  by (induction as arbitrary: p) auto

lemma path_upd_fields:
  "ns a = Some nd \<Longrightarrow> pl_next nd' = pl_next nd \<Longrightarrow> path (ns(a \<mapsto> nd')) p as \<longleftrightarrow> path ns p as"
  by (induction as arbitrary: p) auto

lemma path_alloc: "path ns p as \<Longrightarrow> a \<in> set as \<Longrightarrow> \<exists>nd. ns a = Some nd"
  by (induction as arbitrary: p) auto

lemma path_fun: "path ns p as \<Longrightarrow> path ns p bs \<Longrightarrow> as = bs"
proof (induction as arbitrary: p bs)
  case (Cons a as)
  then show ?case by (cases bs) auto
qed simp

lemma path_suffix: "path ns p (xs @ ys) \<Longrightarrow> \<exists>q. path ns q ys"
  by (induction xs arbitrary: p) auto

lemma path_distinct: "path ns p as \<Longrightarrow> distinct as"
proof (induction as arbitrary: p)
  case (Cons a as)
  then obtain nd where a: "ns a = Some nd" and as: "path ns (pl_next nd) as" by auto
  have "a \<notin> set as"
  proof
    assume "a \<in> set as"
    then obtain xs ys where eq: "as = xs @ a # ys" by (auto simp: in_set_conv_decomp)
    then obtain q where "path ns q (a # ys)" using as path_suffix [of ns "pl_next nd" xs "a # ys"] by blast
    then have "path ns (pl_next nd) ys" using a by auto
    from path_fun [OF as this] eq show False by simp
  qed
  with Cons.IH [OF as] show ?case by simp
qed simp

text \<open>Taking a node out, behind another one or at the head.\<close>

lemma path_remove_head:
  "path ns p (a # ys) \<Longrightarrow> ns a = Some nd \<Longrightarrow> path (ns(a := None)) (pl_next nd) ys"
  using path_distinct [of ns p "a # ys"] by auto

lemma path_remove_behind:
  assumes "path ns p (ws @ b # a # ys)" and "ns a = Some nd" and "ns b = Some nb"
  shows "path (ns(b \<mapsto> nb\<lparr>pl_next := pl_next nd\<rparr>, a := None)) p (ws @ b # ys)"
  using assms path_distinct [OF assms(1)]
proof (induction ws arbitrary: p)
  case Nil
  then have "path (ns(b \<mapsto> nb\<lparr>pl_next := pl_next nd\<rparr>, a := None)) (pl_next nd) ys"
    by (auto simp del: fun_upd_apply)
  moreover have "(ns(b \<mapsto> nb\<lparr>pl_next := pl_next nd\<rparr>, a := None)) b = Some (nb\<lparr>pl_next := pl_next nd\<rparr>)"
    using Nil by simp
  ultimately show ?case using Nil by (simp del: fun_upd_apply)
next
  case (Cons w ws)
  then obtain nw where w: "ns w = Some nw" "path ns (pl_next nw) (ws @ b # a # ys)" "p = Some w" by auto
  have "path (ns(b \<mapsto> nb\<lparr>pl_next := pl_next nd\<rparr>, a := None)) (pl_next nw) (ws @ b # ys)"
    by (rule Cons.IH) (use w Cons.prems in auto)
  moreover have "(ns(b \<mapsto> nb\<lparr>pl_next := pl_next nd\<rparr>, a := None)) w = Some nw"
    using w Cons.prems by auto
  ultimately show ?case using w by (simp del: fun_upd_apply)
qed

section \<open>Walks\<close>

definition node_dst :: "mfd_table \<Rightarrow> nat \<Rightarrow> nat" where
  "node_dst t a = (case mfd_nodes t a of Some nd \<Rightarrow> pl_dst nd | None \<Rightarrow> 0)"

lemma find_node_path:
  "path (mfd_nodes t) p as \<Longrightarrow> length as < k \<Longrightarrow>
   find_node k t n p = Some (find (\<lambda>a. node_dst t a = n) as)"
proof (induction as arbitrary: p k)
  case Nil
  then show ?case by (cases k) auto
next
  case (Cons a as)
  then show ?case by (cases k) (auto simp: node_dst_def)
qed

lemma walk_nodes_path: "path (mfd_nodes t) p as \<Longrightarrow> length as < k \<Longrightarrow> walk_nodes k t p = Some as"
proof (induction as arbitrary: p k)
  case Nil
  then show ?case by (cases k) auto
next
  case (Cons a as)
  then show ?case by (cases k) auto
qed

text \<open>
  The walk that looks for the port \<open>n\<close>: over the nodes \<open>xs\<close> of other ports, to the node of \<open>n\<close> or the
  end.
\<close>

definition prev_after :: "nat option \<Rightarrow> nat list \<Rightarrow> nat option" where
  "prev_after prev xs = (if xs = [] then prev else Some (last xs))"

lemma delete_walk_hit:
  assumes "path (mfd_nodes t) p (xs @ a # ys)" and "\<forall>x\<in>set xs. node_dst t x \<noteq> n" and "node_dst t a = n"
    and "mfd_nodes t a = Some nd" and "length xs < k"
  shows "delete_walk k n f p (prev, t) =
    map_option (\<lambda>r. (prev_after prev xs, snd r)) (remove_node f a (pl_next nd) (prev_after prev xs) t)"
  using assms
proof (induction xs arbitrary: p k prev)
  case Nil
  then show ?case
    by (cases k) (auto simp: node_dst_def prev_after_def case_prod_beta split: Option.bind_split option.split)
next
  case (Cons x xs)
  then obtain k' where k: "k = Suc k'" by (cases k) auto
  from Cons.prems obtain nx where x: "p = Some x" "mfd_nodes t x = Some nx" "path (mfd_nodes t) (pl_next nx) (xs @ a # ys)"
    by auto
  have "delete_walk k' n f (pl_next nx) (Some x, t) =
    map_option (\<lambda>r. (prev_after (Some x) xs, snd r)) (remove_node f a (pl_next nd) (prev_after (Some x) xs) t)"
    by (rule Cons.IH) (use x Cons.prems k in auto)
  with x Cons.prems k show ?case by (auto simp: node_dst_def prev_after_def)
qed

lemma delete_walk_miss:
  assumes "path (mfd_nodes t) p xs" and "\<forall>x\<in>set xs. node_dst t x \<noteq> n" and "length xs < k"
  shows "delete_walk k n f p (prev, t) = Some (prev_after prev xs, t)"
  using assms
proof (induction xs arbitrary: p k prev)
  case Nil
  then show ?case by (cases k) (auto simp: prev_after_def)
next
  case (Cons x xs)
  then obtain k' where k: "k = Suc k'" by (cases k) auto
  from Cons.prems obtain nx where x: "p = Some x" "mfd_nodes t x = Some nx" "path (mfd_nodes t) (pl_next nx) xs"
    by auto
  have "delete_walk k' n f (pl_next nx) (Some x, t) = Some (prev_after (Some x) xs, t)"
    by (rule Cons.IH) (use x Cons.prems k in auto)
  with x Cons.prems k show ?case by (auto simp: node_dst_def prev_after_def)
qed

section \<open>Well-formed tables\<close>

definition heap_rep :: "mfd_table \<Rightarrow> (nat \<Rightarrow> nat list) \<Rightarrow> bool" where
  "heap_rep t L \<longleftrightarrow>
     (\<forall>f e. mfd_ents t f = Some e \<longrightarrow> f < mfd_fresh t \<and> path (mfd_nodes t) (plist e) (L f)
        \<and> port_count e = int (length (L f)) \<and> distinct (map (node_dst t) (L f))
        \<and> (\<forall>a\<in>set (L f). \<exists>nd. mfd_nodes t a = Some nd \<and> pl_mfd nd = f))
     \<and> (\<forall>a nd. mfd_nodes t a = Some nd \<longrightarrow>
          a < mfd_fresh t \<and> mfd_ents t (pl_mfd nd) \<noteq> None \<and> a \<in> set (L (pl_mfd nd)))"

definition ent_addrs :: "mfd_table \<Rightarrow> nat \<Rightarrow> u32 option" where
  "ent_addrs t f = map_option mfd_addr (mfd_ents t f)"

definition chain_ok :: "(nat \<Rightarrow> nat list) \<Rightarrow> (nat \<Rightarrow> u32 option) \<Rightarrow> bool" where
  "chain_ok H A \<longleftrightarrow>
     (\<forall>i f. f \<in> set (H i) \<longleftrightarrow> (\<exists>g. A f = Some g \<and> br_addr_hash g = i))
     \<and> (\<forall>i. distinct (H i)) \<and> (\<forall>f f' g. A f = Some g \<longrightarrow> A f' = Some g \<longrightarrow> f = f')"

definition mfd_ok :: "mfd_table \<Rightarrow> bool" where
  "mfd_ok t \<longleftrightarrow> (\<exists>L. heap_rep t L) \<and> chain_ok (mfd_hash t) (ent_addrs t)
     \<and> dom (mc_timers t) = dom (mfd_nodes t)"

lemma heap_repD:
  assumes "heap_rep t L" and "mfd_ents t f = Some e"
  shows "f < mfd_fresh t" "path (mfd_nodes t) (plist e) (L f)" "port_count e = int (length (L f))"
    "distinct (map (node_dst t) (L f))" "a \<in> set (L f) \<Longrightarrow> \<exists>nd. mfd_nodes t a = Some nd \<and> pl_mfd nd = f"
  using assms unfolding heap_rep_def by blast+

lemma heap_rep_node:
  assumes "heap_rep t L" and "mfd_nodes t a = Some nd"
  shows "a < mfd_fresh t" "\<exists>e. mfd_ents t (pl_mfd nd) = Some e" "a \<in> set (L (pl_mfd nd))"
  using assms unfolding heap_rep_def by blast+

lemma heap_rep_visits:
  assumes "heap_rep t L" and "mfd_ents t f = Some e"
  shows "length (L f) < visits t"
proof -
  have "set (L f) \<subseteq> {..<mfd_fresh t}"
    using heap_repD(5) [OF assms] heap_rep_node(1) [OF assms(1)] by blast
  then have "card (set (L f)) \<le> mfd_fresh t" using card_mono [of "{..<mfd_fresh t}" "set (L f)"] by simp
  then show ?thesis
    using distinct_card [OF path_distinct [OF heap_repD(2) [OF assms]]] by (simp add: visits_def)
qed

section \<open>Chains\<close>

lemma chain_ok_link:
  assumes "chain_ok H A" and "A f = None" and "\<And>f'. A f' \<noteq> Some g"
  shows "chain_ok (H(br_addr_hash g := f # H (br_addr_hash g))) (A(f \<mapsto> g))"
  using assms unfolding chain_ok_def by auto

lemma chain_ok_unlink:
  assumes "chain_ok H A"
  shows "chain_ok (\<lambda>i. remove1 f (H i)) (A(f := None))"
  using assms unfolding chain_ok_def by (auto simp: set_remove1_eq)

lemma find_group_chain:
  assumes "\<And>f. f \<in> set fs \<Longrightarrow> ent_addrs t f \<noteq> None"
  shows "find_group t g fs = Some (find (\<lambda>f. ent_addrs t f = Some g) fs)"
  using assms
proof (induction fs)
  case (Cons f fs)
  then have f: "ent_addrs t f \<noteq> None" by simp
  then obtain e where "mfd_ents t f = Some e" by (auto simp: ent_addrs_def)
  with Cons show ?case by (simp add: ent_addrs_def)
qed simp

lemma chain_ok_ents: "chain_ok (mfd_hash t) (ent_addrs t) \<Longrightarrow> f \<in> set (mfd_hash t i) \<Longrightarrow> ent_addrs t f \<noteq> None"
  unfolding chain_ok_def by force

lemma find_group_bucket:
  assumes "chain_ok (mfd_hash t) (ent_addrs t)"
  shows "find_group t g (mfd_hash t i) =
    Some (if br_addr_hash g = i then find (\<lambda>f. ent_addrs t f = Some g) (mfd_hash t i) else None)"
proof -
  have "find_group t g (mfd_hash t i) = Some (find (\<lambda>f. ent_addrs t f = Some g) (mfd_hash t i))"
    by (rule find_group_chain) (use chain_ok_ents [OF assms] in blast)
  moreover have "find (\<lambda>f. ent_addrs t f = Some g) (mfd_hash t i) = None" if "br_addr_hash g \<noteq> i"
    using assms that unfolding chain_ok_def find_None_iff by auto
  ultimately show ?thesis by simp
qed

lemma br_mfd_get_hit:
  assumes "chain_ok (mfd_hash t) (ent_addrs t)" and "mfd_ents t f = Some e"
  shows "br_mfd_get t (mfd_addr e) = Some (Some f)"
proof -
  have A: "ent_addrs t f = Some (mfd_addr e)" using assms(2) by (simp add: ent_addrs_def)
  then have "f \<in> set (mfd_hash t (br_addr_hash (mfd_addr e)))" using assms(1) by (auto simp: chain_ok_def)
  with A have "find (\<lambda>f. ent_addrs t f = Some (mfd_addr e)) (mfd_hash t (br_addr_hash (mfd_addr e))) \<noteq> None"
    by (auto simp: find_None_iff)
  then obtain f' where f': "find (\<lambda>f. ent_addrs t f = Some (mfd_addr e)) (mfd_hash t (br_addr_hash (mfd_addr e))) = Some f'"
    by auto
  then have "ent_addrs t f' = Some (mfd_addr e)" by (auto simp: find_Some_iff)
  with A assms(1) have "f' = f" by (auto simp: chain_ok_def)
  with f' show ?thesis using find_group_bucket [OF assms(1)] by (simp add: br_mfd_get_def)
qed

lemma br_mfd_get_miss:
  assumes "chain_ok (mfd_hash t) (ent_addrs t)" and "\<And>f. ent_addrs t f \<noteq> Some g"
  shows "br_mfd_get t g = Some None"
  using find_group_bucket [OF assms(1)] assms(2) by (simp add: br_mfd_get_def find_None_iff)

lemma br_mfd_get_cases:
  assumes "chain_ok (mfd_hash t) (ent_addrs t)"
  obtains (miss) "\<And>f. ent_addrs t f \<noteq> Some g" "br_mfd_get t g = Some None"
    | (hit) f e where "mfd_ents t f = Some e" "mfd_addr e = g" "br_mfd_get t g = Some (Some f)"
proof (cases "\<exists>f. ent_addrs t f = Some g")
  case True
  then obtain f e where "mfd_ents t f = Some e" "mfd_addr e = g" by (auto simp: ent_addrs_def)
  with hit br_mfd_get_hit [OF assms] show ?thesis by auto
next
  case False
  with miss br_mfd_get_miss [OF assms] show ?thesis by auto
qed

section \<open>The ports of a group\<close>

text \<open>What the table says: the ports on the list of a group, first to last.\<close>

definition mfd_ports :: "mfd_table \<Rightarrow> u32 \<Rightarrow> nat list" where
  "mfd_ports t g =
     (case br_mfd_get t g of
        Some (Some f) \<Rightarrow>
          (case mfd_ents t f of
             Some e \<Rightarrow> (case walk_nodes (visits t) t (plist e) of Some as \<Rightarrow> map (node_dst t) as | None \<Rightarrow> [])
           | None \<Rightarrow> [])
      | _ \<Rightarrow> [])"

lemma mfd_ports_hit:
  assumes "heap_rep t L" and "chain_ok (mfd_hash t) (ent_addrs t)" and "mfd_ents t f = Some e"
  shows "mfd_ports t (mfd_addr e) = map (node_dst t) (L f)"
  using br_mfd_get_hit [OF assms(2,3)] walk_nodes_path [OF heap_repD(2) heap_rep_visits, OF assms(1,3) assms(1,3)] assms(3)
  by (simp add: mfd_ports_def)

lemma mfd_ports_miss:
  assumes "chain_ok (mfd_hash t) (ent_addrs t)" and "\<And>f. ent_addrs t f \<noteq> Some g"
  shows "mfd_ports t g = []"
  using br_mfd_get_miss [OF assms] by (simp add: mfd_ports_def)

section \<open>Operations on well-formed tables\<close>

lemma heap_rep_cong:
  assumes "heap_rep t L" and "mfd_ents t' = mfd_ents t" "mfd_nodes t' = mfd_nodes t" "mfd_fresh t' = mfd_fresh t"
  shows "heap_rep t' L"
proof -
  have "node_dst t' = node_dst t" using assms(3) by (simp add: node_dst_def fun_eq_iff)
  with assms show ?thesis by (simp add: heap_rep_def)
qed

text \<open>Writing flags of a node changes nothing of the shape.\<close>

definition same_shape :: "port_node \<Rightarrow> port_node \<Rightarrow> bool" where
  "same_shape nd nd' \<longleftrightarrow> pl_next nd' = pl_next nd \<and> pl_mfd nd' = pl_mfd nd \<and> pl_dst nd' = pl_dst nd"

lemma node_dst_upd_node:
  "mfd_nodes t a = Some nd \<Longrightarrow> same_shape nd nd' \<Longrightarrow> node_dst (t\<lparr>mfd_nodes := (mfd_nodes t)(a \<mapsto> nd')\<rparr>) = node_dst t"
  by (auto simp: node_dst_def same_shape_def fun_eq_iff)

lemma heap_rep_upd_node:
  assumes "heap_rep t L" and "mfd_nodes t a = Some nd" and "same_shape nd nd'"
  shows "heap_rep (t\<lparr>mfd_nodes := (mfd_nodes t)(a \<mapsto> nd')\<rparr>) L"
proof -
  let ?t = "t\<lparr>mfd_nodes := (mfd_nodes t)(a \<mapsto> nd')\<rparr>"
  have p: "path (mfd_nodes ?t) p as = path (mfd_nodes t) p as" for p as
    using path_upd_fields [of "mfd_nodes t" a nd nd'] assms(2,3) by (simp add: same_shape_def)
  have 1: "f < mfd_fresh ?t \<and> path (mfd_nodes ?t) (plist e) (L f) \<and> port_count e = int (length (L f))
      \<and> distinct (map (node_dst ?t) (L f)) \<and> (\<forall>a\<in>set (L f). \<exists>nd. mfd_nodes ?t a = Some nd \<and> pl_mfd nd = f)"
    if e: "mfd_ents ?t f = Some e" for f e
  proof -
    have e': "mfd_ents t f = Some e" using e by simp
    show ?thesis
      unfolding p node_dst_upd_node [OF assms(2,3)]
      using heap_repD [OF assms(1) e'] assms(2,3) by (fastforce simp: same_shape_def)
  qed
  have 2: "b < mfd_fresh ?t \<and> mfd_ents ?t (pl_mfd nb) \<noteq> None \<and> b \<in> set (L (pl_mfd nb))"
    if "mfd_nodes ?t b = Some nb" for b nb
    using that heap_rep_node [OF assms(1), of b] assms(2,3)
    by (cases "b = a") (auto simp: same_shape_def)
  show ?thesis unfolding heap_rep_def using 1 2 by blast
qed

lemma upd_node_ok:
  assumes "heap_rep t L" and "mfd_nodes t a = Some nd" and "same_shape nd (f nd)"
  obtains t' where "upd_node a f t = Some t'" "heap_rep t' L" "mfd_hash t' = mfd_hash t" "mfd_ents t' = mfd_ents t"
    "mfd_nodes t' a = Some (f nd)" "mfd_fresh t' = mfd_fresh t" "mc_timers t' = mc_timers t"
    "dom (mfd_nodes t') = dom (mfd_nodes t)" "node_dst t' = node_dst t" "\<forall>b. b \<noteq> a \<longrightarrow> mfd_nodes t' b = mfd_nodes t b"
proof
  let ?t = "t\<lparr>mfd_nodes := (mfd_nodes t)(a \<mapsto> f nd)\<rparr>"
  show "upd_node a f t = Some ?t" using assms(2) by (simp add: upd_node_def)
  show "heap_rep ?t L" by (rule heap_rep_upd_node [OF assms])
  show "node_dst ?t = node_dst t" by (rule node_dst_upd_node [OF assms(2,3)])
qed (use assms in auto)

text \<open>A new node at the head of a list.\<close>

lemma heap_rep_add_node:
  assumes "heap_rep t L" and "mfd_ents t f = Some e" and "source \<notin> set (map (node_dst t) (L f))"
  obtains t' where "add_node jiffies type f source t = Some t'"
    "heap_rep t' (L(f := mfd_fresh t # L f))" "mfd_hash t' = mfd_hash t" "ent_addrs t' = ent_addrs t"
    "dom (mfd_nodes t') = insert (mfd_fresh t) (dom (mfd_nodes t))" "mc_timers t' = (mc_timers t)(mfd_fresh t \<mapsto> membership_expires jiffies)"
    "\<And>b. b \<noteq> mfd_fresh t \<Longrightarrow> mfd_nodes t' b = mfd_nodes t b" "node_dst t' (mfd_fresh t) = source"
    "\<And>b. mfd_ents t' b = None \<longleftrightarrow> mfd_ents t b = None" "mfd_fresh t' = Suc (mfd_fresh t)"
proof
  let ?a = "mfd_fresh t"
  let ?nd = "\<lparr>pl_next = plist e, pl_mfd = f, pl_dst = source,
             vinfo = (type = IGMP_V1_MEMBERSHIP_REPORT), dont_forward_report = False\<rparr>"
  let ?e = "e\<lparr>plist := Some ?a, port_count := port_count e + 1\<rparr>"
  let ?t = "t\<lparr>mfd_nodes := (mfd_nodes t)(?a \<mapsto> ?nd), mfd_fresh := ?a + 1,
              mc_timers := (mc_timers t)(?a \<mapsto> membership_expires jiffies), mfd_ents := (mfd_ents t)(f \<mapsto> ?e)\<rparr>"
  show "add_node jiffies type f source t = Some ?t"
    using assms(2) by (simp add: add_node_def upd_ent_def mc_add_timer_def Let_def)
  have free: "mfd_nodes t ?a = None" using heap_rep_node(1) [OF assms(1), of ?a] by (cases "mfd_nodes t ?a") auto
  have out: "?a \<notin> set (L g)" if "mfd_ents t g = Some e'" for g e'
    using heap_repD(5) [OF assms(1) that, of ?a] free by auto
  have dst: "map (node_dst ?t) (L g) = map (node_dst t) (L g)" if "mfd_ents t g = Some e'" for g e'
    using out [OF that] by (auto simp: node_dst_def)
  have src: "node_dst ?t ?a = source" by (simp add: node_dst_def)
  show "heap_rep ?t (L(f := ?a # L f))"
    unfolding heap_rep_def
  proof (intro conjI allI impI)
    fix g e' assume g: "mfd_ents ?t g = Some e'"
    then obtain e0 where e0: "mfd_ents t g = Some e0" using assms(2) by (auto split: if_splits)
    note R = heap_repD [OF assms(1) e0] and o = out [OF e0]
    show "g < mfd_fresh ?t" using R(1) by simp
    have "path ((mfd_nodes t)(?a \<mapsto> ?nd)) (plist e0) (L g)" using R(2) o by (simp del: fun_upd_apply)
    then show "path (mfd_nodes ?t) (plist e') ((L(f := ?a # L f)) g)"
      using g e0 assms(2) by (cases "g = f") (auto simp del: fun_upd_apply simp: fun_upd_same fun_upd_other)
    show "port_count e' = int (length ((L(f := ?a # L f)) g))"
      using g e0 R(3) assms(2) by (cases "g = f") auto
    show "distinct (map (node_dst ?t) ((L(f := ?a # L f)) g))"
      using R(4) dst [OF e0] src assms(3) by (cases "g = f") (simp_all del: map_eq_conv)
    show "\<forall>b\<in>set ((L(f := ?a # L f)) g). \<exists>nd. mfd_nodes ?t b = Some nd \<and> pl_mfd nd = g"
      using R(5) o by (cases "g = f") fastforce+
  next
    fix b nb assume "mfd_nodes ?t b = Some nb"
    then show "b < mfd_fresh ?t" "mfd_ents ?t (pl_mfd nb) \<noteq> None" "b \<in> set ((L(f := ?a # L f)) (pl_mfd nb))"
      using heap_rep_node [OF assms(1), of b nb] by (auto split: if_splits)
  qed
  show "ent_addrs ?t = ent_addrs t" using assms(2) by (auto simp: ent_addrs_def fun_eq_iff)
  show "node_dst ?t ?a = source" by (simp add: node_dst_def)
qed (use assms in auto)

text \<open>A new group without ports.\<close>

lemma heap_rep_new_group:
  assumes "heap_rep t L" and "new_group g t = (f, t')"
  shows "heap_rep t' (L(f := []))" "ent_addrs t' = (ent_addrs t)(f \<mapsto> g)" "ent_addrs t f = None"
    "mfd_ents t' f = Some \<lparr>port_count = 0, mfd_addr = g, plist = None\<rparr>" "mfd_nodes t' = mfd_nodes t"
    "mfd_hash t' = mfd_hash t" "mc_timers t' = mc_timers t"
proof -
  have f: "f = mfd_fresh t" and t': "t' = t\<lparr>mfd_ents := (mfd_ents t)(f \<mapsto> \<lparr>port_count = 0, mfd_addr = g, plist = None\<rparr>),
      mfd_fresh := Suc f\<rparr>"
    using assms(2) by (auto simp: new_group_def)
  have no: "mfd_ents t f = None" using heap_repD(1) [OF assms(1), of f] f by (cases "mfd_ents t f") auto
  have other: "pl_mfd nd \<noteq> f" if "mfd_nodes t a = Some nd" for a nd
    using heap_rep_node(2) [OF assms(1) that] no by auto
  have dst: "node_dst t' = node_dst t" by (simp add: t' node_dst_def fun_eq_iff)
  show "heap_rep t' (L(f := []))"
    unfolding heap_rep_def
  proof (intro conjI allI impI)
    fix h e assume h: "mfd_ents t' h = Some e"
    note R = heap_repD [OF assms(1), of h e]
    show "h < mfd_fresh t'" using h R(1) f by (cases "h = f") (auto simp: t')
    show "path (mfd_nodes t') (plist e) ((L(f := [])) h)" using h R(2) by (cases "h = f") (auto simp: t')
    show "port_count e = int (length ((L(f := [])) h))" using h R(3) by (cases "h = f") (auto simp: t')
    show "distinct (map (node_dst t') ((L(f := [])) h))" using h R(4) by (cases "h = f") (auto simp: t' dst [unfolded t'])
    show "\<forall>a\<in>set ((L(f := [])) h). \<exists>nd. mfd_nodes t' a = Some nd \<and> pl_mfd nd = h"
      using h R(5) by (cases "h = f") (auto simp: t')
  next
    fix a nd assume "mfd_nodes t' a = Some nd"
    then show "a < mfd_fresh t'" "mfd_ents t' (pl_mfd nd) \<noteq> None" "a \<in> set ((L(f := [])) (pl_mfd nd))"
      using heap_rep_node [OF assms(1), of a nd] other f by (auto simp: t')
  qed
  show "ent_addrs t' = (ent_addrs t)(f \<mapsto> g)" "ent_addrs t f = None"
    using no by (auto simp: t' ent_addrs_def fun_eq_iff)
qed (use assms in \<open>auto simp: new_group_def\<close>)

text \<open>
  Taking a node out of the list of its group. What happens to the heap of nodes: the node is gone,
  the others keep their port and group, those of other groups are as they were, and the list closes
  over the gap.
\<close>

definition closes_gap ::
    "(nat \<Rightarrow> port_node option) \<Rightarrow> (nat \<Rightarrow> port_node option) \<Rightarrow> nat \<Rightarrow> nat list \<Rightarrow> bool" where
  "closes_gap ns ns' a xs \<longleftrightarrow>
     ns' a = None \<and> (\<forall>c. c \<notin> set (a # xs) \<longrightarrow> ns' c = ns c) \<and>
     (\<forall>c. c \<noteq> a \<longrightarrow> map_option (\<lambda>nd. (pl_mfd nd, pl_dst nd)) (ns' c) = map_option (\<lambda>nd. (pl_mfd nd, pl_dst nd)) (ns c))"

lemma remove_node_effect:
  assumes "path (mfd_nodes t) (plist e) (xs @ a # ys)" and "mfd_ents t f = Some e" and "mfd_nodes t a = Some nd"
  obtains ns' p' where "closes_gap (mfd_nodes t) ns' a xs" "path ns' p' (xs @ ys)"
    "remove_node f a (pl_next nd) (prev_after None xs) t =
       (let t1 = t\<lparr>mfd_nodes := ns', mfd_ents := (mfd_ents t)(f \<mapsto> e\<lparr>plist := p', port_count := port_count e - 1\<rparr>)\<rparr>
        in Some (if port_count e = 1 then (True, mfd_unlink_free f t1) else (False, t1)))"
proof (cases xs rule: rev_cases)
  case Nil
  have "path ((mfd_nodes t)(a := None)) (pl_next nd) ys"
    using path_remove_head [of "mfd_nodes t" "plist e" a ys nd] assms(1,3) Nil by simp
  then show ?thesis
    using Nil assms(2) that [of "(mfd_nodes t)(a := None)" "pl_next nd"]
    by (simp add: closes_gap_def remove_node_def prev_after_def upd_ent_def kfree_node_def Let_def)
next
  case (snoc ws b)
  then have p: "path (mfd_nodes t) (plist e) (ws @ b # a # ys)" using assms(1) by simp
  then obtain nb where b: "mfd_nodes t b = Some nb" using path_alloc [of _ _ _ b] by fastforce
  have ab: "a \<noteq> b" using path_distinct [OF p] by auto
  let ?ns = "(mfd_nodes t)(b \<mapsto> nb\<lparr>pl_next := pl_next nd\<rparr>, a := None)"
  have "path ?ns (plist e) (xs @ ys)" using path_remove_behind [OF p assms(3) b] snoc by simp
  moreover have "closes_gap (mfd_nodes t) ?ns a xs" using b ab snoc by (auto simp: closes_gap_def)
  ultimately show ?thesis
    using snoc assms(2) b that [of ?ns "plist e"]
    by (simp add: remove_node_def prev_after_def upd_ent_def upd_node_def kfree_node_def Let_def)
qed

lemma closes_gap_dst: "closes_gap ns ns' a xs \<Longrightarrow> mfd_nodes t = ns \<Longrightarrow> mfd_nodes t' = ns' \<Longrightarrow> c \<noteq> a \<Longrightarrow> node_dst t' c = node_dst t c"
proof -
  assume "closes_gap ns ns' a xs" and t: "mfd_nodes t = ns" "mfd_nodes t' = ns'" and "c \<noteq> a"
  then have "map_option (\<lambda>nd. (pl_mfd nd, pl_dst nd)) (mfd_nodes t' c) = map_option (\<lambda>nd. (pl_mfd nd, pl_dst nd)) (mfd_nodes t c)"
    by (simp add: closes_gap_def)
  then show ?thesis by (cases "mfd_nodes t c"; cases "mfd_nodes t' c") (simp_all add: node_dst_def)
qed

lemma closes_gap_node:
  assumes "closes_gap ns ns' a xs" and "c \<noteq> a"
  shows "ns c = Some nd \<Longrightarrow> \<exists>nd'. ns' c = Some nd' \<and> pl_mfd nd' = pl_mfd nd"
    and "ns' c = Some nd \<Longrightarrow> \<exists>nd'. ns c = Some nd' \<and> pl_mfd nd' = pl_mfd nd"
proof -
  have eq: "map_option (\<lambda>nd. (pl_mfd nd, pl_dst nd)) (ns' c) = map_option (\<lambda>nd. (pl_mfd nd, pl_dst nd)) (ns c)"
    using assms by (simp add: closes_gap_def)
  show "ns c = Some nd \<Longrightarrow> \<exists>nd'. ns' c = Some nd' \<and> pl_mfd nd' = pl_mfd nd"
    using eq by (cases "ns' c") auto
  show "ns' c = Some nd \<Longrightarrow> \<exists>nd'. ns c = Some nd' \<and> pl_mfd nd' = pl_mfd nd"
    using eq by (cases "ns c") auto
qed

lemma closes_gap_path:
  "closes_gap ns ns' a xs \<Longrightarrow> set bs \<inter> set (a # xs) = {} \<Longrightarrow> path ns p bs \<Longrightarrow> path ns' p bs"
  by (induction bs arbitrary: p) (auto simp: closes_gap_def)

lemma heap_rep_close_gap:
  assumes "heap_rep t L" and e: "mfd_ents t f = Some e" and L: "L f = xs @ a # ys"
    and gap: "closes_gap (mfd_nodes t) ns' a xs" and p: "path ns' p' (xs @ ys)"
    and t': "t' = t\<lparr>mfd_nodes := ns', mfd_ents := (mfd_ents t)(f \<mapsto> e\<lparr>plist := p', port_count := port_count e - 1\<rparr>)\<rparr>"
  shows "heap_rep t' (L(f := xs @ ys))"
proof -
  have dis: "distinct (xs @ a # ys)" using path_distinct [OF heap_repD(2) [OF assms(1) e]] L by simp
  have disj: "set (L h) \<inter> set (L f) = {}" if "mfd_ents t h = Some eh" "h \<noteq> f" for h eh
    using heap_repD(5) [OF assms(1) that(1)] heap_repD(5) [OF assms(1) e] that(2) by fastforce
  have dst: "node_dst t' c = node_dst t c" if "c \<noteq> a" for c
    by (rule closes_gap_dst [OF gap refl _ that]) (simp add: t')
  show ?thesis
    unfolding heap_rep_def
  proof (intro conjI allI impI)
    fix h eh assume h: "mfd_ents t' h = Some eh"
    then obtain e0 where e0: "mfd_ents t h = Some e0" using e by (auto simp: t' split: if_splits)
    note R = heap_repD [OF assms(1) e0]
    show "h < mfd_fresh t'" using R(1) by (simp add: t')
    show "path (mfd_nodes t') (plist eh) ((L(f := xs @ ys)) h)"
    proof (cases "h = f")
      case True
      then show ?thesis using h p by (auto simp: t')
    next
      case False
      have "path ns' (plist e0) (L h)"
        by (rule closes_gap_path [OF gap _ R(2)]) (use disj [OF e0 False] L in auto)
      with False h e0 show ?thesis by (simp add: t')
    qed
    show "port_count eh = int (length ((L(f := xs @ ys)) h))"
      using h e0 e R(3) L by (cases "h = f") (auto simp: t')
    have old: "distinct (map (node_dst t) ((L(f := xs @ ys)) h))" and a: "a \<notin> set ((L(f := xs @ ys)) h)"
      using R(4) L e0 e dis disj [OF e0] by (cases "h = f"; fastforce)+
    have eq: "map (node_dst t') ((L(f := xs @ ys)) h) = map (node_dst t) ((L(f := xs @ ys)) h)"
      by (intro map_cong refl dst) (use a in blast)
    show "distinct (map (node_dst t') ((L(f := xs @ ys)) h))" unfolding eq by (rule old)
    show "\<forall>c\<in>set ((L(f := xs @ ys)) h). \<exists>nd. mfd_nodes t' c = Some nd \<and> pl_mfd nd = h"
    proof
      fix c assume c: "c \<in> set ((L(f := xs @ ys)) h)"
      then have "c \<in> set (L h)" and "c \<noteq> a" using L a by (auto split: if_splits)
      then obtain nd where "mfd_nodes t c = Some nd" "pl_mfd nd = h" using R(5) by blast
      with closes_gap_node(1) [OF gap \<open>c \<noteq> a\<close>] show "\<exists>nd. mfd_nodes t' c = Some nd \<and> pl_mfd nd = h"
        by (fastforce simp: t')
    qed
  next
    fix c nc assume "mfd_nodes t' c = Some nc"
    then have c: "ns' c = Some nc" by (simp add: t')
    then have ca: "c \<noteq> a" using gap by (auto simp: closes_gap_def)
    then obtain nd where nd: "mfd_nodes t c = Some nd" "pl_mfd nd = pl_mfd nc"
      using closes_gap_node(2) [OF gap _ c] by blast
    note N = heap_rep_node [OF assms(1) nd(1)]
    show "c < mfd_fresh t'" "mfd_ents t' (pl_mfd nc) \<noteq> None" using N nd(2) by (auto simp: t')
    show "c \<in> set ((L(f := xs @ ys)) (pl_mfd nc))" using N(3) nd(2) L ca by (auto split: if_splits)
  qed
qed

text \<open>A group without ports can be freed.\<close>

lemma heap_rep_unlink_free:
  assumes "heap_rep t L" and "L f = []"
  shows "heap_rep (mfd_unlink_free f t) L"
proof -
  let ?t = "mfd_unlink_free f t"
  have sel: "mfd_nodes ?t = mfd_nodes t" "mfd_fresh ?t = mfd_fresh t" "mfd_ents ?t = (mfd_ents t)(f := None)"
    by (simp_all add: mfd_unlink_free_def)
  have dst: "node_dst ?t = node_dst t" by (simp add: node_dst_def sel fun_eq_iff)
  show ?thesis
    unfolding heap_rep_def dst sel
  proof (intro conjI allI impI)
    fix h e assume "((mfd_ents t)(f := None)) h = Some e"
    then have h: "mfd_ents t h = Some e" by (auto split: if_splits)
    note R = heap_repD [OF assms(1) h]
    show "h < mfd_fresh t" "path (mfd_nodes t) (plist e) (L h)" "port_count e = int (length (L h))"
      "distinct (map (node_dst t) (L h))" "\<forall>a\<in>set (L h). \<exists>nd. mfd_nodes t a = Some nd \<and> pl_mfd nd = h"
      using R by blast+
  next
    fix a nd assume a: "mfd_nodes t a = Some nd"
    note N = heap_rep_node [OF assms(1) a]
    show "a < mfd_fresh t" "a \<in> set (L (pl_mfd nd))" using N by blast+
    show "((mfd_ents t)(f := None)) (pl_mfd nd) \<noteq> None" using N assms(2) by auto
  qed
qed

end
