(* ===== verification/Br_Mfd_Member.thy ===== *)
theory Br_Mfd_Member
  imports Br_Mfd_Heap
begin

text \<open>
  The operations of the multicast table as operations on memberships: \<open>mfd_ports\<close> reads the ports of a
  group from a table, and reports, leaves, queries and expiring timers act on it as one expects, keep
  the table well-formed and follow no bad pointer.
\<close>

section \<open>Memberships\<close>

lemma each_append: "each f (xs @ ys) s = Option.bind (each f xs s) (each f ys)"
proof (induction xs arbitrary: s)
  case (Cons x xs)
  then show ?case by (cases "f x s") auto
qed simp

lemma each_one:
  assumes "distinct xs" and "y \<in> set xs" and "\<And>x. x \<noteq> y \<Longrightarrow> f x s = Some s"
    and "f y s = Some s'" and "\<And>x. x \<noteq> y \<Longrightarrow> f x s' = Some s'"
  shows "each f xs s = Some s'"
proof -
  obtain us vs where xs: "xs = us @ y # vs" using assms(2) by (auto simp: in_set_conv_decomp)
  have "x \<noteq> y" if "x \<in> set us \<union> set vs" for x using assms(1) xs that by auto
  then have "each f us s = Some s" and "each f vs s' = Some s'"
    by (simp_all add: each_id assms(3,5))
  then show ?thesis using assms(4) by (simp add: xs each_append)
qed

lemma br_addr_hash_less: "br_addr_hash g < BR_HASH_SIZE"
proof -
  have "unat (x AND 255 :: u32) < 256" for x :: u32
  proof -
    have "x AND 255 \<le> 255" by (rule word_and_le1)
    then have "unat (x AND 255) \<le> unat (255 :: u32)" by (simp only: word_le_nat_alt)
    then show ?thesis by simp
  qed
  then show ?thesis by (simp add: br_addr_hash_def BR_HASH_SIZE_def Let_def)
qed

lemma mfd_ports_other:
  assumes "heap_rep t L" "chain_ok (mfd_hash t) (ent_addrs t)" "heap_rep t' L'" "chain_ok (mfd_hash t') (ent_addrs t')"
    and "\<And>f. ent_addrs t' f = Some h \<longleftrightarrow> ent_addrs t f = Some h"
    and "\<And>f. ent_addrs t f = Some h \<Longrightarrow> map (node_dst t') (L' f) = map (node_dst t) (L f)"
  shows "mfd_ports t' h = mfd_ports t h"
proof (cases "\<exists>f. ent_addrs t f = Some h")
  case True
  then obtain f where f: "ent_addrs t f = Some h" by blast
  then obtain e e' where e: "mfd_ents t f = Some e" "mfd_addr e = h" and e': "mfd_ents t' f = Some e'" "mfd_addr e' = h"
    using assms(5) [of f] by (auto simp: ent_addrs_def)
  show ?thesis
    using mfd_ports_hit [OF assms(1,2) e(1)] mfd_ports_hit [OF assms(3,4) e'(1)] e(2) e'(2) assms(6) [OF f]
    by simp
next
  case False
  then show ?thesis using mfd_ports_miss [OF assms(2)] mfd_ports_miss [OF assms(4)] assms(5) by auto
qed

text \<open>Removing a port from a group.\<close>

lemma delete_from_group_each:
  assumes chain: "chain_ok (mfd_hash t) (ent_addrs t)"
    and hit: "mfd_ents t f = Some e" "mfd_addr e = g"
    and walk: "delete_walk (visits t) n f (plist e) (None, t) = Some (prev', t')"
    and chain': "chain_ok (mfd_hash t') (ent_addrs t')"
  shows "br_mfd_delete_port_from_group n g t = Some t'"
  unfolding br_mfd_delete_port_from_group_def
proof (subst each_one [where y = "br_addr_hash g" and s' = "(prev', t')"])
  show "distinct [0..<BR_HASH_SIZE]" by simp
  show "br_addr_hash g \<in> set [0..<BR_HASH_SIZE]" using br_addr_hash_less by simp
  have "find_group t g (mfd_hash t (br_addr_hash g)) = Some (Some f)"
    using br_mfd_get_hit [OF chain hit(1)] hit(2) by (simp add: br_mfd_get_def)
  then show "(case (None, t) of (prev, t) \<Rightarrow>
      find_group t g (mfd_hash t (br_addr_hash g)) \<bind> (\<lambda>found. case found of None \<Rightarrow> Some (prev, t)
        | Some f \<Rightarrow> mfd_ents t f \<bind> (\<lambda>e. delete_walk (visits t) n f (plist e) (prev, t)))) = Some (prev', t')"
    using hit walk by simp
qed (use find_group_bucket [OF chain] find_group_bucket [OF chain'] in simp_all)

lemma delete_from_group_miss:
  assumes "chain_ok (mfd_hash t) (ent_addrs t)" and "\<And>f. ent_addrs t f \<noteq> Some g"
  shows "br_mfd_delete_port_from_group n g t = Some t"
proof -
  have "find_group t g (mfd_hash t i) = Some None" for i
    using find_group_bucket [OF assms(1)] assms(2) by (simp add: find_None_iff)
  then show ?thesis by (simp add: br_mfd_delete_port_from_group_def each_id)
qed

text \<open>The nodes that a removal takes away.\<close>

definition member_node :: "mfd_table \<Rightarrow> nat \<Rightarrow> u32 \<Rightarrow> nat \<Rightarrow> bool" where
  "member_node t n g a \<longleftrightarrow> (\<exists>nd. mfd_nodes t a = Some nd \<and> pl_dst nd = n \<and> ent_addrs t (pl_mfd nd) = Some g)"

lemma member_node_iff:
  assumes "heap_rep t L" and "mfd_ents t f = Some e" and "chain_ok (mfd_hash t) (ent_addrs t)"
  shows "member_node t n (mfd_addr e) a \<longleftrightarrow> a \<in> set (L f) \<and> node_dst t a = n"
proof
  assume "member_node t n (mfd_addr e) a"
  then obtain nd where nd: "mfd_nodes t a = Some nd" "pl_dst nd = n" "ent_addrs t (pl_mfd nd) = Some (mfd_addr e)"
    by (auto simp: member_node_def)
  have "pl_mfd nd = f" using assms(2,3) nd(3) by (auto simp: chain_ok_def ent_addrs_def)
  with nd heap_rep_node(3) [OF assms(1) nd(1)] show "a \<in> set (L f) \<and> node_dst t a = n" by (simp add: node_dst_def)
next
  assume "a \<in> set (L f) \<and> node_dst t a = n"
  with heap_repD(5) [OF assms(1,2), of a] assms(2) show "member_node t n (mfd_addr e) a"
    by (auto simp: member_node_def node_dst_def ent_addrs_def)
qed

lemma ent_addrs_unlink_free: "ent_addrs (mfd_unlink_free f t) = (ent_addrs t)(f := None)"
  by (auto simp: ent_addrs_def mfd_unlink_free_def fun_eq_iff)

text \<open>The outcome of removing the node \<open>a\<close> of group \<open>f\<close>, which may be its last one.\<close>

lemma remove_node_ok:
  assumes rep: "heap_rep t L" and chain: "chain_ok (mfd_hash t) (ent_addrs t)" and e: "mfd_ents t f = Some e"
    and L: "L f = xs @ a # ys" and nd: "mfd_nodes t a = Some nd"
  obtains t' b where "remove_node f a (pl_next nd) (prev_after None xs) t = Some (b, t')"
    "heap_rep t' (L(f := xs @ ys))" "chain_ok (mfd_hash t') (ent_addrs t')" "mc_timers t' = mc_timers t"
    "dom (mfd_nodes t') = dom (mfd_nodes t) - {a}" "\<forall>c. c \<noteq> a \<longrightarrow> node_dst t' c = node_dst t c"
    "ent_addrs t' = (if xs @ ys = [] then (ent_addrs t)(f := None) else ent_addrs t)"
proof -
  have p: "path (mfd_nodes t) (plist e) (xs @ a # ys)" using heap_repD(2) [OF rep e] L by simp
  obtain ns' p' where gap: "closes_gap (mfd_nodes t) ns' a xs" and p': "path ns' p' (xs @ ys)"
    and rem: "remove_node f a (pl_next nd) (prev_after None xs) t =
       (let t1 = t\<lparr>mfd_nodes := ns', mfd_ents := (mfd_ents t)(f \<mapsto> e\<lparr>plist := p', port_count := port_count e - 1\<rparr>)\<rparr>
        in Some (if port_count e = 1 then (True, mfd_unlink_free f t1) else (False, t1)))"
    by (rule remove_node_effect [OF p e nd])
  define t1 where "t1 = t\<lparr>mfd_nodes := ns', mfd_ents := (mfd_ents t)(f \<mapsto> e\<lparr>plist := p', port_count := port_count e - 1\<rparr>)\<rparr>"
  have last: "port_count e = 1 \<longleftrightarrow> xs @ ys = []" using heap_repD(3) [OF rep e] L by (auto simp flip: of_nat_add)
  have rep1: "heap_rep t1 (L(f := xs @ ys))" by (rule heap_rep_close_gap [OF rep e L gap p' t1_def])
  have A1: "ent_addrs t1 = ent_addrs t" using e by (auto simp: t1_def ent_addrs_def fun_eq_iff)
  have dom1: "dom ns' = dom (mfd_nodes t) - {a}"
    using gap closes_gap_node [OF gap] by (auto simp: closes_gap_def) (metis option.distinct(1))+
  have dst1: "node_dst t1 c = node_dst t c" if "c \<noteq> a" for c
    by (rule closes_gap_dst [OF gap refl _ that]) (simp add: t1_def)
  have chain1: "chain_ok (mfd_hash t1) (ent_addrs t1)" using chain by (simp add: A1) (simp add: t1_def)
  show ?thesis
  proof (cases "xs @ ys = []")
    case True
    let ?t = "mfd_unlink_free f t1"
    have "chain_ok (mfd_hash ?t) (ent_addrs ?t)"
      using chain_ok_unlink [OF chain1, of f] by (simp add: ent_addrs_unlink_free) (simp add: mfd_unlink_free_def)
    moreover have "heap_rep ?t (L(f := xs @ ys))" by (rule heap_rep_unlink_free [OF rep1]) (use True in simp)
    moreover have "node_dst ?t c = node_dst t1 c" for c by (simp add: node_dst_def mfd_unlink_free_def)
    ultimately show ?thesis
      using that [of True ?t] rem True last A1 dom1 dst1
      by (simp add: ent_addrs_unlink_free t1_def [symmetric]) (simp add: mfd_unlink_free_def t1_def)
  next
    case False
    then have rem1: "remove_node f a (pl_next nd) (prev_after None xs) t = Some (False, t1)"
      using rem last by (auto simp: t1_def Let_def)
    show ?thesis
      by (rule that [OF rem1 rep1 chain1]) (use False A1 dom1 dst1 in \<open>auto simp: t1_def\<close>)
  qed
qed

lemma remove_node_ports:
  assumes rep: "heap_rep t L" and chain: "chain_ok (mfd_hash t) (ent_addrs t)" and e: "mfd_ents t f = Some e"
    and g: "mfd_addr e = g" and L: "L f = xs @ a # ys" and a: "node_dst t a = n"
    and rep': "heap_rep t' (L(f := xs @ ys))" and chain': "chain_ok (mfd_hash t') (ent_addrs t')"
    and dst: "\<forall>c. c \<noteq> a \<longrightarrow> node_dst t' c = node_dst t c"
    and addrs: "ent_addrs t' = (if xs @ ys = [] then (ent_addrs t)(f := None) else ent_addrs t)"
  shows "mfd_ports t' = (mfd_ports t)(g := removeAll n (mfd_ports t g))"
proof -
  have dis: "distinct (map (node_dst t) (xs @ a # ys))" using heap_repD(4) [OF rep e] L by simp
  then have a_out: "a \<notin> set (xs @ ys)" by (auto simp: distinct_map)
  have "removeAll n (map (node_dst t) (xs @ ys)) = map (node_dst t) (xs @ ys)"
    using dis a by (intro removeAll_id) (auto simp: image_iff)
  then have 1: "removeAll n (mfd_ports t g) = map (node_dst t) (xs @ ys)"
    using mfd_ports_hit [OF rep chain e] g L a by simp
  have 2: "map (node_dst t') (xs @ ys) = map (node_dst t) (xs @ ys)"
    by (intro map_cong refl dst [rule_format]) (use a_out in blast)
  have here: "mfd_ports t' g = removeAll n (mfd_ports t g)"
  proof (cases "xs @ ys = []")
    case True
    then have "ent_addrs t' h \<noteq> Some g" for h
      using addrs chain e g by (auto simp: chain_ok_def ent_addrs_def)
    then show ?thesis using mfd_ports_miss [OF chain'] 1 True by simp
  next
    case False
    then have "ent_addrs t' f = Some g" using addrs e g by (simp add: ent_addrs_def)
    then obtain e' where "mfd_ents t' f = Some e'" "mfd_addr e' = g" by (auto simp: ent_addrs_def)
    then show ?thesis using mfd_ports_hit [OF rep' chain', of f e'] 1 2 by simp
  qed
  have "mfd_ports t' h = mfd_ports t h" if "h \<noteq> g" for h
  proof (rule mfd_ports_other [OF rep chain rep' chain'])
    fix f' show "ent_addrs t' f' = Some h \<longleftrightarrow> ent_addrs t f' = Some h"
      using addrs e g that by (auto simp: ent_addrs_def)
  next
    fix f' assume f': "ent_addrs t f' = Some h"
    then have ff: "f' \<noteq> f" using e g that by (auto simp: ent_addrs_def)
    obtain e' where e': "mfd_ents t f' = Some e'" using f' by (auto simp: ent_addrs_def)
    have "a \<notin> set (L f')" using heap_repD(5) [OF rep e'] heap_repD(5) [OF rep e, of a] L ff by fastforce
    then show "map (node_dst t') ((L(f := xs @ ys)) f') = map (node_dst t) (L f')"
      using ff dst by (auto intro!: map_cong)
  qed
  with here show ?thesis by (auto simp: fun_eq_iff)
qed

lemma delete_from_group_ok:
  assumes rep: "heap_rep t L" and chain: "chain_ok (mfd_hash t) (ent_addrs t)"
  obtains t' L' where "br_mfd_delete_port_from_group n g t = Some t'" "heap_rep t' L'"
    "chain_ok (mfd_hash t') (ent_addrs t')" "mc_timers t' = mc_timers t"
    "dom (mfd_nodes t') = dom (mfd_nodes t) - Collect (member_node t n g)"
    "mfd_ports t' = (mfd_ports t)(g := removeAll n (mfd_ports t g))"
proof (cases "\<exists>f. ent_addrs t f = Some g")
  case False
  then have "br_mfd_delete_port_from_group n g t = Some t" and "mfd_ports t g = []"
    using delete_from_group_miss [OF chain] mfd_ports_miss [OF chain] by auto
  moreover have "Collect (member_node t n g) = {}" using False by (simp add: member_node_def)
  ultimately show ?thesis by (intro that [of t L] rep chain) (auto simp: fun_upd_idem)
next
  case True
  then obtain f e where e: "mfd_ents t f = Some e" and g: "mfd_addr e = g" by (auto simp: ent_addrs_def)
  note walk = delete_from_group_each [OF chain e g]
  note p = heap_repD(2) [OF rep e] and k = heap_rep_visits [OF rep e] and dis = heap_repD(4) [OF rep e]
  have ports: "mfd_ports t g = map (node_dst t) (L f)" using mfd_ports_hit [OF rep chain e] g by simp
  have mem: "member_node t n g a \<longleftrightarrow> a \<in> set (L f) \<and> node_dst t a = n" for a
    using member_node_iff [OF rep e chain] g by simp
  show ?thesis
  proof (cases "n \<in> set (map (node_dst t) (L f))")
    case False
    then have "delete_walk (visits t) n f (plist e) (None, t) = Some (prev_after None (L f), t)"
      using delete_walk_miss [OF p _ k, of n] by auto
    from walk [OF this chain] have "br_mfd_delete_port_from_group n g t = Some t" .
    moreover have "Collect (member_node t n g) = {}" using False mem by auto
    ultimately show ?thesis using False ports by (intro that [of t L] rep chain) (auto simp: fun_upd_idem)
  next
    case True
    then obtain us vs where "map (node_dst t) (L f) = us @ n # vs" and nus: "n \<notin> set us"
      by (meson split_list_first)
    then obtain xs a ys where L: "L f = xs @ a # ys" and a: "node_dst t a = n" and us: "us = map (node_dst t) xs"
      by (auto simp: map_eq_append_conv)
    from heap_repD(5) [OF rep e, of a] L obtain nd where nd: "mfd_nodes t a = Some nd" by auto
    obtain t' b where rem: "remove_node f a (pl_next nd) (prev_after None xs) t = Some (b, t')"
      and R: "heap_rep t' (L(f := xs @ ys))" "chain_ok (mfd_hash t') (ent_addrs t')" "mc_timers t' = mc_timers t"
        "dom (mfd_nodes t') = dom (mfd_nodes t) - {a}" "\<forall>c. c \<noteq> a \<longrightarrow> node_dst t' c = node_dst t c"
        "ent_addrs t' = (if xs @ ys = [] then (ent_addrs t)(f := None) else ent_addrs t)"
      by (rule remove_node_ok [OF rep chain e L nd])
    have nxs: "\<forall>x\<in>set xs. node_dst t x \<noteq> n" using nus us by auto
    have "delete_walk (visits t) n f (plist e) (None, t) = Some (prev_after None xs, t')"
      using delete_walk_hit [OF _ nxs a nd, of "plist e" ys "visits t" f None] p L k rem by simp
    from walk [OF this R(2)] have res: "br_mfd_delete_port_from_group n g t = Some t'" .
    have "mfd_ports t' = (mfd_ports t)(g := removeAll n (mfd_ports t g))"
      by (rule remove_node_ports [OF rep chain e g L a R(1,2,5,6)])
    moreover have "Collect (member_node t n g) = {a}"
      using mem L a dis by (auto simp: image_iff) metis+
    ultimately show ?thesis using that [OF res R(1-3)] R(4) by simp
  qed
qed

section \<open>What the operations do to the memberships\<close>

lemma mfd_okE:
  assumes "mfd_ok t"
  obtains L where "heap_rep t L" "chain_ok (mfd_hash t) (ent_addrs t)" "dom (mc_timers t) = dom (mfd_nodes t)"
  using assms by (auto simp: mfd_ok_def)

text \<open>A change that leaves lists, groups and ports alone.\<close>

lemma same_memberships:
  assumes "heap_rep t L" "chain_ok (mfd_hash t) (ent_addrs t)" "heap_rep t' L"
    "mfd_hash t' = mfd_hash t" "mfd_ents t' = mfd_ents t" "node_dst t' = node_dst t"
  shows "mfd_ports t' = mfd_ports t" "chain_ok (mfd_hash t') (ent_addrs t')"
proof -
  have A: "ent_addrs t' = ent_addrs t" using assms(5) by (simp add: ent_addrs_def fun_eq_iff)
  then show "chain_ok (mfd_hash t') (ent_addrs t')" using assms(2,4) by simp
  then have "mfd_ports t' h = mfd_ports t h" for h
    by (rule mfd_ports_other [OF assms(1-3)]) (simp_all add: A assms(6))
  then show "mfd_ports t' = mfd_ports t" by (simp add: fun_eq_iff)
qed

lemma set_timer_ok:
  assumes "mfd_ok t" and "mfd_nodes t a \<noteq> None"
  shows "mfd_ok (mc_add_timer a x t)" "mfd_ports (mc_add_timer a x t) = mfd_ports t"
proof -
  obtain L where L: "heap_rep t L" "chain_ok (mfd_hash t) (ent_addrs t)" "dom (mc_timers t) = dom (mfd_nodes t)"
    by (rule mfd_okE [OF assms(1)])
  let ?t = "mc_add_timer a x t"
  have R: "heap_rep ?t L" by (rule heap_rep_cong [OF L(1)]) (simp_all add: mc_add_timer_def)
  have S: "mfd_hash ?t = mfd_hash t" "mfd_ents ?t = mfd_ents t" "node_dst ?t = node_dst t"
    by (simp_all add: mc_add_timer_def node_dst_def fun_eq_iff)
  note M = same_memberships [OF L(1,2) R S]
  show "mfd_ports ?t = mfd_ports t" by (rule M(1))
  have "dom (mc_timers ?t) = dom (mfd_nodes ?t)" using L(3) assms(2) by (auto simp: mc_add_timer_def)
  with M(2) R show "mfd_ok ?t" by (auto simp: mfd_ok_def)
qed

lemma upd_flags_ok:
  assumes "mfd_ok t" and "mfd_nodes t a = Some nd" and "same_shape nd (f nd)"
  obtains t' where "upd_node a f t = Some t'" "mfd_ok t'" "mfd_ports t' = mfd_ports t" "mfd_nodes t' a = Some (f nd)"
    "node_dst t' = node_dst t" "mfd_ents t' = mfd_ents t" "mfd_hash t' = mfd_hash t" "mfd_fresh t' = mfd_fresh t"
    "mc_timers t' = mc_timers t" "\<forall>b. b \<noteq> a \<longrightarrow> mfd_nodes t' b = mfd_nodes t b"
proof -
  obtain L where L: "heap_rep t L" "chain_ok (mfd_hash t) (ent_addrs t)" "dom (mc_timers t) = dom (mfd_nodes t)"
    by (rule mfd_okE [OF assms(1)])
  obtain t' where t': "upd_node a f t = Some t'" "heap_rep t' L" "mfd_hash t' = mfd_hash t" "mfd_ents t' = mfd_ents t"
      "mfd_nodes t' a = Some (f nd)" "mfd_fresh t' = mfd_fresh t" "mc_timers t' = mc_timers t"
      "dom (mfd_nodes t') = dom (mfd_nodes t)" "node_dst t' = node_dst t" "\<forall>b. b \<noteq> a \<longrightarrow> mfd_nodes t' b = mfd_nodes t b"
    by (rule upd_node_ok [of t L a nd f, OF L(1) assms(2,3)])
  note M = same_memberships [OF L(1,2) t'(2-4,9)]
  have "mfd_ok t'" using t' M(2) L(3) by (auto simp: mfd_ok_def)
  then show ?thesis by (rule that [OF t'(1) _ M(1) t'(5,9,4,3,6,7,10)])
qed

text \<open>A timer that fires ends the membership it belongs to, and nothing else.\<close>

lemma membership_timer_ok:
  assumes "mfd_ok t" and "mc_timers t a \<noteq> None"
  obtains t' nd e where "br_membership_timer_expired a t = Some t'" "mfd_ok t'" "mfd_nodes t a = Some nd"
    "mfd_ents t (pl_mfd nd) = Some e"
    "mfd_ports t' = (mfd_ports t)(mfd_addr e := removeAll (pl_dst nd) (mfd_ports t (mfd_addr e)))"
proof -
  obtain L where L: "heap_rep t L" "chain_ok (mfd_hash t) (ent_addrs t)" "dom (mc_timers t) = dom (mfd_nodes t)"
    by (rule mfd_okE [OF assms(1)])
  from L(3) assms(2) obtain nd where nd: "mfd_nodes t a = Some nd" by blast
  from heap_rep_node(2) [OF L(1) nd] obtain e where e: "mfd_ents t (pl_mfd nd) = Some e" by blast
  define t0 where "t0 = t\<lparr>mc_timers := (mc_timers t)(a := None)\<rparr>"
  have R0: "heap_rep t0 L" by (rule heap_rep_cong [OF L(1)]) (simp_all add: t0_def)
  have S0: "mfd_hash t0 = mfd_hash t" "mfd_ents t0 = mfd_ents t" "node_dst t0 = node_dst t"
    by (simp_all add: t0_def node_dst_def fun_eq_iff)
  note M0 = same_memberships [OF L(1,2) R0 S0]
  obtain t' L' where t': "br_mfd_delete_port_from_group (pl_dst nd) (mfd_addr e) t0 = Some t'" "heap_rep t' L'"
      "chain_ok (mfd_hash t') (ent_addrs t')" "mc_timers t' = mc_timers t0"
      "dom (mfd_nodes t') = dom (mfd_nodes t0) - Collect (member_node t0 (pl_dst nd) (mfd_addr e))"
      "mfd_ports t' = (mfd_ports t0)(mfd_addr e := removeAll (pl_dst nd) (mfd_ports t0 (mfd_addr e)))"
    by (rule delete_from_group_ok [OF R0 M0(2)])
  have "member_node t0 (pl_dst nd) (mfd_addr e) c \<longleftrightarrow> c = a" for c
  proof -
    have "distinct (map (node_dst t0) (L (pl_mfd nd)))" "a \<in> set (L (pl_mfd nd))" "node_dst t0 a = pl_dst nd"
      using heap_repD(4) [OF L(1) e] heap_rep_node(3) [OF L(1) nd] nd by (simp_all add: S0) (simp add: node_dst_def)
    then show ?thesis
      using member_node_iff [OF R0 _ M0(2), of "pl_mfd nd" e "pl_dst nd" c] e S0(2)
      by (auto simp: distinct_map inj_on_def)
  qed
  then have "Collect (member_node t0 (pl_dst nd) (mfd_addr e)) = {a}" by auto
  then have "dom (mc_timers t') = dom (mfd_nodes t')" using t'(4,5) L(3) by (auto simp: t0_def)
  with t'(2,3) have "mfd_ok t'" by (auto simp: mfd_ok_def)
  moreover have "br_membership_timer_expired a t = Some t'"
    using t'(1) nd e by (simp add: br_membership_timer_expired_def Let_def t0_def)
  moreover have "mfd_ports t' = (mfd_ports t)(mfd_addr e := removeAll (pl_dst nd) (mfd_ports t (mfd_addr e)))"
    using t'(6) M0(1) by simp
  ultimately show ?thesis by (intro that [OF _ _ nd e])
qed

lemma find_group_cong: "mfd_ents t' = mfd_ents t \<Longrightarrow> find_group t' g fs = find_group t g fs"
proof (induction fs)
  case (Cons f fs)
  then show ?case by (cases "mfd_ents t f") simp_all
qed simp

text \<open>A leave message only shortens a timer.\<close>

lemma leave_report_ok:
  assumes "mfd_ok t"
  obtains t' where "br_leave_report_received jiffies n g t = Some t'" "mfd_ok t'" "mfd_ports t' = mfd_ports t"
proof -
  obtain L where L: "heap_rep t L" "chain_ok (mfd_hash t) (ent_addrs t)" "dom (mc_timers t) = dom (mfd_nodes t)"
    by (rule mfd_okE [OF assms])
  note bucket = find_group_bucket [OF L(2)]
  show ?thesis
  proof (cases "\<exists>f. ent_addrs t f = Some g")
    case False
    then have "find_group t g (mfd_hash t i) = Some None" for i using bucket by (simp add: find_None_iff)
    then have "br_leave_report_received jiffies n g t = Some t"
      by (simp add: br_leave_report_received_def each_id)
    then show ?thesis using that assms by blast
  next
    case True
    then obtain f e where e: "mfd_ents t f = Some e" "mfd_addr e = g" by (auto simp: ent_addrs_def)
    define r where "r = find (\<lambda>a. node_dst t a = n) (L f)"
    define t' where "t' = (case r of None \<Rightarrow> t | Some a \<Rightarrow> mc_add_timer a (jiffies + of_nat (DEFAULT_LEAVE_TIMER * HZ)) t)"
    have node: "mfd_nodes t a \<noteq> None" if "r = Some a" for a
      using that heap_repD(5) [OF L(1) e(1), of a] by (auto simp: r_def find_Some_iff)
    have ok: "mfd_ok t' \<and> mfd_ports t' = mfd_ports t"
      using set_timer_ok [OF assms] node assms by (auto simp: t'_def split: option.split)
    have same: "find_group t' g (mfd_hash t' i) = find_group t g (mfd_hash t i)" for i
      by (auto simp: t'_def mc_add_timer_def intro: find_group_cong split: option.split)
    have hit: "find_group t g (mfd_hash t (br_addr_hash g)) = Some (Some f)"
      using br_mfd_get_hit [OF L(2) e(1)] e(2) by (simp add: br_mfd_get_def)
    have other: "find_group t g (mfd_hash t i) = Some None" if "i \<noteq> br_addr_hash g" for i
      using bucket that by simp
    have walk: "find_node (visits t) t n (plist e) = Some r"
      unfolding r_def by (rule find_node_path [OF heap_repD(2) [OF L(1) e(1)] heap_rep_visits [OF L(1) e(1)]])
    have "br_leave_report_received jiffies n g t = Some t'"
      unfolding br_leave_report_received_def
      by (rule each_one [where y = "br_addr_hash g"])
        (simp_all add: br_addr_hash_less same other, simp add: hit e walk t'_def)
    with ok show ?thesis using that by blast
  qed
qed

text \<open>A query marks ports; \<open>index\<close> has to know the ports that are on lists.\<close>

lemma mark_walk_ok:
  assumes "mfd_ok t" and "path (mfd_nodes t) p as" and "length as < k"
    and "\<And>a nd. mfd_nodes t a = Some nd \<Longrightarrow> index (pl_dst nd) \<noteq> None"
  shows "\<exists>t'. mark_walk index x k p t = Some t' \<and> mfd_ok t' \<and> mfd_ports t' = mfd_ports t
    \<and> node_dst t' = node_dst t \<and> mfd_ents t' = mfd_ents t \<and> mfd_hash t' = mfd_hash t \<and> mfd_fresh t' = mfd_fresh t"
  using assms
proof (induction as arbitrary: t p k)
  case Nil
  then show ?case by (cases k) auto
next
  case (Cons a as)
  then obtain k' where k: "k = Suc k'" by (cases k) auto
  from Cons.prems obtain nd where a: "p = Some a" "mfd_nodes t a = Some nd" "path (mfd_nodes t) (pl_next nd) as" by auto
  from Cons.prems(4) [OF a(2)] obtain i where i: "index (pl_dst nd) = Some i" by auto
  have IH: "\<exists>t'. mark_walk index x k' (pl_next nd) t1 = Some t' \<and> mfd_ok t' \<and> mfd_ports t' = mfd_ports t1
      \<and> node_dst t' = node_dst t1 \<and> mfd_ents t' = mfd_ents t1 \<and> mfd_hash t' = mfd_hash t1 \<and> mfd_fresh t' = mfd_fresh t1"
    if "mfd_ok t1" "path (mfd_nodes t1) (pl_next nd) as" "\<And>a nd. mfd_nodes t1 a = Some nd \<Longrightarrow> index (pl_dst nd) \<noteq> None" for t1
    by (rule Cons.IH) (use that Cons.prems(3) k in auto)
  show ?case
  proof (cases "int i = x")
    case True
    then show ?thesis using IH [OF Cons.prems(1) a(3) Cons.prems(4)] a i k by auto
  next
    case False
    have sh: "same_shape nd (nd\<lparr>dont_forward_report := True\<rparr>)" by (simp add: same_shape_def)
    obtain t1 where t1: "upd_node a (\<lambda>p. p\<lparr>dont_forward_report := True\<rparr>) t = Some t1" "mfd_ok t1"
        "mfd_ports t1 = mfd_ports t" "mfd_nodes t1 a = Some (nd\<lparr>dont_forward_report := True\<rparr>)"
        "node_dst t1 = node_dst t" "mfd_ents t1 = mfd_ents t" "mfd_hash t1 = mfd_hash t" "mfd_fresh t1 = mfd_fresh t"
        "mc_timers t1 = mc_timers t" "\<forall>b. b \<noteq> a \<longrightarrow> mfd_nodes t1 b = mfd_nodes t b"
      by (rule upd_flags_ok [of t a nd "\<lambda>p. p\<lparr>dont_forward_report := True\<rparr>", OF Cons.prems(1) a(2) sh])
    have nodes: "mfd_nodes t1 = (mfd_nodes t)(a \<mapsto> nd\<lparr>dont_forward_report := True\<rparr>)"
      using t1(4,10) by (auto simp: fun_eq_iff)
    have "path (mfd_nodes t1) (pl_next nd) as"
      using a path_upd_fields [of "mfd_nodes t" a nd "nd\<lparr>dont_forward_report := True\<rparr>"] by (simp add: nodes)
    moreover have "index (pl_dst nb) \<noteq> None" if "mfd_nodes t1 b = Some nb" for b nb
      using that Cons.prems(4) [of b] a(2) i t1(4,10) by (cases "b = a") auto
    ultimately have "\<exists>t'. mark_walk index x k' (pl_next nd) t1 = Some t' \<and> mfd_ok t' \<and> mfd_ports t' = mfd_ports t1
      \<and> node_dst t' = node_dst t1 \<and> mfd_ents t' = mfd_ents t1 \<and> mfd_hash t' = mfd_hash t1 \<and> mfd_fresh t' = mfd_fresh t1"
      by (rule IH [OF t1(2)])
    then show ?thesis using a i k False t1 by (simp cong: conj_cong)
  qed
qed

text \<open>A report of a port that is on the list already.\<close>

lemma refresh_ok:
  assumes "mfd_ok t" and "mfd_nodes t a = Some nd"
  obtains t' where "refresh_node jiffies type a t = Some t'" "mfd_ok t'" "mfd_ports t' = mfd_ports t"
    "mc_timers t' a = Some (membership_expires jiffies)" "node_dst t' = node_dst t"
proof -
  let ?f = "\<lambda>p. if \<not> vinfo p \<and> type = IGMP_V1_MEMBERSHIP_REPORT then p\<lparr>vinfo := True\<rparr> else p"
  have "same_shape nd (?f nd)" by (simp add: same_shape_def)
  from upd_flags_ok [of t a nd ?f, OF assms this] obtain t1 where
    t1: "upd_node a ?f t = Some t1" "mfd_ok t1" "mfd_ports t1 = mfd_ports t" "mfd_nodes t1 a = Some (?f nd)" "node_dst t1 = node_dst t"
    by blast
  define t2 where "t2 = mc_add_timer a (membership_expires jiffies) t1"
  have n2: "mfd_nodes t2 a = Some (?f nd)" using t1(4) by (simp add: t2_def mc_add_timer_def)
  have t2: "mfd_ok t2" "mfd_ports t2 = mfd_ports t1" unfolding t2_def by (rule set_timer_ok [OF t1(2)], use t1(4) in simp)+
  have "same_shape (?f nd) ((?f nd)\<lparr>dont_forward_report := False\<rparr>)" by (simp add: same_shape_def)
  from upd_flags_ok [of t2 a "?f nd" "\<lambda>p. p\<lparr>dont_forward_report := False\<rparr>", OF t2(1) n2 this] obtain t3 where
    t3: "upd_node a (\<lambda>p. p\<lparr>dont_forward_report := False\<rparr>) t2 = Some t3" "mfd_ok t3" "mfd_ports t3 = mfd_ports t2"
      "node_dst t3 = node_dst t2" "mc_timers t3 = mc_timers t2"
    by blast
  have "refresh_node jiffies type a t = Some t3" using t1(1) t3(1) by (simp add: refresh_node_def t2_def Let_def)
  moreover have "node_dst t2 = node_dst t1" by (simp add: t2_def mc_add_timer_def node_dst_def fun_eq_iff)
  ultimately show ?thesis
    using that [of t3] t1 t2 t3 by (simp add: t2_def mc_add_timer_def)
qed

text \<open>A report of a new port.\<close>

lemma add_node_ok:
  assumes "mfd_ok t" and "mfd_ents t f = Some e" and "n \<notin> set (mfd_ports t (mfd_addr e))"
  obtains t' where "add_node jiffies type f n t = Some t'" "mfd_ok t'"
    "mfd_ports t' = (mfd_ports t)(mfd_addr e := n # mfd_ports t (mfd_addr e))"
proof -
  obtain L where L: "heap_rep t L" "chain_ok (mfd_hash t) (ent_addrs t)" "dom (mc_timers t) = dom (mfd_nodes t)"
    by (rule mfd_okE [OF assms(1)])
  note ports = mfd_ports_hit [OF L(1,2) assms(2)]
  let ?a = "mfd_fresh t"
  obtain t' where t': "add_node jiffies type f n t = Some t'"
    "heap_rep t' (L(f := ?a # L f))" "mfd_hash t' = mfd_hash t" "ent_addrs t' = ent_addrs t"
    "dom (mfd_nodes t') = insert ?a (dom (mfd_nodes t))" "mc_timers t' = (mc_timers t)(?a \<mapsto> membership_expires jiffies)"
    "\<And>b. b \<noteq> ?a \<Longrightarrow> mfd_nodes t' b = mfd_nodes t b" "node_dst t' ?a = n"
    using assms(3) by (auto simp: ports intro: heap_rep_add_node [OF L(1) assms(2), of n jiffies type])
  have chain': "chain_ok (mfd_hash t') (ent_addrs t')" using L(2) t'(3,4) by simp
  have dst: "map (node_dst t') (L h) = map (node_dst t) (L h)" if "mfd_ents t h = Some eh" for h eh
  proof (rule map_cong [OF refl])
    fix b assume "b \<in> set (L h)"
    then have "b \<noteq> ?a" using heap_repD(5) [OF L(1) that, of b] heap_rep_node(1) [OF L(1), of b] by auto
    then show "node_dst t' b = node_dst t b" using t'(7) by (simp add: node_dst_def)
  qed
  have "ent_addrs t f = Some (mfd_addr e)" using assms(2) by (simp add: ent_addrs_def)
  then have "ent_addrs t' f = Some (mfd_addr e)" using t'(4) by simp
  then obtain e' where "mfd_ents t' f = Some e'" "mfd_addr e' = mfd_addr e" by (auto simp: ent_addrs_def)
  then have here: "mfd_ports t' (mfd_addr e) = n # mfd_ports t (mfd_addr e)"
    using mfd_ports_hit [OF t'(2) chain', of f e'] dst [OF assms(2)] ports t'(8) by simp
  have "mfd_ports t' h = mfd_ports t h" if "h \<noteq> mfd_addr e" for h
    by (rule mfd_ports_other [OF L(1,2) t'(2) chain']) (use that dst assms(2) in \<open>auto simp: t'(4) ent_addrs_def\<close>)
  with here have "mfd_ports t' = (mfd_ports t)(mfd_addr e := n # mfd_ports t (mfd_addr e))" by (auto simp: fun_eq_iff)
  moreover have "mfd_ok t'" using t'(2,5,6) chain' L(3) by (auto simp: mfd_ok_def)
  ultimately show ?thesis using that t'(1) by blast
qed

text \<open>
  A new group. The code fills its list before it links the group; the two touch different parts of
  the table.
\<close>

lemma add_node_link: "add_node jiffies type f n (mfd_hash_link f' h t) = map_option (mfd_hash_link f' h) (add_node jiffies type f n t)"
  by (cases "mfd_ents t f") (simp_all add: add_node_def mfd_hash_link_def upd_ent_def mc_add_timer_def Let_def)

lemma new_group_ok:
  assumes "mfd_ok t" and "br_mfd_get t g = Some None" and "new_group g t = (f, t1)"
  shows "mfd_ok (mfd_hash_link f (br_addr_hash g) t1)" "mfd_ports (mfd_hash_link f (br_addr_hash g) t1) = mfd_ports t"
    "mfd_ents (mfd_hash_link f (br_addr_hash g) t1) f = Some \<lparr>port_count = 0, mfd_addr = g, plist = None\<rparr>"
    "mfd_ports t g = []"
proof -
  obtain L where L: "heap_rep t L" "chain_ok (mfd_hash t) (ent_addrs t)" "dom (mc_timers t) = dom (mfd_nodes t)"
    by (rule mfd_okE [OF assms(1)])
  note N = heap_rep_new_group [OF L(1) assms(3)]
  let ?t = "mfd_hash_link f (br_addr_hash g) t1"
  have S: "mfd_ents ?t = mfd_ents t1" "mfd_nodes ?t = mfd_nodes t1" "mfd_fresh ?t = mfd_fresh t1" "mc_timers ?t = mc_timers t1"
    by (simp_all add: mfd_hash_link_def)
  have R: "heap_rep ?t (L(f := []))" by (rule heap_rep_cong [OF N(1) S(1-3)])
  have new: "ent_addrs t h \<noteq> Some g" for h
    using assms(2) L(2) br_mfd_get_hit [OF L(2)] by (auto simp: ent_addrs_def)
  have A: "ent_addrs ?t = (ent_addrs t)(f \<mapsto> g)" using N(2) by (simp add: ent_addrs_def S fun_eq_iff)
  have C: "chain_ok (mfd_hash ?t) (ent_addrs ?t)"
    using chain_ok_link [OF L(2) N(3) new] by (simp add: A) (simp add: mfd_hash_link_def N(6))
  have "dom (mc_timers ?t) = dom (mfd_nodes ?t)" using L(3) by (simp add: S N(5,7))
  with R C show "mfd_ok ?t" by (auto simp: mfd_ok_def)
  show e: "mfd_ents ?t f = Some \<lparr>port_count = 0, mfd_addr = g, plist = None\<rparr>" using N(4) by (simp add: S)
  show empty: "mfd_ports t g = []" by (rule mfd_ports_miss [OF L(2) new])
  have "mfd_ports ?t g = []" using mfd_ports_hit [OF R C e] by simp
  moreover have "mfd_ports ?t h = mfd_ports t h" if "h \<noteq> g" for h
  proof (rule mfd_ports_other [OF L(1,2) R C])
    fix f' show "ent_addrs ?t f' = Some h \<longleftrightarrow> ent_addrs t f' = Some h" using that N(3) by (auto simp: A)
    have "node_dst ?t = node_dst t" by (simp add: node_dst_def S N(5) fun_eq_iff)
    moreover assume "ent_addrs t f' = Some h"
    then have "f' \<noteq> f" using N(3) by auto
    ultimately show "map (node_dst ?t) ((L(f := [])) f') = map (node_dst t) (L f')" by simp
  qed
  ultimately have "mfd_ports ?t h = mfd_ports t h" for h using empty by (cases "h = g") simp_all
  then show "mfd_ports ?t = mfd_ports t" by (simp add: fun_eq_iff)
qed

end
