(* ===== verification/Br_Mfd.thy ===== *)
theory Br_Mfd
  imports Br_Forward Br_Mfd_Member
begin

text \<open>
  Multicast frames (br_mfd.c and \<^verbatim>\<open>br_selective_flood\<close> of br_forward.c): the handlers that look into a
  frame, learn memberships from reports, relay reports selectively and send data to the members of
  its group. The calls to \<^verbatim>\<open>br_handle_mc\<close> in br_input.c and br_forward.c are compiled out, so on the
  router these handlers are reached by no frame; they are modelled as the code has them.
\<close>

section \<open>Looking into a frame\<close>

text \<open>
  Four bytes from offset \<open>i\<close> as the little-endian processor loads them. Of a frame that is too short,
  the code reads what lies behind it in memory; such bytes are unspecified.
\<close>

definition le32_at :: "u8 list \<Rightarrow> nat \<Rightarrow> u32" where
  "le32_at d i = ucast (d ! i) OR push_bit 8 (ucast (d ! (i + 1)))
     OR push_bit 16 (ucast (d ! (i + 2))) OR push_bit 24 (ucast (d ! (i + 3)))"

definition IPPROTO_IGMP :: u8 where
  "IPPROTO_IGMP = 2"

datatype mc_packet = Not_ip | Igmp u8 u32 | Mc_data u32

definition mc_parse :: "u8 list \<Rightarrow> mc_packet" where
  "mc_parse d =
     (if htons (h_proto d) = ETH_P_IP
      then
        (let ihl = unat (d ! 14 AND 0x0F) * 4;
             data_ptr = 14 + ihl
         in if d ! 23 = IPPROTO_IGMP then Igmp (d ! data_ptr) (le32_at d (data_ptr + 4))
            else Mc_data (le32_at d 30))
      else Not_ip)"

text \<open>The results of the handlers, as bytes.\<close>

definition MFD_MEMORY_ERROR :: u8 where
  "MFD_MEMORY_ERROR = - 4"

section \<open>Relaying reports\<close>

text \<open>Whether reports are held back from port \<open>n\<close>: its node is on the list of the group and marked.\<close>

definition suppressed :: "mfd_table \<Rightarrow> nat \<Rightarrow> nat \<Rightarrow> bool option" where
  "suppressed t f n =
     do { e \<leftarrow> mfd_ents t f;
          pnode \<leftarrow> find_node (visits t) t n (plist e);
          case pnode of
            None \<Rightarrow> Some False
          | Some a \<Rightarrow> do { nd \<leftarrow> mfd_nodes t a; Some (dont_forward_report nd) } }"

fun selective_walk :: "u32 \<Rightarrow> nat list \<Rightarrow> nat \<Rightarrow> sk_buff \<Rightarrow> br_sys \<Rightarrow> br_sys" where
  "selective_walk jiffies [] f skb s = s"
| "selective_walk jiffies (n # ns) f skb s =
     (case br_get_port (snd s) n of
        None \<Rightarrow> on_bridge fault s
      | Some p \<Rightarrow>
          (let (deliver, g) = should_deliver p skb (fst s);
               s = (g, snd s)
           in if \<not> deliver then selective_walk jiffies ns f skb s
              else
                (case suppressed (mfd (snd s)) f n of
                   None \<Rightarrow> on_bridge fault s
                 | Some True \<Rightarrow> selective_walk jiffies ns f skb s
                 | Some False \<Rightarrow>
                     (case skb_clone skb (snd s) of
                        (None, br) \<Rightarrow> (g, br_send_frame_error skb (tx_drop br))
                      | (Some skb2, br) \<Rightarrow>
                          selective_walk jiffies ns f skb (br_send_frame jiffies n skb2 (g, br))))))"

definition br_selective_flood :: "u32 \<Rightarrow> nat \<Rightarrow> sk_buff \<Rightarrow> br_sys \<Rightarrow> br_sys" where
  "br_selective_flood jiffies f skb s = selective_walk jiffies (port_nos (snd s)) f skb s"

section \<open>Learning\<close>

text \<open>\<^verbatim>\<open>__mfd_insert_port\<close> for the group \<open>f\<close> and the port \<open>source\<close>.\<close>

definition mfd_insert_port :: "u32 \<Rightarrow> nat \<Rightarrow> nat \<Rightarrow> u8 \<Rightarrow> sk_buff \<Rightarrow> br_sys \<Rightarrow> br_sys" where
  "mfd_insert_port jiffies f source type skb s =
     (let t = mfd (snd s)
      in case do { e \<leftarrow> mfd_ents t f; find_node (visits t) t source (plist e) } of
           None \<Rightarrow> on_bridge fault s
         | Some (Some a) \<Rightarrow>
             br_selective_flood jiffies f skb (on_bridge (on_mfd (refresh_node jiffies type a)) s)
         | Some None \<Rightarrow>
             (let (ok, br) = alloc (snd s)
              in if \<not> ok then (fst s, br)
                 else br_selective_flood jiffies f skb (fst s, on_mfd (add_node jiffies type f source) br)))"

definition br_mfd_insert :: "u32 \<Rightarrow> nat \<Rightarrow> u32 \<Rightarrow> u8 \<Rightarrow> sk_buff \<Rightarrow> br_sys \<Rightarrow> br_sys" where
  "br_mfd_insert jiffies source addr type skb s =
     (case br_mfd_get (mfd (snd s)) addr of
        None \<Rightarrow> on_bridge fault s
      | Some (Some f) \<Rightarrow> mfd_insert_port jiffies f source type skb s
      | Some None \<Rightarrow>
          (let (ok, br) = alloc (snd s)
           in if \<not> ok then (fst s, br)
              else
                (let (f, t) = new_group addr (mfd br)
                 in on_bridge (\<lambda>br. br\<lparr>mfd := mfd_hash_link f (br_addr_hash addr) (mfd br)\<rparr>)
                      (mfd_insert_port jiffies f source type skb (fst s, br\<lparr>mfd := t\<rparr>)))))"

definition br_mc_learn_and_flood :: "u32 \<Rightarrow> nat \<Rightarrow> u8 \<Rightarrow> u32 \<Rightarrow> sk_buff \<Rightarrow> br_sys \<Rightarrow> br_sys" where
  "br_mc_learn_and_flood jiffies source type grp skb s =
     (if type = IGMP_V1_MEMBERSHIP_REPORT then br_mfd_insert jiffies source grp type skb s
      else if type = IGMP_V2_MEMBERSHIP_REPORT then br_mfd_insert jiffies source grp type skb s
      else if type = IGMP_V3_MEMBERSHIP_REPORT then br_mfd_insert jiffies source grp type skb s
      else if type = IGMP_LEAVE_GROUP
      then br_flood jiffies True skb (on_bridge (on_mfd (br_leave_report_received jiffies source grp)) s)
      else s)"

definition mc_query :: "u32 \<Rightarrow> int \<Rightarrow> br_sys \<Rightarrow> br_sys" where
  "mc_query grp exclude s =
     on_bridge (\<lambda>br. on_mfd (br_dont_forward_report (port_index br) grp exclude) br) s"

section \<open>The handlers\<close>

text \<open>
  Data in \<^verbatim>\<open>br_handle_mc\<close> and \<^verbatim>\<open>br_forward_handle_mc\<close>: clones to all members but the last, which gets the
  buffer. A clone that fails ends the walk with an error and leaves the buffer to nobody.
\<close>

fun mc_send_walk :: "u32 \<Rightarrow> nat \<Rightarrow> nat \<Rightarrow> sk_buff \<Rightarrow> br_sys \<Rightarrow> u8 \<times> br_sys" where
  "mc_send_walk jiffies 0 a skb s = (0, on_bridge fault s)"
| "mc_send_walk jiffies (Suc k) a skb s =
     (case mfd_nodes (mfd (snd s)) a of
        None \<Rightarrow> (0, on_bridge fault s)
      | Some pnode \<Rightarrow>
          (case pl_next pnode of
             None \<Rightarrow> (0, br_send_frame jiffies (pl_dst pnode) skb s)
           | Some b \<Rightarrow>
               (case skb_clone skb (snd s) of
                  (None, br) \<Rightarrow> (MFD_MEMORY_ERROR, (fst s, tx_drop br))
                | (Some skb2, br) \<Rightarrow>
                    mc_send_walk jiffies k b skb (br_send_frame jiffies (pl_dst pnode) skb2 (fst s, br)))))"

text \<open>Data in \<^verbatim>\<open>br_input_handle_mc\<close>: a clone for every member.\<close>

fun mc_copy_walk :: "u32 \<Rightarrow> nat \<Rightarrow> nat option \<Rightarrow> sk_buff \<Rightarrow> br_sys \<Rightarrow> u8 \<times> br_sys" where
  "mc_copy_walk jiffies 0 pnode skb s = (0, on_bridge fault s)"
| "mc_copy_walk jiffies (Suc k) None skb s = (0, s)"
| "mc_copy_walk jiffies (Suc k) (Some a) skb s =
     (case mfd_nodes (mfd (snd s)) a of
        None \<Rightarrow> (0, on_bridge fault s)
      | Some pnode \<Rightarrow>
          (case skb_clone skb (snd s) of
             (None, br) \<Rightarrow> (MFD_MEMORY_ERROR, (fst s, tx_drop br))
           | (Some skb2, br) \<Rightarrow>
               mc_copy_walk jiffies k (pl_next pnode) skb
                 (br_send_frame jiffies (pl_dst pnode) skb2 (fst s, br))))"

text \<open>The group's list, or \<open>None\<close> at a bad pointer.\<close>

definition group_plist :: "mfd_table \<Rightarrow> u32 \<Rightarrow> nat option option" where
  "group_plist t grp =
     do { found \<leftarrow> br_mfd_get t grp;
          case found of None \<Rightarrow> Some None | Some f \<Rightarrow> do { e \<leftarrow> mfd_ents t f; Some (plist e) } }"

definition kfree_skb :: "sk_buff \<Rightarrow> br_sys \<Rightarrow> br_sys" where
  "kfree_skb skb s = on_bridge (emit (Kfree_skb (skb_id skb))) s"

text \<open>
  \<^verbatim>\<open>br_handle_mc\<close> for a frame from port \<open>n\<close> (\<open>input\<close>) or from the bridge's own device.
\<close>

definition br_handle_mc :: "u32 \<Rightarrow> bool \<Rightarrow> nat \<Rightarrow> sk_buff \<Rightarrow> br_sys \<Rightarrow> u8 \<times> br_sys" where
  "br_handle_mc jiffies input n skb s =
     (case mc_parse (skb_data skb) of
        Igmp type grp \<Rightarrow>
          (if type \<in> {IGMP_V1_MEMBERSHIP_REPORT, IGMP_V2_MEMBERSHIP_REPORT, IGMP_V3_MEMBERSHIP_REPORT, IGMP_LEAVE_GROUP}
           then
             (if input then (0, kfree_skb skb (br_mc_learn_and_flood jiffies n type grp skb s))
              else (0, br_flood jiffies False skb s))
           else if type = IGMP_MEMBERSHIP_QUERY
           then (0, br_flood jiffies False skb (mc_query grp (if input then int (skb_dev skb) else - 1) s))
           else (0, br_flood jiffies False skb s))
      | Mc_data grp \<Rightarrow>
          (case group_plist (mfd (snd s)) grp of
             None \<Rightarrow> (0, on_bridge fault s)
           | Some (Some a) \<Rightarrow> mc_send_walk jiffies (visits (mfd (snd s))) a skb s
           | Some None \<Rightarrow> (0, kfree_skb skb s))
      | Not_ip \<Rightarrow> (0, br_flood jiffies False skb s))"

text \<open>
  \<^verbatim>\<open>br_forward_handle_mc\<close>, for frames of the bridge's own device. After data has been sent to the last
  member the buffer is freed again.
\<close>

definition br_forward_handle_mc :: "u32 \<Rightarrow> sk_buff \<Rightarrow> br_sys \<Rightarrow> u8 \<times> br_sys" where
  "br_forward_handle_mc jiffies skb s =
     (case mc_parse (skb_data skb) of
        Igmp type grp \<Rightarrow>
          (if type = IGMP_MEMBERSHIP_QUERY
           then (0, br_flood jiffies False skb (mc_query grp (- 1) s))
           else (0, br_flood jiffies False skb s))
      | Mc_data grp \<Rightarrow>
          (case group_plist (mfd (snd s)) grp of
             None \<Rightarrow> (0, on_bridge fault s)
           | Some (Some a) \<Rightarrow>
               (case mc_send_walk jiffies (visits (mfd (snd s))) a skb s of
                  (r, s) \<Rightarrow> if r = MFD_MEMORY_ERROR then (r, s) else (0, kfree_skb skb s))
           | Some None \<Rightarrow> (0, kfree_skb skb s))
      | Not_ip \<Rightarrow> (0, br_flood jiffies False skb s))"

text \<open>\<^verbatim>\<open>br_input_handle_mc\<close>, for frames received on port \<open>n\<close>; the buffer stays with the caller.\<close>

definition br_input_handle_mc :: "u32 \<Rightarrow> nat \<Rightarrow> sk_buff \<Rightarrow> br_sys \<Rightarrow> u8 \<times> br_sys" where
  "br_input_handle_mc jiffies n skb s =
     (case mc_parse (skb_data skb) of
        Igmp type grp \<Rightarrow>
          (if type \<in> {IGMP_V1_MEMBERSHIP_REPORT, IGMP_V2_MEMBERSHIP_REPORT, IGMP_V3_MEMBERSHIP_REPORT, IGMP_LEAVE_GROUP}
           then (0, br_mc_learn_and_flood jiffies n type grp skb s)
           else if type = IGMP_MEMBERSHIP_QUERY
           then (0, br_flood jiffies True skb (mc_query grp (int (skb_dev skb)) s))
           else (0, br_flood jiffies True skb s))
      | Mc_data grp \<Rightarrow>
          (case group_plist (mfd (snd s)) grp of
             None \<Rightarrow> (0, on_bridge fault s)
           | Some pnode \<Rightarrow> mc_copy_walk jiffies (visits (mfd (snd s))) pnode skb s)
      | Not_ip \<Rightarrow> (0, br_flood jiffies True skb s))"

end
