(* ===== verification/Br_Mfd_Inv.thy ===== *)
theory Br_Mfd_Inv
  imports Br_Mfd
begin

text \<open>
  What the multicast handlers keep: on a bridge whose table of groups is well-formed and whose members are
  its ports, every handler and every membership timer leaves it so and follows no bad pointer, and changes
  the members of the groups only as the report or the timer says.
\<close>

section \<open>The bridge with memberships\<close>

text \<open>
  What holds between frames: the forwarding database and the table of groups are well-formed, every
  member is a port of the bridge, and no bad pointer has been followed.
\<close>

definition mc_inv :: "net_bridge \<Rightarrow> bool" where
  "mc_inv br \<longleftrightarrow> fdb_hashed br \<and> fdb_ports br \<and> mfd_ok (mfd br)
     \<and> (\<forall>g. set (mfd_ports (mfd br) g) \<subseteq> set (port_nos br)) \<and> \<not> oopsed br"

lemma mc_invD:
  assumes "mc_inv br"
  shows "fdb_hashed br" "fdb_ports br" "mfd_ok (mfd br)" "set (mfd_ports (mfd br) g) \<subseteq> set (port_nos br)" "\<not> oopsed br"
  using assms by (auto simp: mc_inv_def)

lemma mc_inv_keeps: "mc_inv a \<Longrightarrow> keeps a b \<Longrightarrow> mc_inv b"
  by (simp add: mc_inv_def keeps_fdb keeps_mfd keeps_port_nos keeps_oopsed)

lemma mc_inv_set_mfd:
  assumes "mc_inv br" and "mfd_ok t" and "\<And>g. set (mfd_ports t g) \<subseteq> set (port_nos br)"
  shows "mc_inv (br\<lparr>mfd := t\<rparr>)"
  using assms by (simp add: mc_inv_def fdb_hashed_def fdb_ports_def fdb_all_def port_nos_def)

lemma mc_inv_on_mfd:
  assumes "mc_inv br" and "f (mfd br) = Some t" and "mfd_ok t" and "\<And>g. set (mfd_ports t g) \<subseteq> set (mfd_ports (mfd br) g)"
  shows "mc_inv (on_mfd f br)"
  using mc_inv_set_mfd [OF assms(1,3)] mc_invD(4) [OF assms(1)] assms(2,4) by (fastforce simp: on_mfd_def)

lemma member_is_port:
  assumes "mc_inv br" and "mfd_nodes (mfd br) a = Some nd"
  shows "pl_dst nd \<in> set (port_nos br)"
proof -
  obtain L where L: "heap_rep (mfd br) L" "chain_ok (mfd_hash (mfd br)) (ent_addrs (mfd br))"
    by (rule mfd_okE [OF mc_invD(3) [OF assms(1)]])
  from heap_rep_node(2) [OF L(1) assms(2)] obtain e where e: "mfd_ents (mfd br) (pl_mfd nd) = Some e" by blast
  have "pl_dst nd \<in> set (mfd_ports (mfd br) (mfd_addr e))"
    using mfd_ports_hit [OF L e] heap_rep_node(3) [OF L(1) assms(2)] assms(2) by (auto simp: node_dst_def intro!: rev_image_eqI)
  then show ?thesis using mc_invD(4) [OF assms(1)] by blast
qed

section \<open>Copies\<close>

lemma keeps_send_copy:
  assumes "fdb_hashed (snd s)" and "fdb_ports (snd s)" and "br_get_port (snd s) m \<noteq> None"
    and "skb_clone skb (snd s) = (Some skb2, br)"
  shows "keeps (snd s) (snd (br_send_frame jiffies m skb2 (g, br)))"
proof -
  have ok: "fst (alloc (snd s))" using assms(4) skb_clone_None [of "snd s" skb] by auto
  have br: "br = (snd (alloc (snd s)))\<lparr>next_skb := Suc (next_skb (snd s))\<rparr>"
    using assms(4) skb_clone_Some [OF ok, of skb] by simp
  have 1: "keeps (snd s) br" unfolding br by (blast intro: keeps_trans keeps_plain)
  obtain q where q: "br_get_port (snd (g, br)) m = Some q"
    using assms(3) keeps_get_port [OF 1, of m] by (cases "br_get_port br m") auto
  have "keeps (snd (g, br)) (snd (br_send_frame jiffies m skb2 (g, br)))"
    by (rule keeps_send_frame [OF _ _ q]) (use assms(1,2) in \<open>simp_all add: keeps_fdb [OF 1]\<close>)
  then show ?thesis using keeps_trans [OF 1] by simp
qed

lemma keeps_failed_copy: "skb_clone skb br = (None, br') \<Longrightarrow> keeps br (tx_drop br')"
  by (auto simp: skb_clone_def Let_def case_prod_beta split: if_splits intro: keeps_trans keeps_plain)

lemma suppressed_ok:
  assumes "heap_rep t L" and "mfd_ents t f = Some e"
  shows "\<exists>b. suppressed t f n = Some b"
proof -
  have "find_node (visits t) t n (plist e) = Some (find (\<lambda>a. node_dst t a = n) (L f))"
    by (rule find_node_path [OF heap_repD(2) [OF assms] heap_rep_visits [OF assms]])
  moreover have "mfd_nodes t a \<noteq> None" if "find (\<lambda>a. node_dst t a = n) (L f) = Some a" for a
    using that heap_repD(5) [OF assms, of a] by (auto simp: find_Some_iff)
  ultimately show ?thesis
    using assms(2) by (cases "find (\<lambda>a. node_dst t a = n) (L f)") (auto simp: suppressed_def)
qed

lemma keeps_selective_walk:
  assumes "fdb_hashed (snd s)" and "fdb_ports (snd s)" and "\<And>n. n \<in> set ns \<Longrightarrow> br_get_port (snd s) n \<noteq> None"
    and "heap_rep (mfd (snd s)) L" and "mfd_ents (mfd (snd s)) f = Some e"
  shows "keeps (snd s) (snd (selective_walk jiffies ns f skb s))"
  using assms
proof (induction ns arbitrary: s)
  case (Cons n ns)
  obtain p where p: "br_get_port (snd s) n = Some p" using Cons.prems(3) [of n] by auto
  obtain d g where d: "should_deliver p skb (fst s) = (d, g)" by (cases "should_deliver p skb (fst s)")
  obtain b where b: "suppressed (mfd (snd s)) f n = Some b" using suppressed_ok [OF Cons.prems(4,5)] by blast
  have IH: "keeps (snd s) (snd (selective_walk jiffies ns f skb t))" if "keeps (snd s) (snd t)" for t
    by (rule keeps_trans [OF that Cons.IH])
      (use Cons.prems that in \<open>auto simp: keeps_fdb keeps_mfd keeps_get_port simp del: not_None_eq\<close>)
  show ?case
  proof (cases "d \<and> \<not> b")
    case False
    then show ?thesis using IH [of "(g, snd s)"] p d b by (auto simp: Let_def)
  next
    case True
    obtain r br where r: "skb_clone skb (snd s) = (r, br)" by (cases "skb_clone skb (snd s)")
    show ?thesis
    proof (cases r)
      case None
      with True p d b r keeps_trans [OF keeps_failed_copy keeps_plain(2)] show ?thesis
        by (simp add: br_send_frame_error_def)
    next
      case (Some skb2)
      have "keeps (snd s) (snd (br_send_frame jiffies n skb2 (g, br)))"
        by (rule keeps_send_copy [OF Cons.prems(1,2)]) (use p r Some in auto)
      from IH [OF this] show ?thesis using True p d b r Some by simp
    qed
  qed
qed simp

lemma keeps_selective_flood:
  assumes "fdb_hashed (snd s)" and "fdb_ports (snd s)" and "heap_rep (mfd (snd s)) L" and "mfd_ents (mfd (snd s)) f = Some e"
  shows "keeps (snd s) (snd (br_selective_flood jiffies f skb s))"
  unfolding br_selective_flood_def
  by (rule keeps_selective_walk [OF assms(1,2) _ assms(3,4)]) (simp only: br_get_port_None_iff not_not)

section \<open>Reports\<close>

text \<open>What a report does to the table, when there is memory.\<close>

definition join_group :: "u32 \<Rightarrow> u8 \<Rightarrow> nat \<Rightarrow> nat \<Rightarrow> mfd_table \<Rightarrow> mfd_table option" where
  "join_group jiffies type n f t =
     do { e \<leftarrow> mfd_ents t f;
          pnode \<leftarrow> find_node (visits t) t n (plist e);
          case pnode of Some a \<Rightarrow> refresh_node jiffies type a t | None \<Rightarrow> add_node jiffies type f n t }"

definition mfd_join :: "u32 \<Rightarrow> u8 \<Rightarrow> nat \<Rightarrow> u32 \<Rightarrow> mfd_table \<Rightarrow> mfd_table option" where
  "mfd_join jiffies type n g t =
     do { found \<leftarrow> br_mfd_get t g;
          case found of
            Some f \<Rightarrow> join_group jiffies type n f t
          | None \<Rightarrow> (let (f, t) = new_group g t
                    in map_option (mfd_hash_link f (br_addr_hash g)) (join_group jiffies type n f t)) }"

lemma find_member:
  assumes "mfd_ok t" and "mfd_ents t f = Some e"
  obtains (member) a nd where "find_node (visits t) t n (plist e) = Some (Some a)" "mfd_nodes t a = Some nd" "pl_dst nd = n"
      "pl_mfd nd = f" "n \<in> set (mfd_ports t (mfd_addr e))"
    | (other) "find_node (visits t) t n (plist e) = Some None" "n \<notin> set (mfd_ports t (mfd_addr e))"
proof -
  obtain L where L: "heap_rep t L" "chain_ok (mfd_hash t) (ent_addrs t)" by (rule mfd_okE [OF assms(1)])
  have find: "find_node (visits t) t n (plist e) = Some (find (\<lambda>a. node_dst t a = n) (L f))"
    by (rule find_node_path [OF heap_repD(2) [OF L(1) assms(2)] heap_rep_visits [OF L(1) assms(2)]])
  note ports = mfd_ports_hit [OF L assms(2)]
  show ?thesis
  proof (cases "find (\<lambda>a. node_dst t a = n) (L f)")
    case None
    with find ports other show ?thesis by (auto simp: find_None_iff)
  next
    case (Some a)
    then have a: "a \<in> set (L f)" "node_dst t a = n" by (auto simp: find_Some_iff)
    with heap_repD(5) [OF L(1) assms(2)] obtain nd where nd: "mfd_nodes t a = Some nd" "pl_mfd nd = f" by blast
    show ?thesis
      by (rule member [OF _ nd(1) _ nd(2)]) (use a nd ports find Some in \<open>auto simp: node_dst_def intro!: rev_image_eqI\<close>)
  qed
qed

definition joined :: "nat \<Rightarrow> nat list \<Rightarrow> nat list" where
  "joined n ns = (if n \<in> set ns then ns else n # ns)"

lemma join_group_ok:
  assumes "mfd_ok t" and "mfd_ents t f = Some e"
  obtains t' where "join_group jiffies type n f t = Some t'" "mfd_ok t'"
    "mfd_ports t' = (mfd_ports t)(mfd_addr e := joined n (mfd_ports t (mfd_addr e)))"
  using assms
proof (cases rule: find_member [OF assms, of n])
  case (1 a nd)
  obtain t' where "refresh_node jiffies type a t = Some t'" "mfd_ok t'" "mfd_ports t' = mfd_ports t"
    by (rule refresh_ok [OF assms(1) 1(2)])
  then show ?thesis using that 1 assms(2) by (simp add: join_group_def joined_def fun_upd_idem)
next
  case 2
  obtain t' where "add_node jiffies type f n t = Some t'" "mfd_ok t'"
      "mfd_ports t' = (mfd_ports t)(mfd_addr e := n # mfd_ports t (mfd_addr e))"
    by (rule add_node_ok [OF assms 2(2)])
  then show ?thesis using that 2 assms(2) by (simp add: join_group_def joined_def)
qed

text \<open>A new group has no nodes yet, so that it gets one, and it does not matter when it is linked.\<close>

lemma join_new_group:
  assumes "new_group g t = (f, t1)"
  shows "map_option (mfd_hash_link f h) (join_group jiffies type n f t1) = join_group jiffies type n f (mfd_hash_link f h t1)"
    "join_group jiffies type n f t1 = add_node jiffies type f n t1"
proof -
  have "mfd_ents t1 f = Some \<lparr>port_count = 0, mfd_addr = g, plist = None\<rparr>" using assms by (auto simp: new_group_def)
  moreover have "mfd_ents (mfd_hash_link f h t1) = mfd_ents t1" by (simp add: mfd_hash_link_def)
  ultimately show "map_option (mfd_hash_link f h) (join_group jiffies type n f t1) = join_group jiffies type n f (mfd_hash_link f h t1)"
    "join_group jiffies type n f t1 = add_node jiffies type f n t1"
    by (simp_all add: join_group_def visits_def add_node_link)
qed

lemma mfd_join_ok:
  assumes "mfd_ok t"
  obtains t' where "mfd_join jiffies type n g t = Some t'" "mfd_ok t'" "mfd_ports t' = (mfd_ports t)(g := joined n (mfd_ports t g))"
proof -
  obtain L where "chain_ok (mfd_hash t) (ent_addrs t)" by (rule mfd_okE [OF assms])
  then show ?thesis
  proof (cases rule: br_mfd_get_cases [where g = g])
    case miss
    obtain f t1 where t1: "new_group g t = (f, t1)" by (cases "new_group g t")
    note N = new_group_ok [OF assms miss(2) t1]
    obtain t' where "join_group jiffies type n f (mfd_hash_link f (br_addr_hash g) t1) = Some t'" "mfd_ok t'"
        "mfd_ports t' = (mfd_ports t)(g := joined n (mfd_ports t g))"
      using join_group_ok [OF N(1,3), of jiffies type n] N(2) by auto
    then show ?thesis using that miss(2) t1 by (simp add: mfd_join_def join_new_group(1) [OF t1])
  next
    case (hit f e)
    then show ?thesis using join_group_ok [OF assms hit(1), of jiffies type n] that by (auto simp: mfd_join_def)
  qed
qed

lemma keeps_set_mfd: "keeps a b \<Longrightarrow> keeps (a\<lparr>mfd := x\<rparr>) (b\<lparr>mfd := x\<rparr>)"
  by (simp add: keeps_def stp_key_def port_devs_def port_nos_def)

lemma mc_inv_join:
  assumes "mc_inv br" and "n \<in> set (port_nos br)" and "mfd_ok t"
    and "mfd_ports t = (mfd_ports (mfd br))(g := joined n (mfd_ports (mfd br) g))"
  shows "mc_inv (br\<lparr>mfd := t\<rparr>)"
  by (rule mc_inv_set_mfd [OF assms(1,3)])
    (use mc_invD(4) [OF assms(1)] assms(2) in \<open>auto simp: assms(4) joined_def split: if_splits\<close>)

lemma mfd_insert_port_linked:
  assumes inv: "mc_inv (snd s)" and e: "mfd_ents (mfd (snd s)) f = Some e" and n: "n \<in> set (port_nos (snd s))"
  shows "mc_inv (snd (mfd_insert_port jiffies f n type skb s))"
    and "join_group jiffies type n f (mfd (snd s)) = Some (mfd (snd (mfd_insert_port jiffies f n type skb s)))
      \<or> mem (snd s) \<noteq> [] \<and> mfd (snd (mfd_insert_port jiffies f n type skb s)) = mfd (snd s)"
proof -
  let ?t = "mfd (snd s)"
  let ?r = "mfd_insert_port jiffies f n type skb s"
  obtain t' where t': "join_group jiffies type n f ?t = Some t'" "mfd_ok t'"
      "mfd_ports t' = (mfd_ports ?t)(mfd_addr e := joined n (mfd_ports ?t (mfd_addr e)))"
    by (rule join_group_ok [OF mc_invD(3) [OF inv] e])
  have e': "\<exists>e'. mfd_ents t' f = Some e'"
    using t'(1) e by (auto simp: join_group_def refresh_node_def add_node_def upd_node_def upd_ent_def mc_add_timer_def Let_def
        split: Option.bind_splits option.splits)
  have flood: "mc_inv (snd (br_selective_flood jiffies f skb (g, br)))" "mfd (snd (br_selective_flood jiffies f skb (g, br))) = t'"
    if "keeps (snd s) br0" "br = br0\<lparr>mfd := t'\<rparr>" for g br br0
  proof -
    have inv': "mc_inv br"
      unfolding that(2) using mc_inv_join [OF mc_inv_keeps [OF inv that(1)], of n t' "mfd_addr e"] n t'(2,3)
      by (simp add: keeps_port_nos [OF that(1)] keeps_mfd [OF that(1)])
    obtain L where L: "heap_rep (mfd br) L" by (rule mfd_okE [OF mc_invD(3) [OF inv']])
    have "\<exists>e'. mfd_ents (mfd (snd (g, br))) f = Some e'" using e' that(2) by simp
    then obtain e' where "mfd_ents (mfd (snd (g, br))) f = Some e'" ..
    then have "keeps (snd (g, br)) (snd (br_selective_flood jiffies f skb (g, br)))"
      using keeps_selective_flood [of "(g, br)" L f e'] mc_invD(1,2) [OF inv'] L by simp
    then show "mc_inv (snd (br_selective_flood jiffies f skb (g, br)))" "mfd (snd (br_selective_flood jiffies f skb (g, br))) = t'"
      using mc_inv_keeps [OF inv'] keeps_mfd that(2) by auto
  qed
  have "mc_inv (snd ?r) \<and> (mfd (snd ?r) = t' \<or> mem (snd s) \<noteq> [] \<and> mfd (snd ?r) = ?t)"
  proof (cases rule: find_member [OF mc_invD(3) [OF inv] e, of n])
    case (1 a nd)
    then have "refresh_node jiffies type a ?t = Some t'" using t'(1) e by (simp add: join_group_def)
    then show ?thesis
      using flood [OF keeps_refl refl, of "fst s"] 1 e by (simp add: mfd_insert_port_def Let_def on_bridge_def on_mfd_def)
  next
    case 2
    then have add: "add_node jiffies type f n ?t = Some t'" using t'(1) e by (simp add: join_group_def)
    have k: "keeps (snd s) (snd (alloc (snd s)))" by (rule keeps_plain)
    have m: "mfd (snd (alloc (snd s))) = ?t" by (rule keeps_mfd [OF k])
    have inv1: "mc_inv (snd (alloc (snd s)))" by (rule mc_inv_keeps [OF inv k])
    have ok: "fst (alloc (snd s))" if "mem (snd s) = []" using that by (simp add: alloc_def)
    show ?thesis
      using flood [OF k refl, of "fst s"] 2 e add m inv1 ok
      by (auto simp: mfd_insert_port_def Let_def on_mfd_def case_prod_beta)
  qed
  then show "mc_inv (snd ?r)" "join_group jiffies type n f ?t = Some (mfd (snd ?r)) \<or> mem (snd s) \<noteq> [] \<and> mfd (snd ?r) = ?t"
    using t'(1) by auto
qed

lemma mfd_insert_port_new:
  fixes jiffies type skb
  assumes inv: "mc_inv (snd s)" and n: "n \<in> set (port_nos (snd s))" and miss: "br_mfd_get (mfd (snd s)) g = Some None"
    and new: "new_group g (mfd (snd s)) = (f, t1)"
  defines "link \<equiv> \<lambda>br. br\<lparr>mfd := mfd_hash_link f (br_addr_hash g) (mfd br)\<rparr>"
  defines "r \<equiv> on_bridge link (mfd_insert_port jiffies f n type skb (fst s, (snd s)\<lparr>mfd := t1\<rparr>))"
  shows "mc_inv (snd r)" and "mfd_join jiffies type n g (mfd (snd s)) = Some (mfd (snd r))
      \<or> mem (snd s) \<noteq> [] \<and> mfd_ports (mfd (snd r)) = mfd_ports (mfd (snd s))"
proof -
  note ok = mc_invD(3) [OF inv]
  note N = new_group_ok [OF ok miss new]
  obtain L where L: "heap_rep (mfd (snd s)) L" by (rule mfd_okE [OF ok])
  note H = heap_rep_new_group [OF L new]
  let ?e = "\<lparr>port_count = 0, mfd_addr = g, plist = None\<rparr> :: net_bridge_mfd_entry"
  define b1 where "b1 = (snd s)\<lparr>mfd := t1\<rparr>"
  obtain t2 where t2: "add_node jiffies type f n t1 = Some t2" "heap_rep t2 ((L(f := []))(f := mfd_fresh t1 # (L(f := [])) f))"
      "ent_addrs t2 = ent_addrs t1"
    by (rule heap_rep_add_node [OF H(1,4), of n]) (auto simp: node_dst_def)
  obtain t' where t': "mfd_join jiffies type n g (mfd (snd s)) = Some t'" "mfd_ok t'"
      "mfd_ports t' = (mfd_ports (mfd (snd s)))(g := joined n (mfd_ports (mfd (snd s)) g))"
    by (rule mfd_join_ok [OF ok])
  have link: "t' = mfd_hash_link f (br_addr_hash g) t2"
    using t'(1) miss new join_new_group(2) [OF new, of jiffies type n] t2(1) by (simp add: mfd_join_def)
  have step: "mfd_insert_port jiffies f n type skb (fst s, b1) =
      (if fst (alloc b1) then br_selective_flood jiffies f skb (fst s, (snd (alloc b1))\<lparr>mfd := t2\<rparr>) else (fst s, snd (alloc b1)))"
    using H(4) t2(1) by (simp add: mfd_insert_port_def b1_def visits_def case_prod_beta Let_def on_mfd_def alloc_frame)
  have k1: "keeps b1 (snd (alloc b1))" by (rule keeps_plain)
  have eq: "(snd s)\<lparr>mfd := x\<rparr> = b1\<lparr>mfd := x\<rparr>" for x by (simp add: b1_def)
  have "mc_inv (snd r) \<and> (mfd (snd r) = t' \<or> mem (snd s) \<noteq> [] \<and> mfd_ports (mfd (snd r)) = mfd_ports (mfd (snd s)))"
  proof (cases "fst (alloc b1)")
    case True
    let ?b2 = "(snd (alloc b1))\<lparr>mfd := t2\<rparr>"
    let ?b3 = "snd (br_selective_flood jiffies f skb (fst s, ?b2))"
    from t2(3) H(2) have "ent_addrs t2 f = Some g" by simp
    then obtain e2 where e2: "mfd_ents t2 f = Some e2" by (auto simp: ent_addrs_def)
    have f2: "fdb_hashed ?b2" "fdb_ports ?b2"
      using mc_invD(1,2) [OF inv] keepsD(1,3) [OF k1] by (simp_all add: fdb_hashed_def fdb_ports_def fdb_all_def port_nos_def b1_def)
    have k3: "keeps ?b2 ?b3" using keeps_selective_flood [of "(fst s, ?b2)" _ f e2] f2 t2(2) e2 by simp
    have m3: "mfd ?b3 = t2" using keeps_mfd [OF k3] by simp
    have "keeps ((snd s)\<lparr>mfd := t'\<rparr>) (?b3\<lparr>mfd := t'\<rparr>)"
      unfolding eq using keeps_trans [OF keeps_set_mfd [OF k1, of t2] k3] keeps_set_mfd [of "b1\<lparr>mfd := t2\<rparr>" ?b3 t'] by simp
    with mc_inv_join [OF inv n t'(2,3)] have "mc_inv (?b3\<lparr>mfd := t'\<rparr>)" by (rule mc_inv_keeps)
    then show ?thesis using True m3 by (simp add: r_def step [unfolded b1_def] b1_def link_def on_bridge_def link)
  next
    case False
    have "mc_inv ((snd s)\<lparr>mfd := mfd_hash_link f (br_addr_hash g) t1\<rparr>)"
      by (rule mc_inv_set_mfd [OF inv N(1)]) (use N(2) mc_invD(4) [OF inv] in auto)
    then have "mc_inv ((snd (alloc b1))\<lparr>mfd := mfd_hash_link f (br_addr_hash g) t1\<rparr>)"
      unfolding eq by (rule mc_inv_keeps [OF _ keeps_set_mfd [OF k1]])
    moreover have "mem (snd s) \<noteq> []" using False by (auto simp: alloc_def b1_def)
    moreover have "mfd (snd (alloc b1)) = t1" using keeps_mfd [OF k1] by (simp add: b1_def)
    ultimately show ?thesis using False N(2) by (simp add: r_def step [unfolded b1_def] b1_def link_def on_bridge_def)
  qed
  then show "mc_inv (snd r)" "mfd_join jiffies type n g (mfd (snd s)) = Some (mfd (snd r))
      \<or> mem (snd s) \<noteq> [] \<and> mfd_ports (mfd (snd r)) = mfd_ports (mfd (snd s))"
    using t'(1) by auto
qed

lemma alloc_mem: "mem br = [] \<Longrightarrow> alloc br = (True, br)"
  by (simp add: alloc_def)

lemma br_mfd_insert_ok:
  assumes inv: "mc_inv (snd s)" and n: "n \<in> set (port_nos (snd s))"
  shows "mc_inv (snd (br_mfd_insert jiffies n g type skb s))"
    and "mfd_join jiffies type n g (mfd (snd s)) = Some (mfd (snd (br_mfd_insert jiffies n g type skb s)))
      \<or> mem (snd s) \<noteq> [] \<and> mfd_ports (mfd (snd (br_mfd_insert jiffies n g type skb s))) = mfd_ports (mfd (snd s))"
proof -
  obtain L where "chain_ok (mfd_hash (mfd (snd s))) (ent_addrs (mfd (snd s)))" by (rule mfd_okE [OF mc_invD(3) [OF inv]])
  then have "mc_inv (snd (br_mfd_insert jiffies n g type skb s)) \<and>
    (mfd_join jiffies type n g (mfd (snd s)) = Some (mfd (snd (br_mfd_insert jiffies n g type skb s)))
     \<or> mem (snd s) \<noteq> [] \<and> mfd_ports (mfd (snd (br_mfd_insert jiffies n g type skb s))) = mfd_ports (mfd (snd s)))"
  proof (cases rule: br_mfd_get_cases [where g = g])
    case (hit f e)
    then show ?thesis
      using mfd_insert_port_linked [OF inv hit(1) n, of jiffies type skb] by (auto simp add: br_mfd_insert_def mfd_join_def)
  next
    case miss
    define br where "br = snd (alloc (snd s))"
    have k: "keeps (snd s) br" unfolding br_def by (rule keeps_plain)
    obtain f t where t: "new_group g (mfd br) = (f, t)" by (cases "new_group g (mfd br)")
    have inv': "mc_inv (snd (fst s, br))" using mc_inv_keeps [OF inv k] by simp
    have n': "n \<in> set (port_nos (snd (fst s, br)))" using n keeps_port_nos [OF k] by simp
    have m': "br_mfd_get (mfd (snd (fst s, br))) g = Some None" using miss(2) keeps_mfd [OF k] by simp
    have t': "new_group g (mfd (snd (fst s, br))) = (f, t)" using t by simp
    note I = mfd_insert_port_new [OF inv' n' m' t', of jiffies type skb]
    have "br_mfd_insert jiffies n g type skb s = (if fst (alloc (snd s))
        then on_bridge (\<lambda>br. br\<lparr>mfd := mfd_hash_link f (br_addr_hash g) (mfd br)\<rparr>)
          (mfd_insert_port jiffies f n type skb (fst s, br\<lparr>mfd := t\<rparr>)) else (fst s, br))"
      using miss(2) t by (simp add: br_mfd_insert_def br_def case_prod_beta)
    then show ?thesis
      using I inv' alloc_mem [of "snd s"] keeps_mfd [OF k] by (auto simp: br_def)
  qed
  then show "mc_inv (snd (br_mfd_insert jiffies n g type skb s))"
    "mfd_join jiffies type n g (mfd (snd s)) = Some (mfd (snd (br_mfd_insert jiffies n g type skb s)))
      \<or> mem (snd s) \<noteq> [] \<and> mfd_ports (mfd (snd (br_mfd_insert jiffies n g type skb s))) = mfd_ports (mfd (snd s))"
    by auto
qed

section \<open>Leaves, queries and timers\<close>

lemma mc_inv_flood: "mc_inv (snd s) \<Longrightarrow> mc_inv (snd (br_flood jiffies c skb s))"
  by (rule mc_inv_keeps [OF _ keeps_flood]) (auto dest: mc_invD)

lemma mfd_flood: "mc_inv (snd s) \<Longrightarrow> mfd (snd (br_flood jiffies c skb s)) = mfd (snd s)"
  by (rule keeps_mfd [OF keeps_flood]) (auto dest: mc_invD)

lemma leave_report_inv:
  assumes "mc_inv (snd s)"
  shows "mc_inv (snd (on_bridge (on_mfd (br_leave_report_received jiffies n g)) s))"
    "mfd_ports (mfd (snd (on_bridge (on_mfd (br_leave_report_received jiffies n g)) s))) = mfd_ports (mfd (snd s))"
proof -
  obtain t' where t': "br_leave_report_received jiffies n g (mfd (snd s)) = Some t'" "mfd_ok t'" "mfd_ports t' = mfd_ports (mfd (snd s))"
    by (rule leave_report_ok [OF mc_invD(3) [OF assms]])
  show "mc_inv (snd (on_bridge (on_mfd (br_leave_report_received jiffies n g)) s))"
    using mc_inv_on_mfd [OF assms, of "br_leave_report_received jiffies n g"] t' by (simp add: on_bridge_def)
  show "mfd_ports (mfd (snd (on_bridge (on_mfd (br_leave_report_received jiffies n g)) s))) = mfd_ports (mfd (snd s))"
    using t' by (simp add: on_bridge_def on_mfd_def)
qed

definition same_groups :: "mfd_table \<Rightarrow> mfd_table \<Rightarrow> bool" where
  "same_groups t t' \<longleftrightarrow> mfd_ok t' \<and> mfd_ports t' = mfd_ports t \<and> node_dst t' = node_dst t
     \<and> mfd_ents t' = mfd_ents t \<and> mfd_hash t' = mfd_hash t"

lemma each_same_groups:
  assumes "mfd_ok t" and "\<And>x t'. x \<in> set xs \<Longrightarrow> same_groups t t' \<Longrightarrow> \<exists>t''. f x t' = Some t'' \<and> same_groups t' t''"
  shows "\<exists>t'. each f xs t = Some t' \<and> same_groups t t'"
proof -
  have "\<exists>t''. each f ys t' = Some t'' \<and> same_groups t t''" if "same_groups t t'" "set ys \<subseteq> set xs" for ys t'
    using that
  proof (induction ys arbitrary: t')
    case (Cons y ys)
    then obtain t1 where t1: "f y t' = Some t1" "same_groups t' t1" using assms(2) [of y t'] by auto
    then have "same_groups t t1" using Cons.prems(1) by (simp add: same_groups_def)
    with Cons t1 show ?case by simp
  qed simp
  from this [of t xs] assms(1) show ?thesis by (simp add: same_groups_def)
qed

lemma mark_group_ok:
  assumes "mfd_ok t" and "mfd_ents t f = Some e" and "\<And>g n. n \<in> set (mfd_ports t g) \<Longrightarrow> index n \<noteq> None"
  shows "\<exists>t'. mark_group index x f t = Some t' \<and> same_groups t t'"
proof -
  obtain L where L: "heap_rep t L" "chain_ok (mfd_hash t) (ent_addrs t)" by (rule mfd_okE [OF assms(1)])
  have idx: "index (pl_dst nd) \<noteq> None" if "mfd_nodes t a = Some nd" for a nd
  proof -
    from heap_rep_node(2) [OF L(1) that] obtain e where e: "mfd_ents t (pl_mfd nd) = Some e" by blast
    have "pl_dst nd \<in> set (mfd_ports t (mfd_addr e))"
      using mfd_ports_hit [OF L e] heap_rep_node(3) [OF L(1) that] that by (auto simp: node_dst_def intro!: rev_image_eqI)
    then show ?thesis by (rule assms(3))
  qed
  have "\<exists>t'. mark_walk index x (visits t) (plist e) t = Some t' \<and> mfd_ok t' \<and> mfd_ports t' = mfd_ports t
      \<and> node_dst t' = node_dst t \<and> mfd_ents t' = mfd_ents t \<and> mfd_hash t' = mfd_hash t \<and> mfd_fresh t' = mfd_fresh t"
    by (rule mark_walk_ok [OF assms(1) heap_repD(2) [OF L(1) assms(2)] heap_rep_visits [OF L(1) assms(2)]]) (rule idx)
  then show ?thesis using assms(2) by (auto simp: mark_group_def same_groups_def)
qed

lemma dont_forward_report_ok:
  assumes "mfd_ok t" and "\<And>g n. n \<in> set (mfd_ports t g) \<Longrightarrow> index n \<noteq> None"
  shows "\<exists>t'. br_dont_forward_report index g x t = Some t' \<and> same_groups t t'"
proof -
  obtain L where chain: "chain_ok (mfd_hash t) (ent_addrs t)" by (rule mfd_okE [OF assms(1)])
  have grp: "\<exists>t''. mark_group index x f t' = Some t'' \<and> same_groups t' t''"
    if "same_groups t t'" "f \<in> set (mfd_hash t i)" for f t' i
  proof -
    have "mfd_ents t' f \<noteq> None"
      using that(1) chain_ok_ents [OF chain that(2)] by (simp add: same_groups_def ent_addrs_def)
    then obtain e where "mfd_ents t' f = Some e" by auto
    then show ?thesis using that(1) assms(2) by (intro mark_group_ok) (auto simp: same_groups_def)
  qed
  have bucket: "\<exists>t''. each (mark_group index x) (mfd_hash t' i) t' = Some t'' \<and> same_groups t' t''"
    if "same_groups t t'" for t' i
  proof (rule each_same_groups)
    show "mfd_ok t'" using that by (simp add: same_groups_def)
    fix f t1 assume "f \<in> set (mfd_hash t' i)" "same_groups t' t1"
    then show "\<exists>t''. mark_group index x f t1 = Some t'' \<and> same_groups t1 t''"
      using that by (intro grp) (auto simp: same_groups_def)
  qed
  show ?thesis
  proof (cases "g = 0")
    case True
    then show ?thesis using each_same_groups [OF assms(1), of "[0..<BR_HASH_SIZE]"] bucket by (simp add: br_dont_forward_report_def)
  next
    case False
    from chain show ?thesis
    proof (cases rule: br_mfd_get_cases [where g = g])
      case miss
      then show ?thesis using False assms(1) by (simp add: br_dont_forward_report_def same_groups_def)
    next
      case (hit f e)
      then show ?thesis using False mark_group_ok [OF assms(1) hit(1) assms(2)] by (simp add: br_dont_forward_report_def)
    qed
  qed
qed

lemma mc_query_ok:
  assumes "mc_inv (snd s)"
  shows "mc_inv (snd (mc_query g x s))" "mfd_ports (mfd (snd (mc_query g x s))) = mfd_ports (mfd (snd s))"
proof -
  have idx: "port_index (snd s) n \<noteq> None" if "n \<in> set (mfd_ports (mfd (snd s)) h)" for h n
    using that mc_invD(4) [OF assms, of h] br_get_port_None_iff [of "snd s" n] by (auto simp: port_index_def)
  have "\<exists>t'. br_dont_forward_report (port_index (snd s)) g x (mfd (snd s)) = Some t' \<and> same_groups (mfd (snd s)) t'"
    by (rule dont_forward_report_ok [OF mc_invD(3) [OF assms]]) (rule idx)
  then obtain t' where t': "br_dont_forward_report (port_index (snd s)) g x (mfd (snd s)) = Some t'"
    "same_groups (mfd (snd s)) t'" by blast
  show "mc_inv (snd (mc_query g x s))"
    using mc_inv_on_mfd [of "snd s" "br_dont_forward_report (port_index (snd s)) g x" t', OF assms t'(1)] t'(2) by (simp add: mc_query_def on_bridge_def same_groups_def)
  show "mfd_ports (mfd (snd (mc_query g x s))) = mfd_ports (mfd (snd s))"
    using t' by (simp add: mc_query_def on_bridge_def on_mfd_def same_groups_def)
qed

lemma membership_timer_inv:
  assumes "mc_inv (snd s)" and "mc_timers (mfd (snd s)) a \<noteq> None"
  obtains nd e where "mc_inv (snd (on_bridge (on_mfd (br_membership_timer_expired a)) s))"
    "mfd_nodes (mfd (snd s)) a = Some nd" "mfd_ents (mfd (snd s)) (pl_mfd nd) = Some e"
    "mfd_ports (mfd (snd (on_bridge (on_mfd (br_membership_timer_expired a)) s))) =
       (mfd_ports (mfd (snd s)))(mfd_addr e := removeAll (pl_dst nd) (mfd_ports (mfd (snd s)) (mfd_addr e)))"
proof -
  have a: "a \<in> dom (mc_timers (mfd (snd s)))" using assms(2) by auto
  obtain t' nd e where t': "br_membership_timer_expired a (mfd (snd s)) = Some t'" "mfd_ok t'" "mfd_nodes (mfd (snd s)) a = Some nd"
    "mfd_ents (mfd (snd s)) (pl_mfd nd) = Some e"
    "mfd_ports t' = (mfd_ports (mfd (snd s)))(mfd_addr e := removeAll (pl_dst nd) (mfd_ports (mfd (snd s)) (mfd_addr e)))"
    by (rule membership_timer_ok [OF mc_invD(3) [OF assms(1)], of a]) (use assms(2) a in auto)
  have "mc_inv (on_mfd (br_membership_timer_expired a) (snd s))"
    by (rule mc_inv_on_mfd [of "snd s" "br_membership_timer_expired a" t', OF assms(1) t'(1,2)]) (auto simp: t'(5))
  then show ?thesis using that t' by (simp add: on_bridge_def on_mfd_def)
qed

section \<open>Data\<close>

lemma keeps_mc_send_walk:
  assumes "mc_inv (snd s)" and "path (mfd_nodes (mfd (snd s))) (Some a) as" and "length as < k"
  shows "keeps (snd s) (snd (snd (mc_send_walk jiffies k a skb s)))"
  using assms
proof (induction as arbitrary: a k s)
  case (Cons b as)
  obtain nd where nd: "mfd_nodes (mfd (snd s)) a = Some nd" and as: "path (mfd_nodes (mfd (snd s))) (pl_next nd) as"
    using Cons.prems(2) by (simp add: path_Some) blast
  obtain k' where k: "k = Suc k'" using Cons.prems(3) by (cases k) simp_all
  have "br_get_port (snd s) (pl_dst nd) \<noteq> None"
    using member_is_port [OF Cons.prems(1) nd] by (simp only: br_get_port_None_iff not_not)
  then obtain p where p: "br_get_port (snd s) (pl_dst nd) = Some p" by auto
  show ?case
  proof (cases "pl_next nd")
    case None
    with k nd show ?thesis using keeps_send_frame [OF mc_invD(1,2) [OF Cons.prems(1)] p] by simp
  next
    case (Some c)
    obtain r br where r: "skb_clone skb (snd s) = (r, br)" by (cases "skb_clone skb (snd s)")
    show ?thesis
    proof (cases r)
      case None
      with k nd Some r show ?thesis using keeps_failed_copy by simp
    next
      case (Some skb2)
      let ?s = "br_send_frame jiffies (pl_dst nd) skb2 (fst s, br)"
      have 1: "keeps (snd s) (snd ?s)"
        by (rule keeps_send_copy [OF mc_invD(1,2) [OF Cons.prems(1)]]) (use p r Some in auto)
      have "keeps (snd ?s) (snd (snd (mc_send_walk jiffies k' c skb ?s)))"
        by (rule Cons.IH [OF mc_inv_keeps [OF Cons.prems(1) 1]])
          (use as \<open>pl_next nd = Some c\<close> Cons.prems(3) k in \<open>simp_all add: keeps_mfd [OF 1]\<close>)
      from keeps_trans [OF 1 this] show ?thesis using k nd Some \<open>pl_next nd = Some c\<close> r by simp
    qed
  qed
qed simp

lemma keeps_mc_copy_walk:
  assumes "mc_inv (snd s)" and "path (mfd_nodes (mfd (snd s))) q as" and "length as < k"
  shows "keeps (snd s) (snd (snd (mc_copy_walk jiffies k q skb s)))"
  using assms
proof (induction as arbitrary: q k s)
  case Nil
  then show ?case by (cases k) (auto intro: keeps_refl)
next
  case (Cons a as)
  obtain nd where nd: "mfd_nodes (mfd (snd s)) a = Some nd" and as: "q = Some a" "path (mfd_nodes (mfd (snd s))) (pl_next nd) as"
    using Cons.prems(2) by auto
  obtain k' where k: "k = Suc k'" using Cons.prems(3) by (cases k) simp_all
  have port: "br_get_port (snd s) (pl_dst nd) \<noteq> None"
    using member_is_port [OF Cons.prems(1) nd] by (simp only: br_get_port_None_iff not_not)
  obtain r br where r: "skb_clone skb (snd s) = (r, br)" by (cases "skb_clone skb (snd s)")
  show ?case
  proof (cases r)
    case None
    with k nd as r show ?thesis using keeps_failed_copy by simp
  next
    case (Some skb2)
    let ?s = "br_send_frame jiffies (pl_dst nd) skb2 (fst s, br)"
    have 1: "keeps (snd s) (snd ?s)"
      by (rule keeps_send_copy [OF mc_invD(1,2) [OF Cons.prems(1)] port]) (use r Some in simp)
    have "keeps (snd ?s) (snd (snd (mc_copy_walk jiffies k' (pl_next nd) skb ?s)))"
      by (rule Cons.IH [OF mc_inv_keeps [OF Cons.prems(1) 1]])
        (use as Cons.prems(3) k in \<open>simp_all add: keeps_mfd [OF 1]\<close>)
    from keeps_trans [OF 1 this] show ?thesis using k nd as r Some by simp
  qed
qed

text \<open>The list that data for a group is sent to.\<close>

lemma group_plist_ok:
  assumes "mfd_ok t"
  obtains q as where "group_plist t g = Some q" "path (mfd_nodes t) q as" "length as < visits t" "map (node_dst t) as = mfd_ports t g"
proof -
  obtain L where L: "heap_rep t L" "chain_ok (mfd_hash t) (ent_addrs t)" by (rule mfd_okE [OF assms])
  from L(2) show ?thesis
  proof (cases rule: br_mfd_get_cases [where g = g])
    case miss
    show ?thesis
      by (rule that [of None "[]"]) (use miss mfd_ports_miss [OF L(2) miss(1)] in \<open>simp_all add: group_plist_def visits_def\<close>)
  next
    case (hit f e)
    show ?thesis
      by (rule that [of "plist e" "L f"])
        (use hit heap_repD(2) [OF L(1) hit(1)] heap_rep_visits [OF L(1) hit(1)] mfd_ports_hit [OF L hit(1)]
          in \<open>simp_all add: group_plist_def\<close>)
  qed
qed

section \<open>Every handler keeps the invariant\<close>

definition IGMP_reports :: "u8 set" where
  "IGMP_reports = {IGMP_V1_MEMBERSHIP_REPORT, IGMP_V2_MEMBERSHIP_REPORT, IGMP_V3_MEMBERSHIP_REPORT}"

lemmas IGMP_types = IGMP_MEMBERSHIP_QUERY_def IGMP_V1_MEMBERSHIP_REPORT_def IGMP_V2_MEMBERSHIP_REPORT_def
  IGMP_V3_MEMBERSHIP_REPORT_def IGMP_LEAVE_GROUP_def

lemma IGMP_report_other: "type \<in> IGMP_reports \<Longrightarrow> type \<noteq> IGMP_LEAVE_GROUP" "type \<in> IGMP_reports \<Longrightarrow> type \<noteq> IGMP_MEMBERSHIP_QUERY"
  by (auto simp: IGMP_reports_def IGMP_types)

lemma br_mc_learn_and_flood_eq:
  "br_mc_learn_and_flood jiffies n type g skb s =
    (if type \<in> IGMP_reports then br_mfd_insert jiffies n g type skb s
     else if type = IGMP_LEAVE_GROUP then br_flood jiffies True skb (on_bridge (on_mfd (br_leave_report_received jiffies n g)) s)
     else s)"
  by (simp add: br_mc_learn_and_flood_def IGMP_reports_def)

text \<open>What one step does: the invariant stays, and the members of the groups stay.\<close>

definition quiet :: "br_sys \<Rightarrow> br_sys \<Rightarrow> bool" where
  "quiet s s' \<longleftrightarrow> (mc_inv (snd s) \<longrightarrow> mc_inv (snd s') \<and> mfd_ports (mfd (snd s')) = mfd_ports (mfd (snd s)))"

lemma quiet_trans: "quiet s s' \<Longrightarrow> quiet s' s'' \<Longrightarrow> quiet s s''"
  by (simp add: quiet_def)

lemma quiet_keeps: "(mc_inv (snd s) \<Longrightarrow> keeps (snd s) (snd s')) \<Longrightarrow> quiet s s'"
  by (metis quiet_def mc_inv_keeps keeps_mfd)

lemma quiet_steps:
  "quiet s (br_flood jiffies c skb s)" "quiet s (mc_query g x s)" "quiet s (kfree_skb skb s)"
  "quiet s (on_bridge (on_mfd (br_leave_report_received jiffies n g)) s)"
  "(mc_inv (snd s) \<Longrightarrow> group_plist (mfd (snd s)) h = Some q) \<Longrightarrow>
    quiet s (snd (mc_copy_walk jiffies (visits (mfd (snd s))) q skb s))"
proof -
  show "quiet s (br_flood jiffies c skb s)" by (rule quiet_keeps) (blast intro: keeps_flood dest: mc_invD)
  show "quiet s (mc_query g x s)" using mc_query_ok [of s g x] by (auto simp: quiet_def)
  show "quiet s (kfree_skb skb s)" by (rule quiet_keeps) (simp add: kfree_skb_def on_bridge_def keeps_plain)
  show "quiet s (on_bridge (on_mfd (br_leave_report_received jiffies n g)) s)"
    using leave_report_inv [of s jiffies n g] by (auto simp: quiet_def)
  assume q: "mc_inv (snd s) \<Longrightarrow> group_plist (mfd (snd s)) h = Some q"
  show "quiet s (snd (mc_copy_walk jiffies (visits (mfd (snd s))) q skb s))"
  proof (rule quiet_keeps)
    assume inv: "mc_inv (snd s)"
    obtain q' as where "group_plist (mfd (snd s)) h = Some q'" "path (mfd_nodes (mfd (snd s))) q' as" "length as < visits (mfd (snd s))"
      by (rule group_plist_ok [OF mc_invD(3) [OF inv], of h])
    then show "keeps (snd s) (snd (snd (mc_copy_walk jiffies (visits (mfd (snd s))) q skb s)))"
      using keeps_mc_copy_walk [OF inv] q [OF inv] by auto
  qed
qed

lemma quiet_mc_send_walk:
  assumes "mc_inv (snd s) \<Longrightarrow> group_plist (mfd (snd s)) h = Some (Some a)"
  shows "quiet s (snd (mc_send_walk jiffies (visits (mfd (snd s))) a skb s))"
proof (rule quiet_keeps)
  assume inv: "mc_inv (snd s)"
  obtain q as where "group_plist (mfd (snd s)) h = Some q" "path (mfd_nodes (mfd (snd s))) q as" "length as < visits (mfd (snd s))"
    by (rule group_plist_ok [OF mc_invD(3) [OF inv], of h])
  then show "keeps (snd s) (snd (snd (mc_send_walk jiffies (visits (mfd (snd s))) a skb s)))"
    using keeps_mc_send_walk [OF inv] assms [OF inv] by auto
qed

section \<open>The network of handlers and timers\<close>

text \<open>
  What the handlers and the timers do to the memberships: a report joins, or only tries to when memory
  may be short, an expired timer removes, and all else changes nothing.
\<close>

datatype ('n, 'g) membership_event = Joined 'n 'g | Tried 'n 'g | Expired 'n 'g | Quiet

definition heard :: "nat \<Rightarrow> sk_buff \<Rightarrow> br_sys \<Rightarrow> (nat, u32) membership_event" where
  "heard n skb s =
     (case mc_parse (skb_data skb) of
        Igmp type g \<Rightarrow> if type \<in> IGMP_reports then (if mem (snd s) = [] then Joined n g else Tried n g) else Quiet
      | _ \<Rightarrow> Quiet)"

definition expired :: "nat \<Rightarrow> br_sys \<Rightarrow> (nat, u32) membership_event" where
  "expired a s =
     (case mfd_nodes (mfd (snd s)) a of
        Some nd \<Rightarrow> (case mfd_ents (mfd (snd s)) (pl_mfd nd) of Some e \<Rightarrow> Expired (pl_dst nd) (mfd_addr e) | None \<Rightarrow> Quiet)
      | None \<Rightarrow> Quiet)"

text \<open>
  The steps: frames at the multicast handlers, timers that fire in any order, and the ordinary traffic of
  the bridge in between.
\<close>

inductive mc_step :: "br_sys \<Rightarrow> (nat, u32) membership_event \<Rightarrow> br_sys \<Rightarrow> bool" where
  input: "n \<in> set (port_nos (snd s)) \<Longrightarrow> mc_step s (heard n skb s) (snd (br_input_handle_mc jiffies n skb s))"
| handle: "n \<in> set (port_nos (snd s)) \<Longrightarrow> mc_step s (heard n skb s) (snd (br_handle_mc jiffies True n skb s))"
| own: "mc_step s Quiet (snd (br_handle_mc jiffies False n skb s))"
| forward: "mc_step s Quiet (snd (br_forward_handle_mc jiffies skb s))"
| timer: "mc_timers (mfd (snd s)) a = Some expires \<Longrightarrow>
    mc_step s (expired a s) (on_bridge (on_mfd (br_membership_timer_expired a)) s)"
| frame: "n \<in> set (port_nos (snd s)) \<Longrightarrow> mc_step s Quiet (handle_frame jiffies n skb s)"
| xmit: "mc_step s Quiet (br_dev_xmit jiffies skb s)"

definition mc_members :: "br_sys \<Rightarrow> u32 \<Rightarrow> nat set" where
  "mc_members s g = set (mfd_ports (mfd (snd s)) g)"

definition membership_change :: "('n, 'g) membership_event \<Rightarrow> ('g \<Rightarrow> 'n set) \<Rightarrow> ('g \<Rightarrow> 'n set) \<Rightarrow> bool" where
  "membership_change l M M' \<longleftrightarrow>
     (case l of
        Joined n g \<Rightarrow> M' = M(g := insert n (M g))
      | Tried n g \<Rightarrow> M' = M(g := insert n (M g)) \<or> M' = M
      | Expired n g \<Rightarrow> M' = M(g := M g - {n})
      | Quiet \<Rightarrow> M' = M)"

lemma quiet_change: "quiet s s' \<Longrightarrow> mc_inv (snd s) \<Longrightarrow> mc_inv (snd s') \<and> membership_change Quiet (mc_members s) (mc_members s')"
  by (auto simp: quiet_def membership_change_def mc_members_def fun_eq_iff)

lemma report_change:
  assumes "mc_inv (snd s)" and "n \<in> set (port_nos (snd s))"
  shows "mc_inv (snd (br_mfd_insert jiffies n g type skb s)) \<and>
    membership_change (if mem (snd s) = [] then Joined n g else Tried n g) (mc_members s)
      (mc_members (br_mfd_insert jiffies n g type skb s))"
proof -
  obtain t' where t': "mfd_join jiffies type n g (mfd (snd s)) = Some t'"
      "mfd_ports t' = (mfd_ports (mfd (snd s)))(g := joined n (mfd_ports (mfd (snd s)) g))"
    by (rule mfd_join_ok [OF mc_invD(3) [OF assms(1)]])
  have "set (joined n ns) = insert n (set ns)" for ns by (auto simp: joined_def)
  with br_mfd_insert_ok [OF assms, where jiffies = jiffies and g = g and type = type and skb = skb] t' show ?thesis
    by (auto simp: membership_change_def mc_members_def fun_eq_iff)
qed

lemma quiet_kfree_after: "quiet s s' \<Longrightarrow> quiet s (kfree_skb skb s')"
  by (rule quiet_trans [OF _ quiet_steps(3)])

lemma quiet_flood_after: "quiet s s' \<Longrightarrow> quiet s (br_flood jiffies c skb s')"
  by (rule quiet_trans [OF _ quiet_steps(1)])

lemmas quiet_intros = quiet_flood_after quiet_kfree_after quiet_steps quiet_mc_send_walk

lemma handle_report:
  assumes "mc_parse (skb_data skb) = Igmp type g" and "type \<in> IGMP_reports"
  shows "br_input_handle_mc jiffies n skb s = (0, br_mfd_insert jiffies n g type skb s)"
    "br_handle_mc jiffies True n skb s = (0, kfree_skb skb (br_mfd_insert jiffies n g type skb s))"
    "heard n skb s = (if mem (snd s) = [] then Joined n g else Tried n g)"
proof -
  have "type \<in> {IGMP_V1_MEMBERSHIP_REPORT, IGMP_V2_MEMBERSHIP_REPORT, IGMP_V3_MEMBERSHIP_REPORT, IGMP_LEAVE_GROUP}"
    using assms(2) by (auto simp: IGMP_reports_def)
  with assms show "br_input_handle_mc jiffies n skb s = (0, br_mfd_insert jiffies n g type skb s)"
    "br_handle_mc jiffies True n skb s = (0, kfree_skb skb (br_mfd_insert jiffies n g type skb s))"
    "heard n skb s = (if mem (snd s) = [] then Joined n g else Tried n g)"
    by (simp_all only: br_input_handle_mc_def br_handle_mc_def heard_def br_mc_learn_and_flood_eq mc_packet.case if_True)
qed

lemma br_input_handle_mc_change:
  assumes "mc_inv (snd s)" and "n \<in> set (port_nos (snd s))"
  shows "mc_inv (snd (snd (br_input_handle_mc jiffies n skb s))) \<and>
    membership_change (heard n skb s) (mc_members s) (mc_members (snd (br_input_handle_mc jiffies n skb s)))"
proof (cases "mc_parse (skb_data skb)")
  case Not_ip
  then show ?thesis using quiet_change [OF quiet_steps(1) assms(1)] by (simp add: br_input_handle_mc_def heard_def)
next
  case (Igmp type g)
  show ?thesis
  proof (cases "type \<in> IGMP_reports")
    case True
    from report_change [OF assms] show ?thesis by (simp only: handle_report [OF Igmp True] snd_conv)
  next
    case False
    have "quiet s (snd (br_input_handle_mc jiffies n skb s))"
      using Igmp False by (simp add: br_input_handle_mc_def br_mc_learn_and_flood_eq quiet_intros IGMP_reports_def)
    from quiet_change [OF this assms(1)] show ?thesis using Igmp False by (simp add: heard_def)
  qed
next
  case (Mc_data g)
  obtain q where q: "group_plist (mfd (snd s)) g = Some q" by (rule group_plist_ok [OF mc_invD(3) [OF assms(1)]])
  have "quiet s (snd (br_input_handle_mc jiffies n skb s))"
    using Mc_data q quiet_steps(5) [of s g q] by (simp add: br_input_handle_mc_def)
  from quiet_change [OF this assms(1)] show ?thesis using Mc_data by (simp add: heard_def)
qed

lemma br_handle_mc_data:
  assumes "mc_inv (snd s)" and "mc_parse (skb_data skb) = Mc_data g"
  shows "quiet s (snd (br_handle_mc jiffies input n skb s))" "quiet s (snd (br_forward_handle_mc jiffies skb s))"
proof -
  obtain q where q: "group_plist (mfd (snd s)) g = Some q" by (rule group_plist_ok [OF mc_invD(3) [OF assms(1)]])
  have w: "quiet s (snd (mc_send_walk jiffies (visits (mfd (snd s))) a skb s))" if "q = Some a" for a
    by (rule quiet_mc_send_walk) (use that q in simp)
  show "quiet s (snd (br_handle_mc jiffies input n skb s))"
    using assms(2) q w by (cases q) (simp_all add: br_handle_mc_def quiet_steps(3))
  show "quiet s (snd (br_forward_handle_mc jiffies skb s))"
    using assms(2) q w quiet_kfree_after [OF w]
    by (cases q) (simp_all add: br_forward_handle_mc_def quiet_steps(3) case_prod_beta)
qed

lemma br_handle_mc_change:
  assumes "mc_inv (snd s)" and "n \<in> set (port_nos (snd s))"
  shows "mc_inv (snd (snd (br_handle_mc jiffies True n skb s))) \<and>
    membership_change (heard n skb s) (mc_members s) (mc_members (snd (br_handle_mc jiffies True n skb s)))"
proof (cases "mc_parse (skb_data skb)")
  case Not_ip
  then show ?thesis using quiet_change [OF quiet_steps(1) assms(1)] by (simp add: br_handle_mc_def heard_def)
next
  case (Igmp type g)
  show ?thesis
  proof (cases "type \<in> IGMP_reports")
    case True
    let ?s = "br_mfd_insert jiffies n g type skb s"
    have "mc_inv (snd (kfree_skb skb ?s)) \<and> membership_change Quiet (mc_members ?s) (mc_members (kfree_skb skb ?s))"
      using quiet_change [OF quiet_steps(3)] report_change [OF assms] by blast
    then have "mc_members (kfree_skb skb ?s) = mc_members ?s" "mc_inv (snd (kfree_skb skb ?s))"
      by (simp_all add: membership_change_def)
    with report_change [OF assms, of jiffies g type skb] show ?thesis by (simp only: handle_report [OF Igmp True] snd_conv simp_thms)
  next
    case False
    have "quiet s (snd (br_handle_mc jiffies True n skb s))"
      using Igmp False IGMP_report_other by (simp add: br_handle_mc_def br_mc_learn_and_flood_eq quiet_intros IGMP_reports_def IGMP_types)
    from quiet_change [OF this assms(1)] show ?thesis using Igmp False by (simp add: heard_def)
  qed
next
  case (Mc_data g)
  from quiet_change [OF br_handle_mc_data(1) [OF assms(1) Mc_data] assms(1)] show ?thesis using Mc_data by (simp add: heard_def)
qed

lemma quiet_own:
  assumes "mc_inv (snd s)"
  shows "quiet s (snd (br_handle_mc jiffies False n skb s))" "quiet s (snd (br_forward_handle_mc jiffies skb s))"
proof -
  show "quiet s (snd (br_handle_mc jiffies False n skb s))"
  proof (cases "mc_parse (skb_data skb)")
    case (Mc_data g)
    then show ?thesis by (rule br_handle_mc_data [OF assms])
  qed (simp_all add: br_handle_mc_def quiet_intros)
  show "quiet s (snd (br_forward_handle_mc jiffies skb s))"
  proof (cases "mc_parse (skb_data skb)")
    case (Mc_data g)
    then show ?thesis by (rule br_handle_mc_data [OF assms])
  qed (simp_all add: br_forward_handle_mc_def quiet_intros)
qed

lemma quiet_traffic:
  assumes "mc_inv (snd s)"
  shows "n \<in> set (port_nos (snd s)) \<Longrightarrow> quiet s (handle_frame jiffies n skb s)" "quiet s (br_dev_xmit jiffies skb s)"
proof -
  show "quiet s (br_dev_xmit jiffies skb s)"
    by (rule quiet_keeps) (blast intro: keeps_dev_xmit dest: mc_invD)
  assume n: "n \<in> set (port_nos (snd s))"
  then obtain p where p: "br_get_port (snd s) n = Some p" using br_get_port_ex_iff [of "snd s" n] by blast
  let ?b = "learn_source jiffies n skb (snd s)"
  have m: "mfd ?b = mfd (snd s)"
    by (simp add: learn_source_def br_fdb_insert_frame split: option.split)
  have "mc_inv ?b"
    using assms n learn_source_fdb(1,2) [of "snd s"] by (simp add: mc_inv_def m learn_source_derived learn_source_frame)
  with keeps_handle_frame [OF mc_invD(1,2) [OF assms] p, of jiffies skb] show "quiet s (handle_frame jiffies n skb s)"
    using m by (metis quiet_def mc_inv_keeps keeps_mfd)
qed

lemma timer_change:
  assumes "mc_inv (snd s)" and "mc_timers (mfd (snd s)) a = Some x"
  shows "mc_inv (snd (on_bridge (on_mfd (br_membership_timer_expired a)) s)) \<and>
    membership_change (expired a s) (mc_members s) (mc_members (on_bridge (on_mfd (br_membership_timer_expired a)) s))"
proof -
  obtain nd e where "mc_inv (snd (on_bridge (on_mfd (br_membership_timer_expired a)) s))"
    "mfd_nodes (mfd (snd s)) a = Some nd" "mfd_ents (mfd (snd s)) (pl_mfd nd) = Some e"
    "mfd_ports (mfd (snd (on_bridge (on_mfd (br_membership_timer_expired a)) s))) =
       (mfd_ports (mfd (snd s)))(mfd_addr e := removeAll (pl_dst nd) (mfd_ports (mfd (snd s)) (mfd_addr e)))"
    by (rule membership_timer_inv [OF assms(1), of a]) (use assms(2) in simp)
  then show ?thesis by (auto simp: expired_def membership_change_def mc_members_def fun_eq_iff)
qed

lemma mc_step_change:
  assumes "mc_step s l s'" and "mc_inv (snd s)"
  shows "mc_inv (snd s') \<and> membership_change l (mc_members s) (mc_members s')"
  using assms
proof cases
  case (input n skb jiffies)
  then show ?thesis using br_input_handle_mc_change assms(2) by simp
next
  case (handle n skb jiffies)
  then show ?thesis using br_handle_mc_change assms(2) by simp
next
  case (timer a x)
  then show ?thesis using timer_change assms(2) by simp
qed (use quiet_change [OF quiet_own(1)] quiet_change [OF quiet_own(2)] quiet_change [OF quiet_traffic(1)]
      quiet_change [OF quiet_traffic(2)] assms(2) in blast)+

end
