(* ===== verification/Br_Mfd_Props.thy ===== *)
theory Br_Mfd_Props
  imports Br_Mfd_Inv Br_Forward_Props
begin

text \<open>
  Properties of the multicast handlers: the table of groups over any sequence of frames and timers, the
  members as a function of the reports heard, where data goes, and two defects of the code.
\<close>

section \<open>A registry of members\<close>

text \<open>A run of a labelled step relation, with its labels in order.\<close>

inductive runs :: "('s \<Rightarrow> 'l \<Rightarrow> 's \<Rightarrow> bool) \<Rightarrow> 's \<Rightarrow> 'l list \<Rightarrow> 's \<Rightarrow> bool" for step where
  start: "runs step s [] s"
| extend: "runs step s ls s' \<Longrightarrow> step s' l s'' \<Longrightarrow> runs step s (ls @ [l]) s''"

inductive_cases runs_snocE: "runs step s (ls @ [l]) s'"
inductive_simps runs_Nil [simp]: "runs step s [] s'"

text \<open>The last that was heard of \<open>n\<close> in \<open>g\<close>: a report or an expiry, or nothing.\<close>

definition last_word :: "'n \<Rightarrow> 'g \<Rightarrow> ('n, 'g) membership_event list \<Rightarrow> bool option" where
  "last_word n g ls = map_option (\<lambda>l. l = Joined n g) (find (\<lambda>l. l \<in> {Joined n g, Expired n g}) (rev ls))"

lemma last_word_simps [simp]:
  "last_word n g [] = None"
  "last_word n g (ls @ [l]) = (if l = Joined n g then Some True else if l = Expired n g then Some False else last_word n g ls)"
  by (simp_all add: last_word_def)

locale member_registry =
  fixes ok :: "'s \<Rightarrow> bool"
    and members :: "'s \<Rightarrow> 'g \<Rightarrow> 'n set"
    and step :: "'s \<Rightarrow> ('n, 'g) membership_event \<Rightarrow> 's \<Rightarrow> bool"
  assumes ok_step: "ok s \<Longrightarrow> step s l s' \<Longrightarrow> ok s'"
    and members_step: "ok s \<Longrightarrow> step s l s' \<Longrightarrow> membership_change l (members s) (members s')"
begin

lemma ok_runs: "runs step s ls s' \<Longrightarrow> ok s \<Longrightarrow> ok s'"
  by (induction rule: runs.induct) (auto intro: ok_step)

lemma member_runs:
  assumes "runs step s ls s'" and "ok s" and "Tried n g \<notin> set ls"
  shows "n \<in> members s' g \<longleftrightarrow> (case last_word n g ls of None \<Rightarrow> n \<in> members s g | Some b \<Rightarrow> b)"
  using assms
proof (induction rule: runs.induct)
  case (extend s ls s' l s'')
  have "membership_change l (members s') (members s'')"
    using members_step ok_runs [OF extend.hyps(1)] extend by blast
  then show ?case
    using extend by (cases l) (auto simp: membership_change_def fun_eq_iff split: if_splits)
qed simp

end

interpretation mc: member_registry "\<lambda>s. mc_inv (snd s)" mc_members mc_step
  by unfold_locales (use mc_step_change in blast)+

section \<open>Reports, queries and timers in any order\<close>

text \<open>A bridge on which no group has been heard of yet.\<close>

lemma mfd_ok_empty: "mfd_ok empty_mfd" "mfd_ports empty_mfd g = []"
  by (simp_all add: mfd_ok_def heap_rep_def chain_ok_def ent_addrs_def mfd_ports_def br_mfd_get_def dom_def)

lemma mc_inv_empty: "fdb_hashed br \<Longrightarrow> fdb_ports br \<Longrightarrow> mfd br = empty_mfd \<Longrightarrow> \<not> oopsed br \<Longrightarrow> mc_inv br"
  by (simp add: mc_inv_def mfd_ok_empty)

text \<open>C23: Whatever multicast frames arrive on the ports or leave from the bridge itself, with ordinary
  traffic and expiring membership timers in between and memory failing anywhere, the table of groups stays
  well-formed, its members are ports of the bridge, and no bad pointer is followed.\<close>

theorem groups_stay_well_formed:
  assumes "runs mc_step s ls s'" and "fdb_hashed (snd s)" and "fdb_ports (snd s)" and "mfd (snd s) = empty_mfd"
    and "\<not> oopsed (snd s)"
  shows "mfd_ok (mfd (snd s')) \<and> mc_members s' g \<subseteq> set (port_nos (snd s')) \<and> \<not> oopsed (snd s')"
proof -
  have "mc_inv (snd s')" by (rule mc.ok_runs [OF assms(1) mc_inv_empty [OF assms(2-)]])
  from mc_invD(3,5) [OF this] mc_invD(4) [OF this, of g] show ?thesis by (simp add: mc_members_def)
qed

text \<open>C24: The members of a group are the ports from which the last that was heard of the group is a report and
  not the expiry of a timer, when memory does not run out.\<close>

theorem member_iff_last_heard:
  assumes "runs mc_step s ls s'" and "fdb_hashed (snd s)" and "fdb_ports (snd s)" and "mfd (snd s) = empty_mfd"
    and "\<not> oopsed (snd s)" and "Tried n g \<notin> set ls"
  shows "n \<in> set (mfd_ports (mfd (snd s')) g) \<longleftrightarrow> last_word n g ls = Some True"
proof -
  have "n \<notin> mc_members s g" using assms(4) by (simp add: mc_members_def mfd_ok_empty)
  with mc.member_runs [OF assms(1) mc_inv_empty [OF assms(2-5)] assms(6)] show ?thesis
    by (simp add: mc_members_def split: option.splits)
qed

section \<open>Where data goes\<close>

text \<open>What becomes of the buffer \<open>i\<close> sent to port \<open>n\<close>, when no filter is set.\<close>

definition delivery :: "net_bridge_port list \<Rightarrow> sk_buff \<Rightarrow> nat \<Rightarrow> nat \<Rightarrow> out_event" where
  "delivery ps skb n i =
     (if \<exists>p\<in>set ps. port_no p = n \<and> may_receive skb p then Hard_start_xmit n i else Kfree_skb i)"

fun member_events :: "net_bridge_port list \<Rightarrow> sk_buff \<Rightarrow> nat list \<Rightarrow> nat \<Rightarrow> out_event list" where
  "member_events ps skb [] next = [Kfree_skb (skb_id skb)]"
| "member_events ps skb [n] next = [delivery ps skb n (skb_id skb)]"
| "member_events ps skb (m # n # ns) next = delivery ps skb m next # member_events ps skb (n # ns) (Suc next)"

lemma delivery_clone [simp]: "delivery ps (skb\<lparr>skb_id := i\<rparr>) = delivery ps skb"
  by (simp add: delivery_def may_receive_def fun_eq_iff)

lemma send_plain:
  assumes "distinct (port_nos (snd s))" and "n \<in> set (port_nos (snd s))" and "br_filter_root (fst s) = []"
    and "\<not> br_filter_active (snd s)"
  shows "br_send_frame jiffies n skb s = on_bridge (emit (delivery (port_list (snd s)) skb n (skb_id skb))) s"
proof -
  obtain p where p: "br_get_port (snd s) n = Some p" using assms(2) br_get_port_ex_iff [of "snd s" n] by blast
  have "(\<exists>q\<in>set (port_list (snd s)). port_no q = n \<and> may_receive skb q) \<longleftrightarrow> may_receive skb p"
    using br_get_port_in_list [OF assms(1)] br_get_port_Some [OF p] p by (metis option.inject)
  then show ?thesis
    using p assms(3,4) br_send_frame_no_filter [OF p]
    by (auto simp: delivery_def br_send_frame_def should_deliver_no_filter br_send_frame_error_def on_bridge_def)
qed

text \<open>A clone sent to port \<open>n\<close>, with memory at hand.\<close>

lemma send_clone_plain:
  assumes "distinct (port_nos (snd s))" and "n \<in> set (port_nos (snd s))" and "br_filter_root (fst s) = []"
    and "\<not> br_filter_active (snd s)" and "mem (snd s) = []"
  obtains skb2 br where "skb_clone skb (snd s) = (Some skb2, br)"
    "br_send_frame jiffies n skb2 (fst s, br) =
       (fst s, emit (delivery (port_list (snd s)) skb n (next_skb (snd s))) ((snd s)\<lparr>next_skb := Suc (next_skb (snd s))\<rparr>))"
proof
  let ?br = "(snd s)\<lparr>next_skb := Suc (next_skb (snd s))\<rparr>" and ?skb = "skb\<lparr>skb_id := next_skb (snd s)\<rparr>"
  show "skb_clone skb (snd s) = (Some ?skb, ?br)" by (simp add: skb_clone_def alloc_mem assms(5))
  have "port_nos ?br = port_nos (snd s)" by (simp add: port_nos_def)
  then show "br_send_frame jiffies n ?skb (fst s, ?br) = (fst s, emit (delivery (port_list (snd s)) skb n (next_skb (snd s))) ?br)"
    using send_plain [of "(fst s, ?br)" n jiffies ?skb] assms by (simp add: on_bridge_def)
qed

lemma mc_send_walk_events:
  assumes "path (mfd_nodes (mfd (snd s))) (Some a) as" and "length as < k" and "distinct (port_nos (snd s))"
    and "set (map (node_dst (mfd (snd s))) as) \<subseteq> set (port_nos (snd s))"
    and "br_filter_root (fst s) = []" and "\<not> br_filter_active (snd s)" and "mem (snd s) = []"
  shows "fst (mc_send_walk jiffies k a skb s) = 0 \<and>
    out (snd (snd (mc_send_walk jiffies k a skb s))) =
      out (snd s) @ member_events (port_list (snd s)) skb (map (node_dst (mfd (snd s))) as) (next_skb (snd s))"
  using assms
proof (induction as arbitrary: a k s)
  case (Cons b as)
  obtain nd where nd: "mfd_nodes (mfd (snd s)) a = Some nd" and as: "path (mfd_nodes (mfd (snd s))) (pl_next nd) as"
    using Cons.prems(1) by (simp add: path_Some) blast
  have ba: "b = a" using Cons.prems(1) by simp
  obtain k' where k: "k = Suc k'" using Cons.prems(2) by (cases k) simp_all
  have dst: "node_dst (mfd (snd s)) a = pl_dst nd" using nd by (simp add: node_dst_def)
  have n: "pl_dst nd \<in> set (port_nos (snd s))" using Cons.prems(4) ba dst by simp
  note plain = Cons.prems(3) n Cons.prems(5,6)
  show ?case
  proof (cases "pl_next nd")
    case None
    with as have "as = []" by simp
    with None k nd dst ba send_plain [OF plain] show ?thesis by (simp add: on_bridge_def)
  next
    case (Some c)
    then obtain ds where ds: "as = c # ds" using as by (auto simp: path_Some)
    let ?b = "emit (delivery (port_list (snd s)) skb (pl_dst nd) (next_skb (snd s))) ((snd s)\<lparr>next_skb := Suc (next_skb (snd s))\<rparr>)"
    have b: "mfd ?b = mfd (snd s)" "port_list ?b = port_list (snd s)" "port_nos ?b = port_nos (snd s)" "mem ?b = mem (snd s)"
      "br_filter_active ?b = br_filter_active (snd s)" "next_skb ?b = Suc (next_skb (snd s))"
      "out ?b = out (snd s) @ [delivery (port_list (snd s)) skb (pl_dst nd) (next_skb (snd s))]"
      by (simp_all add: emit_def port_nos_def)
    obtain skb2 br where r: "skb_clone skb (snd s) = (Some skb2, br)" "br_send_frame jiffies (pl_dst nd) skb2 (fst s, br) = (fst s, ?b)"
      by (rule send_clone_plain [OF plain Cons.prems(7)])
    have "fst (mc_send_walk jiffies k' c skb (fst s, ?b)) = 0 \<and> out (snd (snd (mc_send_walk jiffies k' c skb (fst s, ?b)))) =
        out ?b @ member_events (port_list ?b) skb (map (node_dst (mfd ?b)) as) (next_skb ?b)"
      using Cons.IH [of "(fst s, ?b)" c k'] Cons.prems as Some k by (simp add: b)
    then show ?thesis
      using k nd Some r dst ba ds by (simp add: b)
  qed
qed simp

lemma mc_data_walk:
  assumes "mc_inv (snd s)" and "distinct (port_nos (snd s))" and "br_filter_root (fst s) = []"
    and "\<not> br_filter_active (snd s)" and "mem (snd s) = []"
  obtains (none) "group_plist (mfd (snd s)) g = Some None" "mfd_ports (mfd (snd s)) g = []"
  | (some) a br where "group_plist (mfd (snd s)) g = Some (Some a)" "mfd_ports (mfd (snd s)) g \<noteq> []"
      "\<exists>s'. mc_send_walk jiffies (visits (mfd (snd s))) a skb s = (0, s') \<and> snd s' = br"
      "out br = out (snd s) @ member_events (port_list (snd s)) skb (mfd_ports (mfd (snd s)) g) (next_skb (snd s))"
proof -
  obtain q as where q: "group_plist (mfd (snd s)) g = Some q" "path (mfd_nodes (mfd (snd s))) q as"
      "length as < visits (mfd (snd s))" "map (node_dst (mfd (snd s))) as = mfd_ports (mfd (snd s)) g"
    by (rule group_plist_ok [OF mc_invD(3) [OF assms(1)]])
  show ?thesis
  proof (cases q)
    case None
    with q have "as = []" by simp
    with q None none show ?thesis by simp
  next
    case (Some a)
    with q(2) have ne: "as \<noteq> []" by auto
    have sub: "set (map (node_dst (mfd (snd s))) as) \<subseteq> set (port_nos (snd s))"
      unfolding q(4) by (rule mc_invD(4) [OF assms(1)])
    have p: "path (mfd_nodes (mfd (snd s))) (Some a) as" using q(2) Some by simp
    obtain r s' where w: "mc_send_walk jiffies (visits (mfd (snd s))) a skb s = (r, s')"
      by (cases "mc_send_walk jiffies (visits (mfd (snd s))) a skb s")
    from mc_send_walk_events [OF p q(3) assms(2) sub assms(3-5), of jiffies skb] w
    have "r = 0" "out (snd s') = out (snd s) @ member_events (port_list (snd s)) skb (mfd_ports (mfd (snd s)) g) (next_skb (snd s))"
      by (simp_all add: q(4))
    with w q Some ne show ?thesis by (intro some [of a "snd s'"]) auto
  qed
qed


lemma handled_member_events:
  "ns \<noteq> [] \<Longrightarrow> concat (map event_skb (member_events ps skb ns k)) = [k..<k + (length ns - 1)] @ [skb_id skb]"
proof (induction ps skb ns k rule: member_events.induct)
  case (3 ps skb m n ns k)
  have "[k..<k + length (n # ns)] = k # [Suc k..<Suc k + (length (n # ns) - 1)]" by (subst upt_conv_Cons) simp_all
  with 3 show ?case by (simp add: delivery_def del: upt_Suc)
qed (simp_all add: delivery_def)

text \<open>Data that the bridge itself sends to a group with members is released twice: the last member gets the
  buffer, and then it is freed.\<close>

theorem own_data_released_twice:
  assumes "mc_inv (snd s)" and "distinct (port_nos (snd s))" and "br_filter_root (fst s) = []"
    and "\<not> br_filter_active (snd s)" and "mem (snd s) = []" and "mc_parse (skb_data skb) = Mc_data g"
    and "mfd_ports (mfd (snd s)) g \<noteq> []"
  shows "handled (snd (snd (br_forward_handle_mc jiffies skb s))) =
    handled (snd s) @ [next_skb (snd s)..<next_skb (snd s) + (length (mfd_ports (mfd (snd s)) g) - 1)] @ [skb_id skb, skb_id skb]"
proof (cases rule: mc_data_walk [OF assms(1-5), where g = g and jiffies = jiffies and skb = skb])
  case (2 a br)
  then have "handled br = handled (snd s) @
      concat (map event_skb (member_events (port_list (snd s)) skb (mfd_ports (mfd (snd s)) g) (next_skb (snd s))))"
    by (simp add: handled_def)
  with 2 show ?thesis
    using assms(6) handled_member_events [OF 2(2)]
    by (auto simp: br_forward_handle_mc_def kfree_skb_def on_bridge_def MFD_MEMORY_ERROR_def)
qed (use assms(7) in simp)

section \<open>Members go when their timers expire\<close>

text \<open>C26: Every member can go: its timer is pending, and when it expires the port is no member any more.\<close>

theorem member_can_expire:
  assumes "mc_inv (snd s)" and "n \<in> set (mfd_ports (mfd (snd s)) g)"
  shows "\<exists>s'. mc_step s (Expired n g) s' \<and> n \<notin> set (mfd_ports (mfd (snd s')) g)"
proof -
  obtain L where L: "heap_rep (mfd (snd s)) L" "chain_ok (mfd_hash (mfd (snd s))) (ent_addrs (mfd (snd s)))"
      "dom (mc_timers (mfd (snd s))) = dom (mfd_nodes (mfd (snd s)))"
    by (rule mfd_okE [OF mc_invD(3) [OF assms(1)]])
  have "\<exists>f. ent_addrs (mfd (snd s)) f = Some g"
    using assms(2) mfd_ports_miss [OF L(2), of g] by (metis empty_iff list.set(1))
  then obtain f e where e: "mfd_ents (mfd (snd s)) f = Some e" "mfd_addr e = g" by (auto simp: ent_addrs_def)
  obtain a nd where a: "mfd_nodes (mfd (snd s)) a = Some nd" "pl_dst nd = n" "pl_mfd nd = f"
    by (cases rule: find_member [OF mc_invD(3) [OF assms(1)] e(1), of n]) (use assms(2) e(2) in auto)
  from L(3) a(1) obtain x where x: "mc_timers (mfd (snd s)) a = Some x" by blast
  have l: "expired a s = Expired n g" using a e by (simp add: expired_def)
  let ?s = "on_bridge (on_mfd (br_membership_timer_expired a)) s"
  have "mc_step s (Expired n g) ?s" using mc_step.timer [OF x] l by simp
  moreover have "n \<notin> mc_members ?s g"
    using timer_change [OF assms(1) x] l by (simp add: membership_change_def)
  ultimately show ?thesis unfolding mc_members_def by blast
qed

section \<open>Where reports go\<close>

text \<open>The ports that a report for the group \<open>f\<close> is relayed to.\<close>

definition relays_to :: "net_bridge \<Rightarrow> nat \<Rightarrow> sk_buff \<Rightarrow> net_bridge_port \<Rightarrow> bool" where
  "relays_to br f skb p \<longleftrightarrow> may_receive skb p \<and> suppressed (mfd br) f (port_no p) = Some False"

definition copies_to :: "nat list \<Rightarrow> nat \<Rightarrow> out_event list" where
  "copies_to ns next = map (\<lambda>(n, i). Hard_start_xmit n i) (zip ns [next..<next + length ns])"

lemma copies_to_Cons: "copies_to (n # ns) next = Hard_start_xmit n next # copies_to ns (Suc next)"
  unfolding copies_to_def by (simp add: upt_conv_Cons del: upt_Suc)

lemma selective_walk_events:
  assumes "set ps \<subseteq> set (port_list (snd s))" and "distinct (port_nos (snd s))" and "br_filter_root (fst s) = []"
    and "\<not> br_filter_active (snd s)" and "mem (snd s) = []" and "heap_rep (mfd (snd s)) L" and "mfd_ents (mfd (snd s)) f = Some e"
  shows "out (snd (selective_walk jiffies (map port_no ps) f skb s)) =
    out (snd s) @ copies_to (map port_no (filter (relays_to (snd s) f skb) ps)) (next_skb (snd s))"
  using assms
proof (induction ps arbitrary: s)
  case Nil
  then show ?case by (simp add: copies_to_def)
next
  case (Cons p ps)
  note plain = Cons.prems(2-5)
  have p: "br_get_port (snd s) (port_no p) = Some p" using br_get_port_in_list [OF plain(1)] Cons.prems(1) by simp
  then have n: "port_no p \<in> set (port_nos (snd s))" using br_get_port_ex_iff by blast
  obtain b where b: "suppressed (mfd (snd s)) f (port_no p) = Some b" using suppressed_ok [OF Cons.prems(6,7)] by blast
  have rel: "relays_to (snd s) f skb p \<longleftrightarrow> may_receive skb p \<and> \<not> b" using b by (simp add: relays_to_def)
  have IH: "out (snd (selective_walk jiffies (map port_no ps) f skb t)) =
      out (snd t) @ copies_to (map port_no (filter (relays_to (snd s) f skb) ps)) (next_skb (snd t))"
    if t: "fst t = fst s" "port_list (snd t) = port_list (snd s)" "mfd (snd t) = mfd (snd s)" "mem (snd t) = mem (snd s)"
      "br_filter_active (snd t) = br_filter_active (snd s)" for t
  proof -
    have "relays_to (snd t) f skb = relays_to (snd s) f skb" by (simp add: relays_to_def t fun_eq_iff)
    moreover have "port_nos (snd t) = port_nos (snd s)" by (simp add: port_nos_def t)
    ultimately show ?thesis using Cons.IH [of t] Cons.prems by (simp add: t)
  qed
  show ?case
  proof (cases "relays_to (snd s) f skb p")
    case False
    then show ?thesis
      using IH [of s] p b should_deliver_no_filter [OF plain(2), of p skb] rel by (cases b) (auto simp: Let_def)
  next
    case True
    obtain skb2 br where r: "skb_clone skb (snd s) = (Some skb2, br)" "br_send_frame jiffies (port_no p) skb2 (fst s, br) =
       (fst s, emit (delivery (port_list (snd s)) skb (port_no p) (next_skb (snd s))) ((snd s)\<lparr>next_skb := Suc (next_skb (snd s))\<rparr>))"
      by (rule send_clone_plain [OF plain(1) n plain(2-4)])
    have "delivery (port_list (snd s)) skb (port_no p) i = Hard_start_xmit (port_no p) i" for i
      using True Cons.prems(1) by (auto simp: delivery_def relays_to_def)
    with r IH [of "(fst s, emit (Hard_start_xmit (port_no p) (next_skb (snd s))) ((snd s)\<lparr>next_skb := Suc (next_skb (snd s))\<rparr>))"]
    show ?thesis
      using True p b should_deliver_no_filter [OF plain(2), of p skb] rel by (auto simp: Let_def copies_to_Cons emit_def)
  qed
qed

text \<open>A report is relayed to exactly the ports that may receive the frame and are not marked for its group, a
  copy for each; the report itself stays with the caller.\<close>

theorem report_relayed_exactly:
  assumes "mc_inv (snd s)" and "distinct (port_nos (snd s))" and "br_filter_root (fst s) = []"
    and "\<not> br_filter_active (snd s)" and "mem (snd s) = []" and "mfd_ents (mfd (snd s)) f = Some e"
  shows "out (snd (br_selective_flood jiffies f skb s)) =
    out (snd s) @ copies_to (map port_no (filter (relays_to (snd s) f skb) (port_list (snd s)))) (next_skb (snd s))"
proof -
  obtain L where L: "heap_rep (mfd (snd s)) L" by (rule mfd_okE [OF mc_invD(3) [OF assms(1)]])
  show ?thesis
    using selective_walk_events [OF subset_refl assms(2-5) L assms(6)] by (simp add: br_selective_flood_def port_nos_def)
qed

section \<open>Removing a port\<close>

lemma each_cong:
  assumes "\<And>x s. I s \<Longrightarrow> F x s = G x s" and "\<And>x s s'. I s \<Longrightarrow> G x s = Some s' \<Longrightarrow> I s'" and "I s"
  shows "each F xs s = each G xs s"
  using assms(3)
proof (induction xs arbitrary: s)
  case (Cons x xs)
  then show ?case using assms(1,2) by (cases "G x s") auto
qed simp

lemma each_single: "each F [x] s = F x s"
proof -
  have "each F [] = Some" by (simp add: fun_eq_iff)
  then show ?thesis by simp
qed

lemma upd_frame:
  "upd_node a h t = Some t' \<Longrightarrow> mfd_hash t' = mfd_hash t \<and> mfd_ents t' = mfd_ents t \<and> mc_timers t' = mc_timers t"
  "upd_ent f k t = Some t' \<Longrightarrow> (\<And>e. mfd_addr (k e) = mfd_addr e) \<Longrightarrow> mfd_hash t' = mfd_hash t \<and> ent_addrs t' = ent_addrs t \<and> mc_timers t' = mc_timers t"
  by (auto simp: upd_node_def upd_ent_def ent_addrs_def fun_eq_iff split: Option.bind_splits)

lemma remove_node_frame:
  assumes "remove_node f a q prev t = Some (b, t')"
  shows "mfd_hash t' = mfd_hash t \<and> ent_addrs t' = ent_addrs t \<or> mfd_hash t' = (\<lambda>i. remove1 f (mfd_hash t i))"
proof -
  obtain t1 t2 where t1: "(case prev of Some b \<Rightarrow> upd_node b (\<lambda>nd. nd\<lparr>pl_next := q\<rparr>) t | None \<Rightarrow> upd_ent f (\<lambda>e. e\<lparr>plist := q\<rparr>) t) = Some t1"
    and t2: "upd_ent f (\<lambda>e. e\<lparr>port_count := port_count e - 1\<rparr>) (kfree_node a t1) = Some t2"
    and t': "t' = t2 \<or> t' = mfd_unlink_free f t2"
    using assms by (auto simp: remove_node_def Let_def split: Option.bind_splits if_splits)
  have "mfd_hash t1 = mfd_hash t \<and> ent_addrs t1 = ent_addrs t"
    using t1 upd_frame(1) [of _ _ t t1] upd_frame(2) [of f "\<lambda>e. e\<lparr>plist := q\<rparr>" t t1]
    by (auto simp: ent_addrs_def split: option.splits)
  moreover have "mfd_hash t2 = mfd_hash t1 \<and> ent_addrs t2 = ent_addrs t1"
    using upd_frame(2) [OF t2] by (auto simp: kfree_node_def ent_addrs_def)
  ultimately show ?thesis using t' by (auto simp: mfd_unlink_free_def)
qed

lemma delete_walk_frame:
  "delete_walk k n f p s = Some s' \<Longrightarrow>
   mfd_hash (snd s') = mfd_hash (snd s) \<and> ent_addrs (snd s') = ent_addrs (snd s)
   \<or> mfd_hash (snd s') = (\<lambda>i. remove1 f (mfd_hash (snd s) i))"
  by (induction k n f p s rule: delete_walk.induct)
    (auto dest!: remove_node_frame split: Option.bind_splits if_splits prod.splits)

text \<open>With one group only, removing the port everywhere and from that group are the same.\<close>

lemma delete_port_one_group:
  assumes "mfd_ok t" and "\<And>f. mfd_ents t f \<noteq> None \<Longrightarrow> ent_addrs t f = Some g"
  shows "br_mfd_delete_port n t = br_mfd_delete_port_from_group n g t"
proof -
  obtain L where chain: "chain_ok (mfd_hash t) (ent_addrs t)" by (rule mfd_okE [OF assms(1)])
  show ?thesis
  proof (cases "\<exists>f. mfd_ents t f \<noteq> None")
    case False
    then have "mfd_hash t i = []" for i using chain_ok_ents [OF chain, of _ i] by (auto simp: ent_addrs_def) (metis list.set_intros(1) neq_Nil_conv)
    then show ?thesis by (simp add: br_mfd_delete_port_def br_mfd_delete_port_from_group_def each_id)
  next
    case True
    then obtain f where f: "mfd_ents t f \<noteq> None" ..
    define I where "I = (\<lambda>s :: nat option \<times> mfd_table. \<forall>i. mfd_hash (snd s) i = [] \<or> mfd_hash (snd s) i = [f] \<and> ent_addrs (snd s) f = Some g)"
    have only: "f' = f" if "f' \<in> set (mfd_hash t i)" for f' i
    proof -
      have "ent_addrs t f' = Some g" using chain_ok_ents [OF chain that] assms(2) [of f'] by (auto simp: ent_addrs_def)
      then show ?thesis using assms(2) [OF f] chain by (auto simp: chain_ok_def)
    qed
    have I0: "I (None, t)"
      unfolding I_def using only assms(2) [OF f] chain
      by (auto simp: chain_ok_def) (metis distinct_length_2_or_more list.set_intros neq_Nil_conv)
    let ?F = "\<lambda>i s. each (\<lambda>f (prev, t). do { e \<leftarrow> mfd_ents t f; delete_walk (visits t) n f (plist e) (prev, t) }) (mfd_hash (snd s) i) s"
    let ?G = "\<lambda>i (prev, t). do { found \<leftarrow> find_group t g (mfd_hash t i);
                     case found of
                       None \<Rightarrow> Some (prev, t)
                     | Some f \<Rightarrow> do { e \<leftarrow> mfd_ents t f; delete_walk (visits t) n f (plist e) (prev, t) } }"
    have eq: "?F i s = ?G i s" if "I s" for i s
      using that unfolding I_def by (cases s) (auto simp: ent_addrs_def each_single simp del: each.simps(2) dest!: spec [where x = i])
    have pres: "I s'" if Is: "I s" and G: "?G i s = Some s'" for i s s'
    proof -
      obtain prev u where s: "s = (prev, u)" by (cases s)
      consider "mfd_hash u i = []" | "mfd_hash u i = [f]" "ent_addrs u f = Some g" using Is s unfolding I_def by auto
      then show ?thesis
      proof cases
        case 1
        then show ?thesis using Is G s by simp
      next
        case 2
        then obtain e :: net_bridge_mfd_entry where "delete_walk (visits u) n f (plist e) (prev, u) = Some s'"
          using G s by (auto simp: ent_addrs_def)
        note fr = delete_walk_frame [OF this]
        have "remove1 f (mfd_hash u j) = []" for j using Is [unfolded I_def, rule_format, of j] s by auto
        with fr show ?thesis using Is s unfolding I_def by auto
      qed
    qed
    have "each ?F [0..<BR_HASH_SIZE] (None, t) = each ?G [0..<BR_HASH_SIZE] (None, t)"
      by (rule each_cong [where I = I, OF eq pres I0])
    then show ?thesis by (simp only: br_mfd_delete_port_def br_mfd_delete_port_from_group_def)
  qed
qed

text \<open>Removing a port that is on the list of the only group takes it off the list but leaves its timer running, and
  when the timer expires, the handler follows the pointer to the freed node.\<close>

theorem removed_port_timer_dangles:
  assumes "mfd_ok t" and "\<And>f. mfd_ents t f \<noteq> None \<Longrightarrow> ent_addrs t f = Some g" and "n \<in> set (mfd_ports t g)"
  shows "\<exists>t' a. br_mfd_delete_port n t = Some t' \<and> mfd_ports t' = (mfd_ports t)(g := removeAll n (mfd_ports t g))
    \<and> mc_timers t' a \<noteq> None \<and> br_membership_timer_expired a t' = None"
proof -
  obtain L where L: "heap_rep t L" "chain_ok (mfd_hash t) (ent_addrs t)" "dom (mc_timers t) = dom (mfd_nodes t)"
    by (rule mfd_okE [OF assms(1)])
  have "\<exists>f. ent_addrs t f = Some g" using assms(3) mfd_ports_miss [OF L(2), of g] by (metis empty_iff list.set(1))
  then obtain f e where e: "mfd_ents t f = Some e" "mfd_addr e = g" by (auto simp: ent_addrs_def)
  obtain a nd where a: "mfd_nodes t a = Some nd" "pl_dst nd = n" "pl_mfd nd = f"
    by (cases rule: find_member [OF assms(1) e(1), of n]) (use assms(3) e(2) in auto)
  obtain t' L' where t': "br_mfd_delete_port_from_group n g t = Some t'" "mc_timers t' = mc_timers t"
    "dom (mfd_nodes t') = dom (mfd_nodes t) - Collect (member_node t n g)"
    "mfd_ports t' = (mfd_ports t)(g := removeAll n (mfd_ports t g))"
    by (rule delete_from_group_ok [OF L(1,2), of n g])
  have "member_node t n g a" using a e by (simp add: member_node_def ent_addrs_def)
  then have "mfd_nodes t' a = None" using t'(3) by auto
  then have "br_membership_timer_expired a t' = None" by (simp add: br_membership_timer_expired_def)
  moreover have "mc_timers t' a \<noteq> None" using L(3) a(1) t'(2) by auto
  ultimately show ?thesis using delete_port_one_group [OF assms(1,2), of n] t'(1,4) by auto
qed

section \<open>Concrete groups\<close>

definition demo_ip :: "u8 \<Rightarrow> u8 list \<Rightarrow> u8 list" where
  "demo_ip proto payload =
     [1, 0, 0x5e, 1, 1, 1] @ mac_bytes (demo_mac 9) @ [8, 0] @ [0x45] @ replicate 8 0 @ [proto] @ replicate 6 0 @ payload"

definition demo_igmp :: "nat \<Rightarrow> u8 list \<Rightarrow> sk_buff" where
  "demo_igmp n grp =
     \<lparr>skb_id = 7, skb_dev = n, skb_data = demo_ip IPPROTO_IGMP ([0, 0, 0, 0, IGMP_V2_MEMBERSHIP_REPORT, 0, 0, 0] @ grp),
      skb_protocol = 0, nh_saddr = 0\<rparr>"

definition demo_data :: "nat \<Rightarrow> u8 list \<Rightarrow> sk_buff" where
  "demo_data n grp = \<lparr>skb_id = 7, skb_dev = n, skb_data = demo_ip 17 (grp @ replicate 8 0), skb_protocol = 0, nh_saddr = 0\<rparr>"

definition demo_grp1 :: u32 where "demo_grp1 = 0x010101e0"
definition demo_grp2 :: u32 where "demo_grp2 = 0x010101e1"

definition demo_join :: "nat \<Rightarrow> u32 \<Rightarrow> mfd_table \<Rightarrow> mfd_table" where
  "demo_join n g t = the (mfd_join 5 IGMP_V2_MEMBERSHIP_REPORT n g t)"

definition demo_node :: "nat option \<Rightarrow> nat \<Rightarrow> nat \<Rightarrow> port_node" where
  "demo_node next f n = \<lparr>pl_next = next, pl_mfd = f, pl_dst = n, vinfo = False, dont_forward_report = False\<rparr>"

definition demo_ent :: "int \<Rightarrow> u32 \<Rightarrow> nat \<Rightarrow> net_bridge_mfd_entry" where
  "demo_ent k g a = \<lparr>port_count = k, mfd_addr = g, plist = Some a\<rparr>"

definition demo_table1 :: mfd_table where
  "demo_table1 = \<lparr>mfd_hash = (\<lambda>_. [])(85 := [0]), mfd_ents = [0 \<mapsto> demo_ent 1 demo_grp1 1],
     mfd_nodes = [1 \<mapsto> demo_node None 0 1], mc_timers = [1 \<mapsto> 35005], mfd_fresh = 2\<rparr>"

definition demo_table2 :: mfd_table where
  "demo_table2 = \<lparr>mfd_hash = (\<lambda>_. [])(85 := [0]), mfd_ents = [0 \<mapsto> demo_ent 2 demo_grp1 2],
     mfd_nodes = [1 \<mapsto> demo_node None 0 1, 2 \<mapsto> demo_node (Some 1) 0 2], mc_timers = [1 \<mapsto> 35005, 2 \<mapsto> 35005], mfd_fresh = 3\<rparr>"

definition demo_table3 :: mfd_table where
  "demo_table3 = \<lparr>mfd_hash = (\<lambda>_. [])(0 := [0], 85 := [2]),
     mfd_ents = [0 \<mapsto> demo_ent 1 demo_grp2 1, 2 \<mapsto> demo_ent 2 demo_grp1 4],
     mfd_nodes = [1 \<mapsto> demo_node None 0 2, 3 \<mapsto> demo_node None 2 2, 4 \<mapsto> demo_node (Some 3) 2 1],
     mc_timers = [1 \<mapsto> 35005, 3 \<mapsto> 35005, 4 \<mapsto> 35005], mfd_fresh = 5\<rparr>"

definition demo_mc :: "mfd_table \<Rightarrow> br_sys" where
  "demo_mc t = (demo_empty_globals, demo_switch\<lparr>mfd := t\<rparr>)"

definition demo_mc1 :: br_sys where
  "demo_mc1 = snd (br_input_handle_mc 5 1 (demo_igmp 1 [224, 1, 1, 1]) (demo_mc empty_mfd))"

definition demo_expired :: br_sys where
  "demo_expired = on_bridge (on_mfd (br_membership_timer_expired 1)) demo_mc1"

lemma demo_hash: "br_addr_hash demo_grp1 = 85" "br_addr_hash demo_grp2 = 0" "membership_expires 5 = 35005"
  "demo_grp1 \<noteq> demo_grp2" "demo_grp2 \<noteq> demo_grp1"
  by code_simp+

lemma find_node_numeral:
  "find_node (numeral k) t n None = Some None"
  "find_node (numeral k) t n (Some a) =
     do { nd \<leftarrow> mfd_nodes t a; if pl_dst nd = n then Some (Some a) else find_node (pred_numeral k) t n (pl_next nd) }"
  by (simp_all add: numeral_eq_Suc)

lemma demo_igmp_parse: "mc_parse (skb_data (demo_igmp n [224, 1, 1, 1])) = Igmp IGMP_V2_MEMBERSHIP_REPORT demo_grp1"
proof -
  have "mc_parse (demo_ip IPPROTO_IGMP ([0, 0, 0, 0, IGMP_V2_MEMBERSHIP_REPORT, 0, 0, 0] @ [224, 1, 1, 1])) =
      Igmp IGMP_V2_MEMBERSHIP_REPORT demo_grp1" by code_simp
  then show ?thesis by (simp add: demo_igmp_def)
qed

lemma demo_data_parse: "mc_parse (skb_data (demo_data 3 [224, 1, 1, 1])) = Mc_data demo_grp1"
  by code_simp

lemma demo_join_ok: "mfd_ok t \<Longrightarrow> mfd_ok (demo_join n g t) \<and> mfd_ports (demo_join n g t) = (mfd_ports t)(g := joined n (mfd_ports t g))"
  by (rule mfd_join_ok [of t 5 IGMP_V2_MEMBERSHIP_REPORT n g]) (simp_all add: demo_join_def)

lemmas demo_table_defs = demo_join_def mfd_join_def br_mfd_get_def demo_hash join_group_def new_group_def add_node_def upd_ent_def
  mc_add_timer_def mfd_hash_link_def demo_node_def demo_ent_def visits_def IGMP_types find_node_numeral

lemma demo_table1: "demo_join 1 demo_grp1 empty_mfd = demo_table1"
  by (simp add: demo_table_defs demo_table1_def empty_mfd_def fun_eq_iff)

lemma demo_table2: "demo_join 2 demo_grp1 demo_table1 = demo_table2"
  by (simp add: demo_table_defs demo_table1_def demo_table2_def fun_eq_iff)

lemma demo_table3: "demo_join 1 demo_grp1 (demo_join 2 demo_grp1 (demo_join 2 demo_grp2 empty_mfd)) = demo_table3"
  by (simp add: demo_table_defs demo_table3_def empty_mfd_def fun_eq_iff)

lemma demo_table_ok:
  "mfd_ok demo_table1 \<and> mfd_ports demo_table1 = (\<lambda>_. [])(demo_grp1 := [1])"
  "mfd_ok demo_table2 \<and> mfd_ports demo_table2 = (\<lambda>_. [])(demo_grp1 := [2, 1])"
  "mfd_ok demo_table3 \<and> mfd_ports demo_table3 = (\<lambda>_. [])(demo_grp2 := [2], demo_grp1 := [1, 2])"
proof -
  have empty: "mfd_ports empty_mfd = (\<lambda>_. [])" by (simp add: mfd_ok_empty fun_eq_iff)
  note j = demo_join_ok [OF mfd_ok_empty(1), unfolded empty]
  show 1: "mfd_ok demo_table1 \<and> mfd_ports demo_table1 = (\<lambda>_. [])(demo_grp1 := [1])"
    using j [of 1 demo_grp1] by (simp add: demo_table1 joined_def del: One_nat_def)
  show "mfd_ok demo_table2 \<and> mfd_ports demo_table2 = (\<lambda>_. [])(demo_grp1 := [2, 1])"
    using demo_join_ok [of demo_table1 2 demo_grp1] 1 by (simp add: demo_table2 joined_def)
  have 2: "mfd_ok (demo_join 2 demo_grp2 empty_mfd) \<and> mfd_ports (demo_join 2 demo_grp2 empty_mfd) = (\<lambda>_. [])(demo_grp2 := [2])"
    using j [of 2 demo_grp2] by (simp add: joined_def)
  let ?t = "demo_join 2 demo_grp1 (demo_join 2 demo_grp2 empty_mfd)"
  have 3: "mfd_ok ?t \<and> mfd_ports ?t = (\<lambda>_. [])(demo_grp2 := [2], demo_grp1 := [2])"
    using demo_join_ok [of _ 2 demo_grp1] 2 demo_hash(4) by (simp add: joined_def)
  then show "mfd_ok demo_table3 \<and> mfd_ports demo_table3 = (\<lambda>_. [])(demo_grp2 := [2], demo_grp1 := [1, 2])"
    using demo_join_ok [of ?t 1 demo_grp1] demo_hash(4) by (simp add: joined_def demo_table3 del: One_nat_def)
qed

lemma demo_mc_start: "fdb_hashed (snd (demo_mc empty_mfd))" "fdb_ports (snd (demo_mc empty_mfd))"
  "mfd (snd (demo_mc empty_mfd)) = empty_mfd" "\<not> oopsed (snd (demo_mc empty_mfd))"
  using bridge_invD [OF demo_switch_inv] by (simp_all add: demo_mc_def fdb_hashed_def fdb_ports_def fdb_all_def port_nos_def)

lemma demo_mc_inv:
  assumes "mfd_ok t" and "\<And>g. set (mfd_ports t g) \<subseteq> {1, 2, 3}"
  shows "mc_inv (snd (demo_mc t))"
proof -
  have "port_nos demo_switch = [1, 2, 3]" by code_simp
  then show ?thesis
    using mc_inv_set_mfd [OF mc_inv_empty [OF demo_mc_start] assms(1)] assms(2) by (simp add: demo_mc_def port_nos_def)
qed

lemma demo_mc1: "runs mc_step (demo_mc empty_mfd) [Joined 1 demo_grp1] demo_mc1" "mfd (snd demo_mc1) = demo_table1"
proof -
  let ?s = "demo_mc empty_mfd"
  have mem: "mem (snd ?s) = []" and port: "1 \<in> set (port_nos (snd ?s))" by code_simp+
  have V2: "IGMP_V2_MEMBERSHIP_REPORT \<in> IGMP_reports" by (simp add: IGMP_reports_def)
  note r = handle_report [OF demo_igmp_parse V2]
  have "mc_step ?s (Joined 1 demo_grp1) demo_mc1"
    using mc_step.input [OF port, of "demo_igmp 1 [224, 1, 1, 1]" 5] by (simp add: demo_mc1_def r mem)
  from runs.extend [of mc_step ?s "[]" ?s, OF runs.start this] show "runs mc_step ?s [Joined 1 demo_grp1] demo_mc1" by simp
  show "mfd (snd demo_mc1) = demo_table1"
    using br_mfd_insert_ok(2) [OF mc_inv_empty [OF demo_mc_start] port, where jiffies = 5 and type = IGMP_V2_MEMBERSHIP_REPORT
        and g = demo_grp1 and skb = "demo_igmp 1 [224, 1, 1, 1]"] mem demo_table1
    by (simp add: demo_mc1_def r demo_join_def demo_mc_def)
qed

lemma demo_expired: "runs mc_step (demo_mc empty_mfd) [Joined 1 demo_grp1, Expired 1 demo_grp1] demo_expired"
proof -
  have t: "mc_timers (mfd (snd demo_mc1)) 1 = Some 35005" and "expired 1 demo_mc1 = Expired 1 demo_grp1"
    by (simp_all add: demo_mc1(2) expired_def demo_table1_def demo_node_def demo_ent_def)
  with runs.extend [OF demo_mc1(1) mc_step.timer [OF t]] show ?thesis by (simp add: demo_expired_def)
qed

lemma demo_mc2_plain:
  "mc_inv (snd (demo_mc demo_table2))" "distinct (port_nos (snd (demo_mc demo_table2)))" "br_filter_root (fst (demo_mc demo_table2)) = []"
  "\<not> br_filter_active (snd (demo_mc demo_table2))" "mem (snd (demo_mc demo_table2)) = []"
proof -
  show "mc_inv (snd (demo_mc demo_table2))" by (rule demo_mc_inv) (auto simp: demo_table_ok(2))
qed code_simp+

section \<open>The properties at these groups\<close>

theorem groups_stay_well_formed_witness:
  "mfd_ok (mfd (snd demo_expired)) \<and> mc_members demo_expired demo_grp1 \<subseteq> set (port_nos (snd demo_expired)) \<and> \<not> oopsed (snd demo_expired)"
  by (rule groups_stay_well_formed [OF demo_expired demo_mc_start])

theorem member_iff_last_heard_witness:
  "1 \<in> set (mfd_ports (mfd (snd demo_mc1)) demo_grp1) \<and> 1 \<notin> set (mfd_ports (mfd (snd demo_expired)) demo_grp1)"
  using member_iff_last_heard [OF demo_mc1(1) demo_mc_start, of 1 demo_grp1]
    member_iff_last_heard [OF demo_expired demo_mc_start, of 1 demo_grp1] by (simp add: last_word_def)


theorem own_data_released_twice_witness:
  "handled (snd (snd (br_forward_handle_mc 5 (demo_data 3 [224, 1, 1, 1]) (demo_mc demo_table2)))) = [8, 7, 7]"
proof -
  have "mfd_ports (mfd (snd (demo_mc demo_table2))) demo_grp1 = [2, 1]" by (simp add: demo_mc_def demo_table_ok(2))
  moreover have "handled (snd (demo_mc demo_table2)) = []" "next_skb (snd (demo_mc demo_table2)) = 8"
    "skb_id (demo_data 3 [224, 1, 1, 1]) = 7" by code_simp+
  ultimately show ?thesis using own_data_released_twice [OF demo_mc2_plain demo_data_parse, of 5] by simp
qed

theorem member_can_expire_witness:
  "\<exists>s'. mc_step (demo_mc demo_table2) (Expired 1 demo_grp1) s' \<and> 1 \<notin> set (mfd_ports (mfd (snd s')) demo_grp1)"
  by (rule member_can_expire [OF demo_mc2_plain(1)]) (simp add: demo_mc_def demo_table_ok(2))

theorem removed_port_timer_dangles_witness:
  "\<exists>t' a. br_mfd_delete_port 1 demo_table1 = Some t' \<and> mfd_ports t' = (mfd_ports demo_table1)(demo_grp1 := [])
    \<and> mc_timers t' a \<noteq> None \<and> br_membership_timer_expired a t' = None"
proof -
  have "ent_addrs demo_table1 f = Some demo_grp1" if "mfd_ents demo_table1 f \<noteq> None" for f
    using that by (simp add: demo_table1_def ent_addrs_def demo_ent_def split: if_splits)
  from removed_port_timer_dangles [of demo_table1 demo_grp1 1, OF _ this] show ?thesis
    using demo_table_ok(1) by simp
qed


theorem report_relayed_exactly_witness:
  "out (snd (br_selective_flood 5 0 (demo_igmp 1 [224, 1, 1, 1]) (demo_mc demo_table2))) = [Hard_start_xmit 2 8, Hard_start_xmit 3 9]"
proof -
  let ?s = "demo_mc demo_table2" and ?skb = "demo_igmp 1 [224, 1, 1, 1]"
  have "out (snd ?s) @ copies_to (map port_no (filter (relays_to (snd ?s) 0 ?skb) (port_list (snd ?s)))) (next_skb (snd ?s)) =
      [Hard_start_xmit 2 8, Hard_start_xmit 3 9]" by code_simp
  moreover have "mfd_ents (mfd (snd ?s)) 0 = Some (demo_ent 2 demo_grp1 2)" by (simp add: demo_mc_def demo_table2_def)
  ultimately show ?thesis using report_relayed_exactly [OF demo_mc2_plain, of 0] by simp
qed

end
