(* ===== verification/Br_Host.thy ===== *)
theory Br_Host
  imports Br_Ioctl Br_Proc
begin

text \<open>
  The system calls through which a program reaches the bridges of the machine: the device list of the
  kernel with the bridges and the other network devices, the lookups by name and by index of
  net/core/dev.c, and the two paths from \<^verbatim>\<open>ioctl\<close> to the code of br_ioctl.c, for a bridge device and
  for the module as a whole (net/ipv4/af_inet.c).
\<close>

section \<open>The machine\<close>

record br_host =
  host_bridges :: "net_bridge list"
  host_devs :: "net_device list"

text \<open>
  What the rest of the kernel contributes while a program runs: the clock, the caller's capability,
  the outcomes of copies and allocations, the index a new device gets, and the answers of other drivers.
\<close>

record host_env =
  he_jiffies :: u32
  he_capable :: bool
  he_fdb_copy :: "nat \<Rightarrow> copy_outcome"
  he_mfd_copy :: "nat \<Rightarrow> copy_outcome"
  he_mem_ok :: bool
  he_mem_later :: "bool list"
  he_new_ifindex :: nat
  he_driver_ioctl :: "net_device \<Rightarrow> int"

text \<open>
  The list of devices. The kernel keeps it in the order of registration; no two devices on it have the same
  name or index, so that a lookup finds the same in any order.
\<close>

definition all_devs :: "br_host \<Rightarrow> net_device list" where
  "all_devs h = map br_dev (filter (\<lambda>br. dev_listed (br_dev br)) (host_bridges h)) @ host_devs h"

definition dev_get_by_name :: "string \<Rightarrow> br_host \<Rightarrow> net_device option" where
  "dev_get_by_name name h = find (\<lambda>dev. strncmp (dev_name dev) name IFNAMSIZ = 0) (all_devs h)"

definition dev_get_by_index :: "nat \<Rightarrow> br_host \<Rightarrow> net_device option" where
  "dev_get_by_index i h = find (\<lambda>dev. ifindex dev = i) (all_devs h)"

text \<open>
  A bridge as \<^verbatim>\<open>dev_ioctl\<close> finds it: by the name of its device on the list of devices.
\<close>

definition br_listed :: "string \<Rightarrow> net_bridge \<Rightarrow> bool" where
  "br_listed name br \<longleftrightarrow> dev_listed (br_dev br) \<and> br_named name br"

text \<open>
  A device after a call. While it is on a port the port's record has it; a device that has left its
  bridge, or never got on, goes back to its place in the list of devices. A bridge's own device stays in the
  record of the bridge all the time; the port it is on has changed three fields of it.
\<close>

definition port_fields :: "net_device \<Rightarrow> net_device \<Rightarrow> net_device" where
  "port_fields dev d = d\<lparr>promiscuity := promiscuity dev, dev_refcnt := dev_refcnt dev, dev_br_port := dev_br_port dev\<rparr>"

definition put_dev :: "net_device \<Rightarrow> br_host \<Rightarrow> br_host" where
  "put_dev dev h =
     h\<lparr>host_bridges := map (\<lambda>br. if ifindex (br_dev br) = ifindex dev then br\<lparr>br_dev := port_fields dev (br_dev br)\<rparr> else br) (host_bridges h),
       host_devs := map (\<lambda>d. if ifindex d = ifindex dev then dev else d) (host_devs h)\<rparr>"

definition put_back :: "net_device \<Rightarrow> br_host \<Rightarrow> br_host" where
  "put_back dev h = (case dev_br_port dev of Port n \<Rightarrow> h | _ \<Rightarrow> put_dev dev h)"

text \<open>The bridges that are no longer on the list \<open>bl\<close>, and the devices of their ports.\<close>

definition gone_bridges :: "net_bridge list \<Rightarrow> br_host \<Rightarrow> net_bridge list" where
  "gone_bridges bl h = filter (\<lambda>br. \<forall>b\<in>set bl. ifindex (br_dev b) \<noteq> ifindex (br_dev br)) (host_bridges h)"

definition released_devs :: "net_bridge list \<Rightarrow> br_host \<Rightarrow> net_device list" where
  "released_devs bl h = concat (map (\<lambda>br. map (release_dev \<circ> p_dev) (port_list br)) (gone_bridges bl h))"

text \<open>
  The notifier chain, as far as the bridges are on it: the port of the device with the index \<open>i\<close>, on
  whichever bridge it is, gets the event (\<^verbatim>\<open>br_device_event\<close>).
\<close>

definition port_of_dev :: "nat \<Rightarrow> net_bridge \<Rightarrow> net_bridge_port option" where
  "port_of_dev i br = find (\<lambda>p. ifindex (p_dev p) = i) (port_list br)"

definition notifier_call_chain :: "u32 \<Rightarrow> netdev_event \<Rightarrow> nat \<Rightarrow> net_bridge list \<Rightarrow> net_bridge list" where
  "notifier_call_chain jiffies event i =
     map (\<lambda>br. case port_of_dev i br of Some p \<Rightarrow> br_device_event jiffies event (port_no p) br | None \<Rightarrow> br)"

text \<open>
  A device as the code of the bridge \<open>br\<close> finds it: on a port of the bridge, on a port of another bridge,
  which this bridge does not have on its list, or free.
\<close>

definition dev_seen :: "br_host \<Rightarrow> net_bridge \<Rightarrow> net_device \<Rightarrow> net_device" where
  "dev_seen h br dev =
     (case port_of_dev (ifindex dev) br of
        Some p \<Rightarrow> p_dev p
      | None \<Rightarrow>
          if \<exists>other\<in>set (host_bridges h). \<exists>p\<in>set (port_list other). ifindex (p_dev p) = ifindex dev
          then dev\<lparr>dev_br_port := Dangling_port\<rparr>
          else dev)"

text \<open>
  The devices of deleted bridges leave the list of devices (\<^verbatim>\<open>unregister_netdev\<close>); a bridge that had such a
  device on a port loses the port.
\<close>

definition unregister_gone :: "u32 \<Rightarrow> net_bridge list \<Rightarrow> br_host \<Rightarrow> net_bridge list" where
  "unregister_gone jiffies bl h =
     fold (\<lambda>br. notifier_call_chain jiffies NETDEV_UNREGISTER (ifindex (br_dev br)))
       (filter (\<lambda>br. dev_listed (br_dev br)) (gone_bridges bl h)) bl"

section \<open>ioctl\<close>

definition ENODEV :: int where "ENODEV = 19"

text \<open>The caller's buffers are good, so copies to and from them succeed.\<close>

definition io_env :: "host_env \<Rightarrow> br_host \<Rightarrow> (net_device \<Rightarrow> net_device) \<Rightarrow> string option \<Rightarrow> br_filter_entry option \<Rightarrow> ioctl_env" where
  "io_env env h seen name flt =
     \<lparr>dev_by_index = (\<lambda>i. map_option seen (dev_get_by_index i h)), user_filter = flt, user_name = name,
      copy_ok = True, fdb_copy = he_fdb_copy env, mfd_copy = he_mfd_copy env,
      dev_exists = (\<lambda>nm. dev_get_by_name nm h \<noteq> None), mem_ok = he_mem_ok env,
      mem_later = he_mem_later env, new_ifindex = he_new_ifindex env\<rparr>"

text \<open>\<^verbatim>\<open>SIOCGIFBR\<close> in \<^verbatim>\<open>inet_ioctl\<close>, with the module loaded.\<close>

definition sys_br_ioctl ::
    "host_env \<Rightarrow> brctl \<Rightarrow> u32 \<Rightarrow> u32 \<Rightarrow> string option \<Rightarrow> br_host \<Rightarrow> int \<times> ioctl_out \<times> br_host" where
  "sys_br_ioctl env cmd arg0 arg1 name h =
     (case br_ioctl_deviceless_stub (he_capable env) (he_jiffies env) (io_env env h id name None)
             (Some (cmd, arg0, arg1)) (host_bridges h) of
        (ret, res, bl) \<Rightarrow> 
          (ret, res, fold put_back (released_devs bl h)
             (h\<lparr>host_bridges := unregister_gone (he_jiffies env) bl h\<rparr>)))"

text \<open>The name in an \<^verbatim>\<open>ifreq\<close>, as \<^verbatim>\<open>dev_ioctl\<close> leaves it.\<close>

definition ifr_name :: "string \<Rightarrow> string" where
  "ifr_name s = takeWhile (\<lambda>c. c \<noteq> CHR '':'') (take (IFNAMSIZ - 1) (c_str s))"

fun position :: "('a \<Rightarrow> bool) \<Rightarrow> 'a list \<Rightarrow> nat option" where
  "position P [] = None"
| "position P (x # xs) = (if P x then Some 0 else map_option Suc (position P xs))"

text \<open>
  \<^verbatim>\<open>SIOCDEVPRIVATE\<close> in \<^verbatim>\<open>dev_ioctl\<close> and \<^verbatim>\<open>dev_ifsioc\<close>: the device is looked up by its name and its driver
  called, which for a bridge is \<^verbatim>\<open>br_dev_do_ioctl\<close>.
\<close>

definition sys_dev_ioctl ::
    "host_env \<Rightarrow> string \<Rightarrow> brctl \<Rightarrow> u32 \<Rightarrow> u32 \<Rightarrow> u32 \<Rightarrow> br_filter_entry option \<Rightarrow> br_host
       \<Rightarrow> int \<times> ioctl_out \<times> br_host" where
  "sys_dev_ioctl env name cmd arg0 arg1 arg2 flt h =
     (case position (br_listed (ifr_name name)) (host_bridges h) of
        Some k \<Rightarrow>
          (case br_dev_do_ioctl (he_capable env) (he_jiffies env)
                  (io_env env h (dev_seen h (host_bridges h ! k)) None flt) k True
                  (Some (cmd, arg0, arg1, arg2)) (host_bridges h) of
             (ret, res, bl) \<Rightarrow>
               (let h = h\<lparr>host_bridges := bl\<rparr>
                in (ret, res, case res of Out_dev dev \<Rightarrow> put_back dev h | _ \<Rightarrow> h)))
      | None \<Rightarrow>
          (case find (\<lambda>dev. strncmp (dev_name dev) (ifr_name name) IFNAMSIZ = 0) (host_devs h) of
             Some dev \<Rightarrow> (he_driver_ioctl env dev, Out_none, h)
           | None \<Rightarrow> (- ENODEV, Out_none, h)))"

text \<open>
  \<^verbatim>\<open>if_nametoindex\<close> and \<^verbatim>\<open>if_indextoname\<close> (libbridge/if_index.c) with the calls \<^verbatim>\<open>SIOCGIFINDEX\<close> and
  \<^verbatim>\<open>SIOCGIFNAME\<close> behind them. When the second fails the list of all interfaces is searched, where an
  index the kernel does not know is not found either.
\<close>

definition if_nametoindex :: "string \<Rightarrow> br_host \<Rightarrow> nat" where
  "if_nametoindex ifname h =
     (case dev_get_by_name (ifr_name (take IFNAMSIZ (c_str ifname))) h of Some dev \<Rightarrow> ifindex dev | None \<Rightarrow> 0)"

definition if_indextoname :: "nat \<Rightarrow> br_host \<Rightarrow> string option" where
  "if_indextoname i h = map_option (\<lambda>dev. take IFNAMSIZ (dev_name dev)) (dev_get_by_index i h)"

section \<open>A bridge by its name\<close>

lemma position_Some:
  "position P xs = Some k \<Longrightarrow> k < length xs \<and> P (xs ! k)"
  by (induction xs arbitrary: k) (auto split: if_splits)

lemma position_update:
  "position P xs = Some k \<Longrightarrow> P x \<Longrightarrow> position P (xs[k := x]) = Some k"
  by (induction xs arbitrary: k) (auto split: if_splits)

lemma position_distinct:
  "k < length xs \<Longrightarrow> P (xs ! k) \<Longrightarrow> (\<And>i. i < length xs \<Longrightarrow> P (xs ! i) \<Longrightarrow> i = k) \<Longrightarrow> position P xs = Some k"
proof (induction xs arbitrary: k)
  case (Cons x xs)
  show ?case
  proof (cases k)
    case 0
    then show ?thesis using Cons.prems by simp
  next
    case (Suc j)
    have "\<not> P x" using Cons.prems(3) [of 0] Suc by auto
    moreover have "position P xs = Some j"
    proof (rule Cons.IH)
      show "i = j" if i: "i < length xs" "P (xs ! i)" for i
        using Cons.prems(3) [of "Suc i"] i Suc by simp
    qed (use Cons.prems Suc in simp_all)
    ultimately show ?thesis using Suc by simp
  qed
qed simp

text \<open>
  The bridge that a caller controls under a name, and the machine with that bridge replaced. A caller
  without the capability controls none.
\<close>

definition ctl_bridge :: "host_env \<Rightarrow> string \<Rightarrow> br_host \<Rightarrow> net_bridge option" where
  "ctl_bridge env name h =
     (if he_capable env then map_option ((!) (host_bridges h)) (position (br_listed (ifr_name name)) (host_bridges h))
      else None)"

definition put_bridge :: "string \<Rightarrow> net_bridge \<Rightarrow> br_host \<Rightarrow> br_host" where
  "put_bridge name br h =
     (case position (br_listed (ifr_name name)) (host_bridges h) of
        Some k \<Rightarrow> h\<lparr>host_bridges := (host_bridges h)[k := br]\<rparr>
      | None \<Rightarrow> h)"

text \<open>The commands that concern one bridge and no other device.\<close>

definition bridge_cmd :: "brctl \<Rightarrow> bool" where
  "bridge_cmd cmd \<longleftrightarrow>
     cmd \<notin> {BRCTL_GET_VERSION, BRCTL_GET_BRIDGES, BRCTL_ADD_BRIDGE, BRCTL_DEL_BRIDGE, BRCTL_ADD_IF, BRCTL_DEL_IF}"

lemma deviceless_bridge_cmd:
  "bridge_cmd cmd \<or> cmd = BRCTL_ADD_IF \<or> cmd = BRCTL_DEL_IF \<Longrightarrow>
     br_ioctl_deviceless j ie cmd a0 a1 bl = (- EOPNOTSUPP, Out_none, bl)"
  by (cases cmd) (auto simp: bridge_cmd_def)

lemma device_no_dev:
  assumes "bridge_cmd cmd" "br_ioctl_device j ie cmd a0 a1 a2 br = (ret, res, br')"
  shows "res \<noteq> Out_dev dev"
  using assms by (cases cmd) (auto simp: bridge_cmd_def copy_out_def split: option.splits sum.splits prod.splits if_splits)

text \<open>
  What a client relies on: a command reaches the bridge of the name, the answer is that of the bridge's
  handler, and nothing but that bridge changes.
\<close>

locale bridge_control =
  fixes ask :: "string \<Rightarrow> brctl \<Rightarrow> u32 \<Rightarrow> u32 \<Rightarrow> u32 \<Rightarrow> br_filter_entry option \<Rightarrow> 'h \<Rightarrow> int \<times> ioctl_out \<times> 'h"
    and bridge_at :: "string \<Rightarrow> 'h \<Rightarrow> net_bridge option"
    and with_bridge :: "string \<Rightarrow> net_bridge \<Rightarrow> 'h \<Rightarrow> 'h"
    and jif :: u32
    and ioenv :: "string \<Rightarrow> br_filter_entry option \<Rightarrow> 'h \<Rightarrow> ioctl_env"
  assumes ask_device: "bridge_at n h = Some br \<Longrightarrow> bridge_cmd cmd \<Longrightarrow>
      ask n cmd a0 a1 a2 f h =
        (case br_ioctl_device jif (ioenv n f h) cmd a0 a1 a2 br of (ret, res, br') \<Rightarrow> (ret, res, with_bridge n br' h))"
    and with_same: "bridge_at n h = Some br \<Longrightarrow> with_bridge n br h = h"
    and with_get: "bridge_at n h = Some br \<Longrightarrow> br_dev br' = br_dev br \<Longrightarrow> bridge_at n (with_bridge n br' h) = Some br'"
    and good_copy: "copy_ok (ioenv n f h)"
    and filter_arg: "user_filter (ioenv n f h) = f"
begin

lemma get_info:
  "bridge_at n h = Some br \<Longrightarrow> ask n BRCTL_GET_BRIDGE_INFO a0 a1 a2 f h = (0, Out_bridge (br_bridge_info jif br), h)"
  by (simp add: ask_device bridge_cmd_def copy_out_def good_copy with_same)

lemma get_port_list:
  "bridge_at n h = Some br \<Longrightarrow>
     ask n BRCTL_GET_PORT_LIST a0 a1 a2 f h = (0, Out_indices (br_get_port_ifindices br (replicate 256 0)), h)"
  by (simp add: ask_device bridge_cmd_def copy_out_def good_copy with_same)

lemma get_port_info:
  "bridge_at n h = Some br \<Longrightarrow> br_get_port br (unat a1) = Some pt \<Longrightarrow>
     ask n BRCTL_GET_PORT_INFO a0 a1 a2 f h = (0, Out_port (br_port_info jif pt), h)"
  by (simp add: ask_device bridge_cmd_def copy_out_def good_copy with_same)

lemma get_fdb:
  "bridge_at n h = Some br \<Longrightarrow>
     ask n BRCTL_GET_FDB_ENTRIES a0 a1 a2 f h =
       (case br_fdb_get_entries (fdb_copy (ioenv n f h)) jif (sint a1) (sint a2) br of
          Inl e \<Rightarrow> (- errno_val e, Out_none, h) | Inr rs \<Rightarrow> (int (length rs), Out_fdb rs, h))"
  by (simp add: ask_device bridge_cmd_def with_same split: sum.split)

text \<open>A time that is set is the one the bridge then reports.\<close>

lemma set_times:
  assumes "bridge_at n h = Some br"
  shows "ask n BRCTL_SET_BRIDGE_FORWARD_DELAY v a1 a2 f h = (0, Out_none, with_bridge n
      (br\<lparr>bridge_forward_delay := v, forward_delay := (if br_is_root_bridge br then v else forward_delay br)\<rparr>) h)"
    and "ask n BRCTL_SET_BRIDGE_HELLO_TIME v a1 a2 f h = (0, Out_none, with_bridge n
      (br\<lparr>bridge_hello_time := v, hello_time := (if br_is_root_bridge br then v else hello_time br)\<rparr>) h)"
    and "ask n BRCTL_SET_BRIDGE_MAX_AGE v a1 a2 f h = (0, Out_none, with_bridge n
      (br\<lparr>bridge_max_age := v, max_age := (if br_is_root_bridge br then v else max_age br)\<rparr>) h)"
    and "ask n BRCTL_SET_AGEING_TIME v a1 a2 f h = (0, Out_none, with_bridge n (br\<lparr>ageing_time := v\<rparr>) h)"
    and "ask n BRCTL_SET_GC_INTERVAL v a1 a2 f h = (0, Out_none, with_bridge n (br\<lparr>gc_interval := v\<rparr>) h)"
  by (simp_all add: ask_device [OF assms] bridge_cmd_def)

lemma add_filter:
  "bridge_at n h = Some br \<Longrightarrow>
     ask n BRCTL_SET_FILTER_ENTRY a0 a1 a2 f h =
       (case br_add_filter_entry f br of (ret, br') \<Rightarrow> (ret, Out_none, with_bridge n br' h))"
  by (simp add: ask_device bridge_cmd_def filter_arg split: prod.split)

end

lemma br_listed_cong: "br_dev br = br_dev br' \<Longrightarrow> br_listed s br = br_listed s br'"
  by (simp add: br_listed_def br_named_def)

lemma sys_dev_ioctl_bridge:
  assumes "ctl_bridge env n h = Some br" "bridge_cmd cmd"
  shows "sys_dev_ioctl env n cmd a0 a1 a2 f h =
    (case br_ioctl_device (he_jiffies env) (io_env env h (dev_seen h br) None f) cmd a0 a1 a2 br of
       (ret, res, br') \<Rightarrow> (ret, res, put_bridge n br' h))"
proof -
  obtain k where k: "he_capable env" "position (br_listed (ifr_name n)) (host_bridges h) = Some k"
      "host_bridges h ! k = br"
    using assms(1) by (auto simp: ctl_bridge_def split: if_splits)
  obtain ret res br' where r: "br_ioctl_device (he_jiffies env) (io_env env h (dev_seen h br) None f) cmd a0 a1 a2 br = (ret, res, br')"
    by (metis prod_cases3)
  have "res \<noteq> Out_dev dev" for dev by (rule device_no_dev [OF assms(2) r])
  then show ?thesis
    using k r by (simp add: sys_dev_ioctl_def br_dev_do_ioctl_def br_ioctl_def deviceless_bridge_cmd assms(2) put_bridge_def
        Let_def split: ioctl_out.split)
qed

interpretation ctl: bridge_control "sys_dev_ioctl env" "ctl_bridge env" put_bridge "he_jiffies env"
    "\<lambda>n f h. io_env env h (dev_seen h (the (ctl_bridge env n h))) None f" for env
proof
  fix n :: string and h :: br_host and br br' :: net_bridge
  assume at: "ctl_bridge env n h = Some br"
  then obtain k where k: "he_capable env" "position (br_listed (ifr_name n)) (host_bridges h) = Some k"
      "host_bridges h ! k = br"
    by (auto simp: ctl_bridge_def split: if_splits)
  show "put_bridge n br h = h"
    using k(2) list_update_id [of "host_bridges h" k] by (simp add: put_bridge_def k(3))
  assume "br_dev br' = br_dev br"
  then have "br_listed (ifr_name n) br'" using position_Some [OF k(2)] k(3) br_listed_cong by metis
  then show "ctl_bridge env n (put_bridge n br' h) = Some br'"
    using k position_update [OF k(2), of br'] position_Some [OF k(2)] by (simp add: ctl_bridge_def put_bridge_def)
qed (simp_all add: sys_dev_ioctl_bridge io_env_def)

section \<open>Well-formed machines\<close>

text \<open>A name that every path leaves as it is.\<close>

definition good_name :: "string \<Rightarrow> bool" where
  "good_name s \<longleftrightarrow> s \<noteq> [] \<and> length s < IFNAMSIZ \<and> CHR 0x00 \<notin> set s \<and> CHR '':'' \<notin> set s"

definition host_ok :: "br_host \<Rightarrow> bool" where
  "host_ok h \<longleftrightarrow>
     distinct (map ifindex (all_devs h)) \<and> distinct (map dev_name (all_devs h)) \<and>
     (\<forall>dev\<in>set (all_devs h). good_name (dev_name dev) \<and> ifindex dev \<noteq> 0) \<and>
     (\<forall>br\<in>set (host_bridges h). dev_listed (br_dev br) \<and> distinct (port_nos br) \<and>
        (\<forall>p\<in>set (port_list br). 0 < port_no p \<and> port_no p < 256 \<and> ifindex (p_dev p) \<in> ifindex ` set (all_devs h)))"

lemma take_good [simp]: "good_name s \<Longrightarrow> take IFNAMSIZ s = s" "good_name s \<Longrightarrow> take (IFNAMSIZ - 1) s = s"
  by (simp_all add: good_name_def IFNAMSIZ_def)

lemma c_str_good [simp]: "good_name s \<Longrightarrow> c_str s = s"
  by (auto simp: good_name_def c_str_def takeWhile_eq_all_conv)

lemma ifr_name_good [simp]: "good_name s \<Longrightarrow> ifr_name s = s"
  by (simp add: ifr_name_def) (auto simp: good_name_def takeWhile_eq_all_conv)

lemma strncmp_good [simp]: "good_name s \<Longrightarrow> good_name t \<Longrightarrow> strncmp s t IFNAMSIZ = 0 \<longleftrightarrow> s = t"
  by (subst strncmp_eq_0_iff) (simp_all add: good_name_def c_string_def IFNAMSIZ_def)

lemma strcmp_good [simp]: "good_name s \<Longrightarrow> good_name t \<Longrightarrow> strcmp s t = 0 \<longleftrightarrow> s = t"
  by (subst strcmp_eq_0_iff) (simp_all add: good_name_def c_string_def)

lemma host_dev:
  assumes "host_ok h" "dev \<in> set (all_devs h)"
  shows "good_name (dev_name dev)" "ifindex dev \<noteq> 0"
    "dev_get_by_index (ifindex dev) h = Some dev" "dev_get_by_name (dev_name dev) h = Some dev"
proof -
  show good: "good_name (dev_name dev)" "ifindex dev \<noteq> 0" using assms by (auto simp: host_ok_def)
  show "dev_get_by_index (ifindex dev) h = Some dev"
    using assms find_key_in [of ifindex "all_devs h" dev] by (simp add: host_ok_def dev_get_by_index_def)
  have "find (\<lambda>d. strncmp (dev_name d) (dev_name dev) IFNAMSIZ = 0) (all_devs h)
      = find (\<lambda>d. dev_name d = dev_name dev) (all_devs h)"
    using assms good by (intro find_cong) (auto simp: host_ok_def)
  then show "dev_get_by_name (dev_name dev) h = Some dev"
    using assms find_key_in [of dev_name "all_devs h" dev] by (simp add: host_ok_def dev_get_by_name_def)
qed

lemma all_devs_ok: "host_ok h \<Longrightarrow> all_devs h = map br_dev (host_bridges h) @ host_devs h"
  by (simp add: all_devs_def host_ok_def)

lemma bridge_dev: "host_ok h \<Longrightarrow> br \<in> set (host_bridges h) \<Longrightarrow> br_dev br \<in> set (all_devs h)"
  by (simp add: all_devs_ok)

lemma host_ports:
  assumes "host_ok h" "br \<in> set (host_bridges h)"
  shows "distinct (port_nos br)" "\<forall>p\<in>set (port_list br). ifindex (p_dev p) \<noteq> 0"
proof -
  show "distinct (port_nos br)" using assms by (simp add: host_ok_def)
  show "\<forall>p\<in>set (port_list br). ifindex (p_dev p) \<noteq> 0"
  proof
    fix p assume "p \<in> set (port_list br)"
    then have "ifindex (p_dev p) \<in> ifindex ` set (all_devs h)" using assms by (simp add: host_ok_def)
    then show "ifindex (p_dev p) \<noteq> 0" using host_dev(2) [OF assms(1)] by auto
  qed
qed

lemma bridge_dev_inj:
  assumes "host_ok h" "i < length (host_bridges h)" "j < length (host_bridges h)"
    "dev_name (br_dev (host_bridges h ! i)) = dev_name (br_dev (host_bridges h ! j))"
  shows "i = j"
proof -
  have "distinct (map (\<lambda>br. dev_name (br_dev br)) (host_bridges h))"
    using assms(1) all_devs_ok [OF assms(1)] by (simp add: host_ok_def comp_def)
  then show ?thesis using assms(2-4) nth_eq_iff_index_eq [of "map (\<lambda>br. dev_name (br_dev br)) (host_bridges h)" i j] by simp
qed

lemma position_bridge:
  assumes "host_ok h" "k < length (host_bridges h)"
  shows "position (br_listed (dev_name (br_dev (host_bridges h ! k)))) (host_bridges h) = Some k"
proof (rule position_distinct)
  have good: "good_name (dev_name (br_dev (host_bridges h ! i)))" if "i < length (host_bridges h)" for i
    using host_dev(1) [OF assms(1)] bridge_dev [OF assms(1)] nth_mem [OF that] by blast
  show "i = k" if i: "i < length (host_bridges h)" "br_listed (dev_name (br_dev (host_bridges h ! k))) (host_bridges h ! i)" for i
    using i good [of i] good [OF assms(2)] bridge_dev_inj [OF assms(1) i(1) assms(2)] by (simp add: br_listed_def br_named_def)
qed (use assms in \<open>simp_all add: br_listed_def br_named_def host_ok_def\<close>)

lemma ctl_bridge_ok:
  assumes "host_ok h" "he_capable env" "br \<in> set (host_bridges h)"
  shows "ctl_bridge env (dev_name (br_dev br)) h = Some br"
proof -
  obtain k where k: "k < length (host_bridges h)" "br = host_bridges h ! k"
    using assms(3) by (auto simp: in_set_conv_nth)
  have "good_name (dev_name (br_dev br))" by (rule host_dev(1) [OF assms(1) bridge_dev [OF assms(1,3)]])
  then show ?thesis using position_bridge [OF assms(1) k(1)] k assms(2) by (simp add: ctl_bridge_def)
qed

lemma if_indextoname_bridge:
  assumes "host_ok h" "br \<in> set (host_bridges h)"
  shows "if_indextoname (ifindex (br_dev br)) h = Some (dev_name (br_dev br))"
  using host_dev [OF assms(1) bridge_dev [OF assms]] by (simp add: if_indextoname_def)

lemma if_nametoindex_dev:
  "host_ok h \<Longrightarrow> dev \<in> set (all_devs h) \<Longrightarrow> if_nametoindex (dev_name dev) h = ifindex dev"
  using host_dev [of h dev] by (simp add: if_nametoindex_def)

section \<open>The array of port indices\<close>

lemma length_port_ifindices [simp]: "length (br_get_port_ifindices br xs) = length xs"
proof -
  have "length (fold (\<lambda>p is. is[port_no p := ifindex (p_dev p)]) ps xs) = length xs" for ps
    by (induction ps arbitrary: xs) simp_all
  then show ?thesis by (simp add: br_get_port_ifindices_def)
qed

lemma fold_indices_nth:
  "i < length xs \<Longrightarrow> distinct (map port_no ps) \<Longrightarrow>
     fold (\<lambda>p is. is[port_no p := ifindex (p_dev p)]) ps xs ! i =
       (case find (\<lambda>p. port_no p = i) ps of Some p \<Rightarrow> ifindex (p_dev p) | None \<Rightarrow> xs ! i)"
proof (induction ps arbitrary: xs)
  case (Cons p ps)
  have "find (\<lambda>q. port_no q = i) ps = None" if "port_no p = i"
    using Cons.prems(2) that by (auto simp: find_None_iff intro: rev_image_eqI)
  then show ?case using Cons by (auto simp: nth_list_update split: option.split)
qed simp

lemma port_ifindices_nth:
  assumes "i < 256" "distinct (port_nos br)"
  shows "br_get_port_ifindices br (replicate 256 0) ! i =
    (case br_get_port br i of Some p \<Rightarrow> ifindex (p_dev p) | None \<Rightarrow> 0)"
  using assms fold_indices_nth [of i "replicate 256 0" "port_list br"] nth_replicate [of i 256 "0 :: nat"]
  by (simp add: br_get_port_ifindices_def br_get_port_def port_nos_def del: nth_replicate cong: option.case_cong)

section \<open>Calls that only read\<close>

definition reading_cmd :: "brctl \<Rightarrow> bool" where
  "reading_cmd cmd \<longleftrightarrow>
     cmd \<in> {BRCTL_GET_BRIDGE_INFO, BRCTL_GET_PORT_LIST, BRCTL_GET_PORT_INFO, BRCTL_GET_FDB_ENTRIES}"

lemma reading_device:
  "reading_cmd cmd \<Longrightarrow> br_ioctl_device j ie cmd a0 a1 a2 br = (ret, res, br') \<Longrightarrow> br' = br"
  by (cases cmd) (auto simp: reading_cmd_def copy_out_def split: option.splits sum.splits if_splits)

lemma reading_bridge_cmd: "reading_cmd cmd \<Longrightarrow> bridge_cmd cmd"
  by (auto simp: reading_cmd_def bridge_cmd_def)

lemma sys_dev_ioctl_denied:
  assumes "ctl_bridge env n h = None"
  shows "snd (snd (sys_dev_ioctl env n cmd a0 a1 a2 f h)) = h"
  using assms
  by (auto simp: ctl_bridge_def sys_dev_ioctl_def br_dev_do_ioctl_def br_ioctl_def split: option.split if_splits)

lemma sys_dev_ioctl_reads:
  assumes "reading_cmd cmd" "sys_dev_ioctl env n cmd a0 a1 a2 f h = (ret, res, h')"
  shows "h' = h"
proof (cases "ctl_bridge env n h")
  case None
  then show ?thesis using sys_dev_ioctl_denied [OF None, of cmd a0 a1 a2 f] assms(2) by simp
next
  case (Some br)
  then show ?thesis
    using sys_dev_ioctl_bridge [OF Some reading_bridge_cmd [OF assms(1)], of a0 a1 a2 f] assms(2)
      ctl.with_same [OF Some]
    by (auto split: prod.splits dest: reading_device [OF assms(1)])
qed

lemma gone_same: "gone_bridges (host_bridges h) h = []"
  by (auto simp: gone_bridges_def filter_empty_conv)

lemma nobody_gone:
  assumes "gone_bridges bl h = []"
  shows "released_devs bl h = []" "unregister_gone j bl h = bl"
  using assms by (simp_all add: released_devs_def unregister_gone_def)

lemma sys_br_ioctl_reads:
  assumes "cmd = BRCTL_GET_VERSION \<or> cmd = BRCTL_GET_BRIDGES" "sys_br_ioctl env cmd a0 a1 name h = (ret, res, h')"
  shows "h' = h"
  using assms by (auto simp: sys_br_ioctl_def br_ioctl_deviceless_stub_def nobody_gone [OF gone_same] Let_def split: if_splits)

section \<open>The next index\<close>

text \<open>The index that the kernel takes for a new device.\<close>

definition next_ifindex :: "br_host \<Rightarrow> s32 \<Rightarrow> nat option" where
  "next_ifindex h counter = map_option unat (dev_new_index (\<lambda>i. dev_get_by_index i h \<noteq> None) counter)"

lemma next_ifindex_free:
  assumes "next_ifindex h c = Some i"
  shows "i \<noteq> 0" "i \<notin> ifindex ` set (all_devs h)"
proof -
  obtain w where w: "dev_new_index (\<lambda>i. dev_get_by_index i h \<noteq> None) c = Some w" "i = unat w"
    using assms by (auto simp: next_ifindex_def)
  show "i \<noteq> 0"
  proof
    assume "i = 0"
    then have "w = 0" using w(2) by (simp add: unsigned_eq_0_iff)
    then show False using dev_new_index_fresh(1) [OF w(1)] by simp
  qed
  show "i \<notin> ifindex ` set (all_devs h)"
    using dev_new_index_fresh(2) [OF w(1)] w(2) by (auto simp: dev_get_by_index_def find_None_iff)
qed

end
