(* ===== verification/Br_Lib.thy ===== *)
theory Br_Lib
  imports Br_Host
begin

text \<open>
  The library behind the bridge control utility (bridge-utils-0.9.5/libbridge): the copy of the kernel's
  bridges that a program reads at its start, and one function per request. A system call that fails
  is its negative result, which \<^verbatim>\<open>errno\<close> then holds; sockets can be opened. An argument that is the
  address of a buffer is passed as 0: what the kernel writes there is part of the call's result, and what the buffer held
  before is a parameter (\<open>stack\<close>). Functions with the name of a kernel function start with \<open>lib_\<close>.
\<close>

section \<open>Times and states (libbridge_misc.c)\<close>

type_synonym u64 = "64 word"

record timeval =
  tv_sec :: s32
  tv_usec :: s32

definition tv_to_jiffies :: "timeval \<Rightarrow> u32" where
  "tv_to_jiffies tv =
     (let jif = 1000000 * scast (tv_sec tv) + scast (tv_usec tv) :: u64
      in ucast ((of_nat HZ * jif) div 1000000))"

definition jiffies_to_tv :: "u32 \<Rightarrow> timeval" where
  "jiffies_to_tv jiffies =
     (let tvusec = (1000000 * ucast jiffies) div of_nat HZ :: u64;
          sec = ucast (tvusec div 1000000) :: s32
      in \<lparr>tv_sec = sec, tv_usec = ucast (tvusec - scast (1000000 * sec))\<rparr>)"

definition state_names :: "string list" where
  "state_names = [''disabled'', ''listening'', ''learning'', ''forwarding'', ''blocking'']"

definition br_get_state_name :: "int \<Rightarrow> string" where
  "br_get_state_name state =
     (if 0 \<le> state \<and> state \<le> 4 then state_names ! nat state else ''<INVALID STATE>'')"

section \<open>Data (libbridge.h)\<close>

record lib_bridge_info =
  bri_designated_root :: bridge_id
  bri_bridge_id :: bridge_id
  bri_root_path_cost :: s32
  bri_max_age :: timeval
  bri_hello_time :: timeval
  bri_forward_delay :: timeval
  bri_bridge_max_age :: timeval
  bri_bridge_hello_time :: timeval
  bri_bridge_forward_delay :: timeval
  bri_topology_change :: bool
  bri_topology_change_detected :: bool
  bri_root_port :: nat
  bri_stp_enabled :: bool
  bri_ageing_time :: timeval
  bri_gc_interval :: timeval
  bri_hello_timer_value :: timeval
  bri_tcn_timer_value :: timeval
  bri_topology_change_timer_value :: timeval
  bri_gc_timer_value :: timeval
  bri_br_filter_active :: bool

record lib_port_info =
  pri_designated_root :: bridge_id
  pri_designated_bridge :: bridge_id
  pri_port_id :: u16
  pri_designated_port :: u16
  pri_path_cost :: s32
  pri_designated_cost :: s32
  pri_state :: s32
  pri_top_change_ack :: bool
  pri_config_pending :: bool
  pri_message_age_timer_value :: timeval
  pri_forward_delay_timer_value :: timeval
  pri_hold_timer_value :: timeval

text \<open>The list from \<^verbatim>\<open>firstport\<close> on; \<^verbatim>\<open>parent\<close> is the bridge that has the port on its list.\<close>

record lib_port =
  lp_index :: nat
  lp_ifindex :: nat
  lp_info :: lib_port_info

record lib_bridge =
  lb_ifindex :: nat
  lb_ifname :: string
  lb_ports :: "lib_port list"
  lb_info :: lib_bridge_info

record fdb_entry =
  fe_mac_addr :: mac
  fe_port_no :: nat
  fe_is_local :: bool
  fe_ageing_timer_value :: timeval

record filter_entry =
  ue_src_mac_addr :: mac
  ue_dst_mac_addr :: mac
  ue_proto :: u16
  ue_access_type :: u8
  ue_frames_matched :: u32

text \<open>What variables on the stack and fresh memory hold before they are written.\<close>

record stack =
  st_bridge_info :: bridge_info
  st_port_info :: port_info
  st_ifindices :: "nat list"
  st_fdb :: "fdb_record list"
  st_filters :: "br_filter_entry list"
  st_fresh_port :: lib_port_info

text \<open>A buffer after the kernel has written the records \<open>xs\<close> to its start.\<close>

definition overlay :: "'a list \<Rightarrow> 'a list \<Rightarrow> 'a list" where
  "overlay xs buf = xs @ drop (length xs) buf"

section \<open>Calls to the kernel (libbridge_if.c, libbridge_devif.c)\<close>

definition lib_br_ioctl ::
    "host_env \<Rightarrow> brctl \<Rightarrow> u32 \<Rightarrow> u32 \<Rightarrow> string option \<Rightarrow> br_host \<Rightarrow> int \<times> ioctl_out \<times> br_host" where
  "lib_br_ioctl env arg0 arg1 arg2 buf h = sys_br_ioctl env arg0 arg1 arg2 buf h"

definition br_device_ioctl ::
    "host_env \<Rightarrow> lib_bridge \<Rightarrow> brctl \<Rightarrow> u32 \<Rightarrow> u32 \<Rightarrow> u32 \<Rightarrow> br_filter_entry option \<Rightarrow> br_host
       \<Rightarrow> int \<times> ioctl_out \<times> br_host" where
  "br_device_ioctl env br arg0 arg1 arg2 arg3 buf h =
     sys_dev_ioctl env (take IFNAMSIZ (lb_ifname br)) arg0 arg1 arg2 arg3 buf h"

text \<open>The result of a request that reads nothing: 0, or the error number.\<close>

definition request :: "int \<times> ioctl_out \<times> br_host \<Rightarrow> int \<times> br_host" where
  "request r = (case r of (ret, res, h) \<Rightarrow> (if ret < 0 then - ret else 0, h))"

definition br_get_version :: "host_env \<Rightarrow> br_host \<Rightarrow> int \<times> br_host" where
  "br_get_version env h = (case lib_br_ioctl env BRCTL_GET_VERSION 0 0 None h of (ret, res, h) \<Rightarrow> (ret, h))"

text \<open>
  \<^verbatim>\<open>memcpy\<close> takes 16 bytes of the name: a shorter one is copied with its NUL and with what follows it
  in memory, which nobody looks at.
\<close>

definition lib_br_add_bridge :: "host_env \<Rightarrow> string \<Rightarrow> br_host \<Rightarrow> int \<times> br_host" where
  "lib_br_add_bridge env brname h =
     request (lib_br_ioctl env BRCTL_ADD_BRIDGE 0 0 (Some (take IFNAMSIZ brname)) h)"

definition lib_br_del_bridge :: "host_env \<Rightarrow> string \<Rightarrow> br_host \<Rightarrow> int \<times> br_host" where
  "lib_br_del_bridge env brname h =
     request (lib_br_ioctl env BRCTL_DEL_BRIDGE 0 0 (Some (take IFNAMSIZ brname)) h)"

definition br_add_interface :: "host_env \<Rightarrow> lib_bridge \<Rightarrow> nat \<Rightarrow> br_host \<Rightarrow> int \<times> br_host" where
  "br_add_interface env br idx h = request (br_device_ioctl env br BRCTL_ADD_IF (of_nat idx) 0 0 None h)"

definition br_del_interface :: "host_env \<Rightarrow> lib_bridge \<Rightarrow> nat \<Rightarrow> br_host \<Rightarrow> int \<times> br_host" where
  "br_del_interface env br idx h = request (br_device_ioctl env br BRCTL_DEL_IF (of_nat idx) 0 0 None h)"

definition br_set_bridge_forward_delay :: "host_env \<Rightarrow> lib_bridge \<Rightarrow> timeval \<Rightarrow> br_host \<Rightarrow> int \<times> br_host" where
  "br_set_bridge_forward_delay env br tv h =
     request (br_device_ioctl env br BRCTL_SET_BRIDGE_FORWARD_DELAY (tv_to_jiffies tv) 0 0 None h)"

definition br_set_bridge_hello_time :: "host_env \<Rightarrow> lib_bridge \<Rightarrow> timeval \<Rightarrow> br_host \<Rightarrow> int \<times> br_host" where
  "br_set_bridge_hello_time env br tv h =
     request (br_device_ioctl env br BRCTL_SET_BRIDGE_HELLO_TIME (tv_to_jiffies tv) 0 0 None h)"

definition br_set_bridge_max_age :: "host_env \<Rightarrow> lib_bridge \<Rightarrow> timeval \<Rightarrow> br_host \<Rightarrow> int \<times> br_host" where
  "br_set_bridge_max_age env br tv h =
     request (br_device_ioctl env br BRCTL_SET_BRIDGE_MAX_AGE (tv_to_jiffies tv) 0 0 None h)"

definition br_set_ageing_time :: "host_env \<Rightarrow> lib_bridge \<Rightarrow> timeval \<Rightarrow> br_host \<Rightarrow> int \<times> br_host" where
  "br_set_ageing_time env br tv h =
     request (br_device_ioctl env br BRCTL_SET_AGEING_TIME (tv_to_jiffies tv) 0 0 None h)"

definition br_set_gc_interval :: "host_env \<Rightarrow> lib_bridge \<Rightarrow> timeval \<Rightarrow> br_host \<Rightarrow> int \<times> br_host" where
  "br_set_gc_interval env br tv h =
     request (br_device_ioctl env br BRCTL_SET_GC_INTERVAL (tv_to_jiffies tv) 0 0 None h)"

definition br_set_stp_state :: "host_env \<Rightarrow> lib_bridge \<Rightarrow> s32 \<Rightarrow> br_host \<Rightarrow> int \<times> br_host" where
  "br_set_stp_state env br stp_state h =
     request (br_device_ioctl env br BRCTL_SET_BRIDGE_STP_STATE stp_state 0 0 None h)"

definition br_set_bridge_priority :: "host_env \<Rightarrow> lib_bridge \<Rightarrow> s32 \<Rightarrow> br_host \<Rightarrow> int \<times> br_host" where
  "br_set_bridge_priority env br bridge_priority h =
     request (br_device_ioctl env br BRCTL_SET_BRIDGE_PRIORITY bridge_priority 0 0 None h)"

text \<open>For a port of the bridge \<open>br\<close>.\<close>

definition br_set_port_priority ::
    "host_env \<Rightarrow> lib_bridge \<Rightarrow> lib_port \<Rightarrow> s32 \<Rightarrow> br_host \<Rightarrow> int \<times> br_host" where
  "br_set_port_priority env br p port_priority h =
     request (br_device_ioctl env br BRCTL_SET_PORT_PRIORITY (of_nat (lp_index p)) port_priority 0 None h)"

definition br_set_path_cost ::
    "host_env \<Rightarrow> lib_bridge \<Rightarrow> lib_port \<Rightarrow> s32 \<Rightarrow> br_host \<Rightarrow> int \<times> br_host" where
  "br_set_path_cost env br p cost h =
     request (br_device_ioctl env br BRCTL_SET_PATH_COST (of_nat (lp_index p)) cost 0 None h)"

section \<open>Forwarding database\<close>

definition lib_copy_fdb :: "fdb_record \<Rightarrow> fdb_entry" where
  "lib_copy_fdb f =
     \<lparr>fe_mac_addr = mac_addr f, fe_port_no = fr_port_no f, fe_is_local = fr_is_local f,
      fe_ageing_timer_value = jiffies_to_tv (ageing_timer_value f)\<rparr>"

text \<open>
  The result is the number of entries read, or the error number, and the caller's array. The record
  the kernel reports is a prefix of the buffer, and the call returns its length.
\<close>

definition br_read_fdb ::
    "stack \<Rightarrow> host_env \<Rightarrow> lib_bridge \<Rightarrow> fdb_entry list \<Rightarrow> s32 \<Rightarrow> s32 \<Rightarrow> br_host \<Rightarrow> int \<times> fdb_entry list \<times> br_host" where
  "br_read_fdb st env br fdbs offset num h =
     (case br_device_ioctl env br BRCTL_GET_FDB_ENTRIES 0 num offset None h of
        (numread, res, h) \<Rightarrow>
          if numread < 0 then (- numread, fdbs, h)
          else
            (let f = (case res of Out_fdb rs \<Rightarrow> overlay rs (st_fdb st) | _ \<Rightarrow> st_fdb st)
             in (numread, overlay (map lib_copy_fdb (take (nat numread) f)) fdbs, h)))"

section \<open>Filter\<close>

definition copy_bf_entry :: "br_filter_entry \<Rightarrow> filter_entry" where
  "copy_bf_entry bf =
     \<lparr>ue_src_mac_addr = fe_src_mac_addr bf, ue_dst_mac_addr = fe_dst_mac_addr bf, ue_proto = fe_proto bf,
      ue_access_type = fe_access_type bf, ue_frames_matched = fe_frames_matched bf\<rparr>"

definition br_show_filter ::
    "stack \<Rightarrow> host_env \<Rightarrow> lib_bridge \<Rightarrow> filter_entry list \<Rightarrow> s32 \<Rightarrow> br_host \<Rightarrow> int \<times> filter_entry list \<times> br_host" where
  "br_show_filter st env br entry num h =
     (case br_device_ioctl env br BRCTL_SHOW_FILTER_ENTERIES 0 num 0 None h of
        (numread, res, h) \<Rightarrow>
          if numread < 0 then (- numread, entry, h)
          else
            (let bf = (case res of Out_filters fs \<Rightarrow> overlay fs (st_filters st) | _ \<Rightarrow> st_filters st)
             in (numread, overlay (map copy_bf_entry (take (nat numread) bf)) entry, h)))"

definition br_set_filter_state :: "host_env \<Rightarrow> lib_bridge \<Rightarrow> s32 \<Rightarrow> br_host \<Rightarrow> int \<times> br_host" where
  "br_set_filter_state env br filter_active h =
     request (br_device_ioctl env br BRCTL_SET_FILTER_STATE filter_active 0 0 None h)"

text \<open>
  The callers of the next two pass a \<^verbatim>\<open>struct filter_entry\<close>, which is cast to the kernel's
  \<^verbatim>\<open>struct __br_filter_entry\<close>. \<open>m\<close> are the bytes from its address to the end of the mapped memory; the
  kernel reads the 40 bytes of its own structure. A name that fills its ten bytes is taken to end there.
\<close>

definition byte_str :: "u8 list \<Rightarrow> string" where
  "byte_str bs = c_str (map (\<lambda>b. char_of (unat b)) bs)"

definition kernel_filter_view :: "u8 list \<Rightarrow> br_filter_entry option" where
  "kernel_filter_view m =
     (if length m < 40 then None
      else Some \<lparr>fe_sport = byte_str (take 10 m), fe_dport = byte_str (take 10 (drop 10 m)),
                 fe_src_mac_addr = mac_at m 20, fe_dst_mac_addr = mac_at m 26,
                 fe_proto = halfword (m ! 32) (m ! 33), fe_access_type = m ! 34,
                 fe_frames_matched = ucast (m ! 36) OR push_bit 8 (ucast (m ! 37))
                   OR push_bit 16 (ucast (m ! 38)) OR push_bit 24 (ucast (m ! 39))\<rparr>)"

definition br_set_filter_entry :: "host_env \<Rightarrow> lib_bridge \<Rightarrow> u8 list \<Rightarrow> br_host \<Rightarrow> int \<times> br_host" where
  "br_set_filter_entry env br m h =
     request (br_device_ioctl env br BRCTL_SET_FILTER_ENTRY 0 0 0 (kernel_filter_view m) h)"

definition lib_br_del_filter_entry :: "host_env \<Rightarrow> lib_bridge \<Rightarrow> u8 list \<Rightarrow> br_host \<Rightarrow> int \<times> br_host" where
  "lib_br_del_filter_entry env br m h =
     request (br_device_ioctl env br BRCTL_DELETE_FILTER_ENTRY 0 0 0 (kernel_filter_view m) h)"

definition lib_br_flush_filter :: "host_env \<Rightarrow> lib_bridge \<Rightarrow> br_host \<Rightarrow> int \<times> br_host" where
  "lib_br_flush_filter env br h = request (br_device_ioctl env br BRCTL_FLUSH_FILTER_ENTERIES 0 0 0 None h)"

section \<open>Reading the bridges (libbridge_init.c)\<close>

definition bridge_info_copy :: "lib_bridge_info \<Rightarrow> bridge_info \<Rightarrow> lib_bridge_info" where
  "bridge_info_copy info i =
     info\<lparr>bri_designated_root := bi_designated_root i, bri_bridge_id := bi_bridge_id i,
       bri_root_path_cost := bi_root_path_cost i, bri_topology_change := bi_topology_change i,
       bri_topology_change_detected := bi_topology_change_detected i,
       bri_root_port := bi_root_port i, bri_stp_enabled := bi_stp_enabled i,
       bri_max_age := jiffies_to_tv (bi_max_age i), bri_hello_time := jiffies_to_tv (bi_hello_time i),
       bri_forward_delay := jiffies_to_tv (bi_forward_delay i),
       bri_bridge_max_age := jiffies_to_tv (bi_bridge_max_age i),
       bri_bridge_hello_time := jiffies_to_tv (bi_bridge_hello_time i),
       bri_bridge_forward_delay := jiffies_to_tv (bi_bridge_forward_delay i),
       bri_ageing_time := jiffies_to_tv (bi_ageing_time i),
       bri_gc_interval := jiffies_to_tv (bi_gc_interval i),
       bri_hello_timer_value := jiffies_to_tv (bi_hello_timer_value i),
       bri_tcn_timer_value := jiffies_to_tv (bi_tcn_timer_value i),
       bri_topology_change_timer_value := jiffies_to_tv (bi_topology_change_timer_value i),
       bri_gc_timer_value := jiffies_to_tv (bi_gc_timer_value i)\<rparr>"

definition port_info_copy :: "port_info \<Rightarrow> lib_port_info" where
  "port_info_copy i =
     \<lparr>pri_designated_root = pi_designated_root i, pri_designated_bridge = pi_designated_bridge i,
      pri_port_id = pi_port_id i, pri_designated_port = pi_designated_port i,
      pri_path_cost = pi_path_cost i, pri_designated_cost = pi_designated_cost i,
      pri_state = pi_state i, pri_top_change_ack = pi_top_change_ack i,
      pri_config_pending = pi_config_pending i,
      pri_message_age_timer_value = jiffies_to_tv (pi_message_age_timer_value i),
      pri_forward_delay_timer_value = jiffies_to_tv (pi_forward_delay_timer_value i),
      pri_hold_timer_value = jiffies_to_tv (pi_hold_timer_value i)\<rparr>"

definition br_read_info :: "stack \<Rightarrow> host_env \<Rightarrow> lib_bridge \<Rightarrow> br_host \<Rightarrow> int \<times> lib_bridge \<times> br_host" where
  "br_read_info st env br h =
     (case if_indextoname (lb_ifindex br) h of
        None \<Rightarrow> (1, br, h)
      | Some name \<Rightarrow>
          (let br = br\<lparr>lb_ifname := name\<rparr>
           in case br_device_ioctl env br BRCTL_GET_BRIDGE_INFO 0 0 0 None h of
                (ret, res, h) \<Rightarrow>
                  if ret < 0 then (1, br, h)
                  else
                    (let i = (case res of Out_bridge i \<Rightarrow> i | _ \<Rightarrow> st_bridge_info st)
                     in (0, br\<lparr>lb_info := bridge_info_copy (lb_info br) i\<rparr>, h))))"

definition br_read_port_info ::
    "stack \<Rightarrow> host_env \<Rightarrow> lib_bridge \<Rightarrow> lib_port \<Rightarrow> br_host \<Rightarrow> int \<times> lib_port \<times> br_host" where
  "br_read_port_info st env br p h =
     (case br_device_ioctl env br BRCTL_GET_PORT_INFO 0 (of_nat (lp_index p)) 0 None h of
        (ret, res, h) \<Rightarrow>
          if ret < 0 then (- ret, p, h)
          else
            (let i = (case res of Out_port i \<Rightarrow> i | _ \<Rightarrow> st_port_info st)
             in (0, p\<lparr>lp_info := port_info_copy i\<rparr>, h)))"

text \<open>The loop of \<^verbatim>\<open>br_make_port_list\<close> from the index below \<open>n\<close> down to 0.\<close>

fun make_ports ::
    "stack \<Rightarrow> host_env \<Rightarrow> nat list \<Rightarrow> nat \<Rightarrow> lib_bridge \<Rightarrow> br_host \<Rightarrow> int \<times> lib_bridge \<times> br_host" where
  "make_ports st env ifindices 0 br h = (0, br, h)"
| "make_ports st env ifindices (Suc i) br h =
     (if ifindices ! i = 0 then make_ports st env ifindices i br h
      else
        (let p = \<lparr>lp_index = i, lp_ifindex = ifindices ! i, lp_info = st_fresh_port st\<rparr>
         in case br_read_port_info st env br p h of
              (err, p, h) \<Rightarrow>
                (let br = br\<lparr>lb_ports := p # lb_ports br\<rparr>
                 in if err \<noteq> 0 then (err, br, h) else make_ports st env ifindices i br h)))"

definition br_make_port_list :: "stack \<Rightarrow> host_env \<Rightarrow> lib_bridge \<Rightarrow> br_host \<Rightarrow> int \<times> lib_bridge \<times> br_host" where
  "br_make_port_list st env br h =
     (case br_device_ioctl env br BRCTL_GET_PORT_LIST 0 0 0 None h of
        (ret, res, h) \<Rightarrow>
          if ret < 0 then (- ret, br, h)
          else
            (let ifindices = (case res of Out_indices xs \<Rightarrow> overlay xs (st_ifindices st) | _ \<Rightarrow> st_ifindices st)
             in make_ports st env ifindices 256 br h))"

text \<open>
  When the information of a port cannot be read, \<^verbatim>\<open>br_make_port_list\<close> frees the ports it read before and
  leaves them on the list; its caller walks the list and frees them again.
\<close>

definition freed_twice :: "lib_bridge \<Rightarrow> bool" where
  "freed_twice br \<longleftrightarrow> 1 < length (lb_ports br)"

definition zero_tv :: timeval where
  "zero_tv = \<lparr>tv_sec = 0, tv_usec = 0\<rparr>"

definition zero_bridge_info :: lib_bridge_info where
  "zero_bridge_info =
     \<lparr>bri_designated_root = zero_bid, bri_bridge_id = zero_bid, bri_root_path_cost = 0,
      bri_max_age = zero_tv, bri_hello_time = zero_tv, bri_forward_delay = zero_tv,
      bri_bridge_max_age = zero_tv, bri_bridge_hello_time = zero_tv, bri_bridge_forward_delay = zero_tv,
      bri_topology_change = False, bri_topology_change_detected = False, bri_root_port = 0,
      bri_stp_enabled = False, bri_ageing_time = zero_tv, bri_gc_interval = zero_tv,
      bri_hello_timer_value = zero_tv, bri_tcn_timer_value = zero_tv,
      bri_topology_change_timer_value = zero_tv, bri_gc_timer_value = zero_tv,
      bri_br_filter_active = False\<rparr>"

text \<open>The loop of \<^verbatim>\<open>br_make_bridge_list\<close>; the result \<open>None\<close> is a heap with blocks freed twice.\<close>

fun make_bridges ::
    "stack \<Rightarrow> host_env \<Rightarrow> nat list \<Rightarrow> lib_bridge list \<Rightarrow> br_host \<Rightarrow> (int \<times> lib_bridge list \<times> br_host) option" where
  "make_bridges st env [] bl h = Some (0, bl, h)"
| "make_bridges st env (i # is) bl h =
     (let br = \<lparr>lb_ifindex = i, lb_ifname = [], lb_ports = [], lb_info = zero_bridge_info\<rparr>
      in case br_read_info st env br h of
           (err, br, h) \<Rightarrow>
             if err \<noteq> 0 then Some (err, [], h)
             else
               (case br_make_port_list st env br h of
                  (err, br, h) \<Rightarrow>
                    if err \<noteq> 0 then (if freed_twice br then None else Some (err, [], h))
                    else make_bridges st env is (br # bl) h))"

text \<open>
  \<^verbatim>\<open>bridge_list\<close> is \<open>None\<close> when it points at bridges that have been freed, where it stays when the first
  call fails.
\<close>

definition br_make_bridge_list ::
    "stack \<Rightarrow> host_env \<Rightarrow> lib_bridge list option \<Rightarrow> br_host \<Rightarrow> (int \<times> lib_bridge list option \<times> br_host) option" where
  "br_make_bridge_list st env bridge_list h =
     (case lib_br_ioctl env BRCTL_GET_BRIDGES 0 32 None h of
        (num, res, h) \<Rightarrow>
          if num < 0 then Some (- num, bridge_list, h)
          else
            (let ifindices = (case res of Out_indices xs \<Rightarrow> overlay xs (st_ifindices st) | _ \<Rightarrow> st_ifindices st)
             in map_option (\<lambda>(err, bl, h). (err, Some bl, h))
                  (make_bridges st env (take (nat num) ifindices) [] h)))"

definition BRCTL_VERSION :: int where "BRCTL_VERSION = 1"

definition br_init :: "stack \<Rightarrow> host_env \<Rightarrow> br_host \<Rightarrow> (int \<times> lib_bridge list option \<times> br_host) option" where
  "br_init st env h =
     (case br_get_version env h of
        (v, h) \<Rightarrow>
          if v \<noteq> BRCTL_VERSION then Some (12345, Some [], h)
          else br_make_bridge_list st env (Some []) h)"

text \<open>\<^verbatim>\<open>br_refresh\<close>, with a list of live bridges: all are freed first.\<close>

definition br_refresh ::
    "stack \<Rightarrow> host_env \<Rightarrow> lib_bridge list \<Rightarrow> br_host \<Rightarrow> (int \<times> lib_bridge list option \<times> br_host) option" where
  "br_refresh st env bridge_list h =
     br_make_bridge_list st env (if bridge_list = [] then Some [] else None) h"

section \<open>Looking up\<close>

definition br_find_bridge :: "string \<Rightarrow> lib_bridge list \<Rightarrow> lib_bridge option" where
  "br_find_bridge brname bridge_list = find (\<lambda>b. strcmp (lb_ifname b) brname = 0) bridge_list"

text \<open>The index of the interface goes through a variable of type \<^verbatim>\<open>char\<close>, which is signed.\<close>

definition br_find_port :: "lib_bridge \<Rightarrow> string \<Rightarrow> br_host \<Rightarrow> lib_port option" where
  "br_find_port br portname h =
     (let index = of_nat (if_nametoindex portname h) :: u8
      in if index = 0 then None
         else find (\<lambda>p. int (lp_ifindex p) = sint index) (lb_ports br))"

section \<open>Times\<close>

lemma ucast_minus_scast: "(ucast (u - scast w :: u64) :: s32) = ucast u - w"
proof (transfer)
  fix u w :: int
  have cong: "take_bit 32 (a - b) = take_bit 32 (a' - b')"
    if "take_bit 32 a = take_bit 32 a'" "take_bit 32 b = take_bit 32 b'" for a b a' b' :: int
    by (metis take_bit_diff that)
  have "take_bit 32 (u - signed_take_bit 31 w) = take_bit 32 (take_bit 64 u - w)"
    by (rule cong) (simp_all add: take_bit_signed_take_bit)
  then show "take_bit LENGTH(32) (take_bit LENGTH(64) (u - signed_take_bit (LENGTH(32) - Suc 0) w)) = take_bit LENGTH(32) (take_bit LENGTH(64) u - w)"
    by simp
qed

lemma ucast_of_unat: "unat w = n \<Longrightarrow> ucast w = word_of_nat n"
  by (metis of_nat_unat ucast_id unsigned_of_nat)

lemma jiffies_to_tv_eq:
  "jiffies_to_tv j = \<lparr>tv_sec = word_of_nat (unat j div 100), tv_usec = word_of_nat (unat j mod 100 * 10000)\<rparr>"
proof -
  define u :: u64 where "u = (1000000 * ucast j) div 100"
  have small: "unat j < 4294967296" using unsigned_less [of j] by simp
  have "unat (1000000 * ucast j :: u64) = 1000000 * unat j"
    using small by (simp add: unat_word_ariths unsigned_ucast_eq take_bit_nat_eq_self)
  then have u: "unat u = unat j * 10000" by (simp add: u_def unat_div)
  have "unat (u div 1000000) = unat j div 100" by (simp add: unat_div u)
  then have sec: "(ucast (u div 1000000) :: s32) = word_of_nat (unat j div 100)"
    by (rule ucast_of_unat)
  have usec: "(ucast u :: s32) = word_of_nat (unat j * 10000)"
    by (rule ucast_of_unat [OF u])
  have "(q * 100 + r) * 10000 = 1000000 * q + r * 10000" for q r :: nat by simp
  from this [of "unat j div 100" "unat j mod 100"]
  have "unat j * 10000 = 1000000 * (unat j div 100) + unat j mod 100 * 10000" by (simp only: div_mult_mod_eq)
  from arg_cong [OF this, of "word_of_nat :: _ \<Rightarrow> s32"]
  have "(word_of_nat (unat j * 10000) - 1000000 * word_of_nat (unat j div 100) :: s32) = word_of_nat (unat j mod 100 * 10000)"
    by (simp only: of_nat_add of_nat_mult of_nat_numeral add_diff_cancel_left')
  then show ?thesis
    by (simp add: jiffies_to_tv_def Let_def HZ_def u_def [symmetric] ucast_minus_scast sec usec)
qed

lemma scast_small: "n < 2147483648 \<Longrightarrow> (scast (word_of_nat n :: s32) :: u64) = word_of_nat n"
  by (simp add: scast_eq sint_uint uint_nat signed_take_bit_int_eq_self take_bit_nat_eq_self unat_of_nat)

text \<open>The number of jiffies of a time of day, for times that are not negative.\<close>

lemma tv_to_jiffies_eq:
  assumes "s < 2147483648" "us < 2147483648"
  shows "tv_to_jiffies \<lparr>tv_sec = word_of_nat s, tv_usec = word_of_nat us\<rparr> = word_of_nat (100 * s + us div 10000)"
proof -
  let ?j = "1000000 * word_of_nat s + word_of_nat us :: u64"
  have "100 * ?j = word_of_nat (100 * (1000000 * s + us))" by simp
  moreover have "100 * (1000000 * s + us) < 2 ^ LENGTH(64)" using assms by simp
  ultimately have "unat (100 * ?j) = 100 * (1000000 * s + us)"
    by (metis unat_of_nat mod_less)
  moreover have "100 * (1000000 * s + us) div 1000000 = 100 * s + us div 10000"
    using div_mult2_eq [of "100 * (1000000 * s + us)" 100 10000] by simp
  ultimately have "unat ((100 * ?j) div 1000000) = 100 * s + us div 10000"
    by (simp add: unat_div)
  from ucast_of_unat [OF this] show ?thesis
    by (simp add: tv_to_jiffies_def Let_def HZ_def scast_small assms)
qed

lemma tv_to_jiffies_to_tv: "tv_to_jiffies (jiffies_to_tv j) = j"
proof -
  have "unat j < 4294967296" using unsigned_less [of j] by simp
  then have "tv_to_jiffies (jiffies_to_tv j) = word_of_nat (100 * (unat j div 100) + unat j mod 100 * 10000 div 10000)"
    unfolding jiffies_to_tv_eq by (intro tv_to_jiffies_eq) simp_all
  also have "100 * (unat j div 100) + unat j mod 100 * 10000 div 10000 = unat j" by simp
  finally show ?thesis by simp
qed

section \<open>The library's view of the bridges\<close>

text \<open>What the copy of a port and of a bridge should be.\<close>

definition port_view :: "u32 \<Rightarrow> net_bridge_port \<Rightarrow> lib_port" where
  "port_view j pt =
     \<lparr>lp_index = port_no pt, lp_ifindex = ifindex (p_dev pt), lp_info = port_info_copy (br_port_info j pt)\<rparr>"

definition ports_below :: "u32 \<Rightarrow> net_bridge \<Rightarrow> nat \<Rightarrow> lib_port list" where
  "ports_below j br n = List.map_filter (\<lambda>i. map_option (port_view j) (br_get_port br i)) [0..<n]"

definition bridge_view :: "u32 \<Rightarrow> net_bridge \<Rightarrow> lib_bridge" where
  "bridge_view j br =
     \<lparr>lb_ifindex = ifindex (br_dev br), lb_ifname = dev_name (br_dev br), lb_ports = ports_below j br 256,
      lb_info = bridge_info_copy zero_bridge_info (br_bridge_info j br)\<rparr>"

lemma ports_below_Suc:
  "ports_below j br (Suc i) =
     ports_below j br i @ (case br_get_port br i of Some pt \<Rightarrow> [port_view j pt] | None \<Rightarrow> [])"
  by (simp add: ports_below_def map_filter_def split: option.split)

lemma br_read_port_info_ok:
  assumes "ctl_bridge env (take IFNAMSIZ (lb_ifname lb)) h = Some br" "br_get_port br (lp_index p) = Some pt" "lp_index p < 256"
  shows "br_read_port_info st env lb p h = (0, p\<lparr>lp_info := port_info_copy (br_port_info (he_jiffies env) pt)\<rparr>, h)"
proof -
  have "unat (word_of_nat (lp_index p) :: u32) = lp_index p" using assms(3) by (simp add: unat_of_nat)
  then show ?thesis
    using ctl.get_port_info [OF assms(1), of "word_of_nat (lp_index p)" pt 0 0 None] assms(2)
    by (simp add: br_read_port_info_def br_device_ioctl_def)
qed

lemma make_ports_ok:
  assumes "ctl_bridge env (take IFNAMSIZ (lb_ifname lb)) h = Some br" "n \<le> 256"
    and idx: "\<And>i. i < 256 \<Longrightarrow> ifindices ! i = (case br_get_port br i of Some p \<Rightarrow> ifindex (p_dev p) | None \<Rightarrow> 0)"
    and nz: "\<forall>p\<in>set (port_list br). ifindex (p_dev p) \<noteq> 0"
  shows "make_ports st env ifindices n lb h = (0, lb\<lparr>lb_ports := ports_below (he_jiffies env) br n @ lb_ports lb\<rparr>, h)"
  using assms(1,2)
proof (induction n arbitrary: lb)
  case 0
  then show ?case by (simp add: ports_below_def map_filter_def)
next
  case (Suc i)
  show ?case
  proof (cases "br_get_port br i")
    case None
    then show ?thesis using Suc idx [of i] by (simp add: ports_below_Suc)
  next
    case (Some pt)
    then have pt: "pt \<in> set (port_list br)" "port_no pt = i" by (auto simp: br_get_port_def find_Some_iff)
    have "br_read_port_info st env lb \<lparr>lp_index = i, lp_ifindex = ifindex (p_dev pt), lp_info = st_fresh_port st\<rparr> h
        = (0, port_view (he_jiffies env) pt, h)"
      using Suc.prems Some pt(2) by (subst br_read_port_info_ok) (simp_all add: port_view_def)
    moreover have "ifindex (p_dev pt) \<noteq> 0" using nz pt(1) by blast
    ultimately show ?thesis
      using Suc idx [of i] Some by (simp add: ports_below_Suc)
  qed
qed

lemma br_make_port_list_ok:
  assumes "ctl_bridge env (take IFNAMSIZ (lb_ifname lb)) h = Some br" "distinct (port_nos br)"
    "\<forall>p\<in>set (port_list br). ifindex (p_dev p) \<noteq> 0" "lb_ports lb = []"
  shows "br_make_port_list st env lb h = (0, lb\<lparr>lb_ports := ports_below (he_jiffies env) br 256\<rparr>, h)"
proof -
  let ?xs = "overlay (br_get_port_ifindices br (replicate 256 0)) (st_ifindices st)"
  have "?xs ! i = (case br_get_port br i of Some p \<Rightarrow> ifindex (p_dev p) | None \<Rightarrow> 0)" if "i < 256" for i
    using port_ifindices_nth [OF that assms(2)] that by (simp add: overlay_def nth_append)
  then have "make_ports st env ?xs 256 lb h = (0, lb\<lparr>lb_ports := ports_below (he_jiffies env) br 256\<rparr>, h)"
    using make_ports_ok [OF assms(1) order_refl _ assms(3), of ?xs st] assms(4) by simp
  then show ?thesis
    by (simp add: br_make_port_list_def br_device_ioctl_def ctl.get_port_list [OF assms(1)])
qed

lemma make_bridges_ok:
  assumes "host_ok h" "he_capable env" "set brs \<subseteq> set (host_bridges h)"
  shows "make_bridges st env (map (\<lambda>br. ifindex (br_dev br)) brs) bl h
    = Some (0, rev (map (bridge_view (he_jiffies env)) brs) @ bl, h)"
  using assms(3)
proof (induction brs arbitrary: bl)
  case (Cons br brs)
  let ?lb = "\<lparr>lb_ifindex = ifindex (br_dev br), lb_ifname = [], lb_ports = [], lb_info = zero_bridge_info\<rparr>"
  let ?lb' = "?lb\<lparr>lb_ifname := dev_name (br_dev br), lb_info := bridge_info_copy zero_bridge_info (br_bridge_info (he_jiffies env) br)\<rparr>"
  have br: "br \<in> set (host_bridges h)" using Cons.prems by simp
  have good: "good_name (dev_name (br_dev br))" by (rule host_dev(1) [OF assms(1) bridge_dev [OF assms(1) br]])
  have at: "ctl_bridge env (dev_name (br_dev br)) h = Some br" by (rule ctl_bridge_ok [OF assms(1,2) br])
  have "br_read_info st env ?lb h = (0, ?lb', h)"
    by (simp add: br_read_info_def if_indextoname_bridge [OF assms(1) br] br_device_ioctl_def good ctl.get_info [OF at])
  moreover have "br_make_port_list st env ?lb' h = (0, bridge_view (he_jiffies env) br, h)"
    using br_make_port_list_ok [of env ?lb' h br st] at good host_ports [OF assms(1) br] by (simp add: bridge_view_def)
  ultimately show ?case using Cons.IH Cons.prems by simp
qed simp

lemma br_init_ok:
  assumes "host_ok h" "he_capable env" "length (host_bridges h) \<le> 32"
  shows "br_init st env h = Some (0, Some (rev (map (bridge_view (he_jiffies env)) (host_bridges h))), h)"
proof -
  have "unat (min 32 64 :: u32) = 32" by simp
  then have "lib_br_ioctl env BRCTL_GET_BRIDGES 0 32 None h =
      (int (length (host_bridges h)), Out_indices (map (\<lambda>br. ifindex (br_dev br)) (host_bridges h)), h)"
    using assms by (simp add: lib_br_ioctl_def sys_br_ioctl_def br_ioctl_deviceless_stub_def io_env_def
        br_get_bridge_ifindices_def Let_def nobody_gone [OF gone_same])
  then show ?thesis
    using assms make_bridges_ok [OF assms(1,2) order_refl, of st "[]"]
    by (simp add: br_init_def br_get_version_def lib_br_ioctl_def sys_br_ioctl_def br_ioctl_deviceless_stub_def
        BRCTL_VERSION_def nobody_gone [OF gone_same] br_make_bridge_list_def overlay_def)
qed

section \<open>Reading changes nothing\<close>

lemma br_device_ioctl_reads:
  "reading_cmd cmd \<Longrightarrow> br_device_ioctl env br cmd a0 a1 a2 f h = (ret, res, h') \<Longrightarrow> h' = h"
  unfolding br_device_ioctl_def by (rule sys_dev_ioctl_reads)

lemma br_read_info_reads: "br_read_info st env br h = (err, br', h') \<Longrightarrow> h' = h"
  using br_device_ioctl_reads [of BRCTL_GET_BRIDGE_INFO]
  by (auto simp: br_read_info_def reading_cmd_def Let_def split: option.splits prod.splits if_splits)

lemma br_read_port_info_reads: "br_read_port_info st env br p h = (err, p', h') \<Longrightarrow> h' = h"
  using br_device_ioctl_reads [of BRCTL_GET_PORT_INFO]
  by (auto simp: br_read_port_info_def reading_cmd_def Let_def split: prod.splits if_splits)

lemma make_ports_reads: "make_ports st env ifindices n br h = (err, br', h') \<Longrightarrow> h' = h"
proof (induction n arbitrary: br h)
  case (Suc i)
  then show ?case by (auto simp: Let_def split: prod.splits if_splits dest: br_read_port_info_reads)
qed simp

lemma br_make_port_list_reads: "br_make_port_list st env br h = (err, br', h') \<Longrightarrow> h' = h"
  using br_device_ioctl_reads [of BRCTL_GET_PORT_LIST]
  by (auto simp: br_make_port_list_def reading_cmd_def Let_def split: prod.splits if_splits dest: make_ports_reads)

lemma make_bridges_reads: "make_bridges st env is bl h = Some (err, bl', h') \<Longrightarrow> h' = h"
proof (induction "is" arbitrary: bl h)
  case (Cons i "is")
  then show ?case
    by (auto simp: Let_def split: prod.splits if_splits dest: br_read_info_reads br_make_port_list_reads)
qed simp

lemma br_init_reads: "br_init st env h = Some (err, bl, h') \<Longrightarrow> h' = h"
  by (auto simp: br_init_def br_get_version_def br_make_bridge_list_def lib_br_ioctl_def Let_def
      split: prod.splits if_splits
      dest!: make_bridges_reads sys_br_ioctl_reads [of BRCTL_GET_VERSION, OF disjI1 [OF refl]]
        sys_br_ioctl_reads [of BRCTL_GET_BRIDGES, OF disjI2 [OF refl]])

lemma br_read_fdb_reads: "br_read_fdb st env br fdbs offset num h = (n, fdbs', h') \<Longrightarrow> h' = h"
  using br_device_ioctl_reads [of BRCTL_GET_FDB_ENTRIES]
  by (auto simp: br_read_fdb_def reading_cmd_def Let_def split: prod.splits if_splits)

section \<open>Finding a bridge\<close>

lemma lb_ifname_view [simp]: "lb_ifname (bridge_view j br) = dev_name (br_dev br)"
  by (simp add: bridge_view_def)

lemma br_find_bridge_ok:
  assumes "host_ok h" "br \<in> set (host_bridges h)"
  shows "br_find_bridge (dev_name (br_dev br)) (rev (map (bridge_view j) (host_bridges h))) = Some (bridge_view j br)"
proof -
  let ?bl = "rev (map (bridge_view j) (host_bridges h))"
  have good: "good_name (dev_name (br_dev b))" if "b \<in> set (host_bridges h)" for b
    by (rule host_dev(1) [OF assms(1) bridge_dev [OF assms(1) that]])
  have "br_find_bridge (dev_name (br_dev br)) ?bl = find (\<lambda>b. lb_ifname b = lb_ifname (bridge_view j br)) ?bl"
    unfolding br_find_bridge_def using good [OF assms(2)] by (intro find_cong) (auto simp: good)
  also have "\<dots> = Some (bridge_view j br)"
  proof (rule find_key_in)
    show "distinct (map lb_ifname ?bl)"
      using assms(1) all_devs_ok [OF assms(1)] by (simp add: host_ok_def comp_def rev_map [symmetric])
  qed (use assms(2) in simp)
  finally show ?thesis .
qed

end
