(* ===== verification/Br_Ctl.thy ===== *)
theory Br_Ctl
  imports Complex_Main Br_Lib "HOL-Library.Signed_Division" "HOL-Library.Log_Nat" "HOL-Library.Multiset"
begin

text \<open>
  The bridge control utility (bridge-utils-0.9.5/brctl): the commands of brctl_cmd.c with what they print
  (brctl_disp.c) and the main program of brctl.c. A program runs on the state of the machine and writes to
  its two output streams.
\<close>

section \<open>What the commands use of the C library\<close>

text \<open>A null pointer is printed as \<^verbatim>\<open>(null)\<close>.\<close>

definition fmt_s :: "string option \<Rightarrow> string" where
  "fmt_s s = (case s of Some s \<Rightarrow> s | None \<Rightarrow> ''(null)'')"

definition tabs :: "nat \<Rightarrow> string" where "tabs n = replicate n (CHR 0x09)"

text \<open>
  \<^verbatim>\<open>strtol\<close> in base 10 and, for the conversion \<^verbatim>\<open>%i\<close>, with the base told by the prefix; a value outside
  the range of the result is clamped.
\<close>

definition c_isspace :: "char \<Rightarrow> bool" where
  "c_isspace c \<longleftrightarrow> of_char c \<in> {9, 10, 11, 12, 13, 32 :: nat}"

definition digit_val :: "char \<Rightarrow> nat" where
  "digit_val c =
     (let n = of_char c
      in if 48 \<le> n \<and> n \<le> 57 then n - 48 else if 97 \<le> n \<and> n \<le> 122 then n - 87
         else if 65 \<le> n \<and> n \<le> 90 then n - 55 else 99)"

definition strtol :: "bool \<Rightarrow> string \<Rightarrow> s32 option" where
  "strtol any_base s =
     (let s = dropWhile c_isspace s;
          negative = (s \<noteq> [] \<and> hd s = CHR ''-'');
          s = (if s \<noteq> [] \<and> (hd s = CHR ''-'' \<or> hd s = CHR ''+'') then tl s else s);
          hex = any_base \<and> length s > 2 \<and> hd s = CHR ''0'' \<and> (s ! 1 = CHR ''x'' \<or> s ! 1 = CHR ''X'')
                  \<and> digit_val (s ! 2) < 16;
          base = (if hex then 16 else if any_base \<and> s \<noteq> [] \<and> hd s = CHR ''0'' then 8 else 10);
          ds = takeWhile (\<lambda>c. digit_val c < base) (if hex then drop 2 s else s);
          v = int (foldl (\<lambda>v c. v * base + digit_val c) 0 ds)
      in if ds = [] then None
         else Some (word_of_int (max (- (2 ^ 31)) (min (2 ^ 31 - 1) (if negative then - v else v)))))"

definition atoi :: "string \<Rightarrow> s32" where
  "atoi s = (case strtol False s of Some v \<Rightarrow> v | None \<Rightarrow> 0)"

text \<open>The tokens \<^verbatim>\<open>strtok\<close> finds: the non-empty parts between delimiters.\<close>

function strtok :: "char \<Rightarrow> string \<Rightarrow> string list" where
  "strtok d s =
     (let s = dropWhile (\<lambda>c. c = d) s
      in if s = [] then [] else takeWhile (\<lambda>c. c \<noteq> d) s # strtok d (dropWhile (\<lambda>c. c \<noteq> d) s))"
  by pat_completeness auto

termination
proof (relation "measure (length \<circ> snd)")
  fix d :: char and s x assume x: "x = dropWhile (\<lambda>c. c = d) s" "x \<noteq> []"
  then have "hd x \<noteq> d" using hd_dropWhile [of "\<lambda>c. c = d" s] by simp
  then have "length (dropWhile (\<lambda>c. c \<noteq> d) x) < length x"
    using x(2) by (cases x) (simp_all add: le_imp_less_Suc length_dropWhile_le)
  moreover have "length x \<le> length s" using x(1) by (simp add: length_dropWhile_le)
  ultimately show "((d, dropWhile (\<lambda>c. c \<noteq> d) x), d, s) \<in> measure (length \<circ> snd)" by simp
qed simp

declare strtok.simps [simp del]

text \<open>\<^verbatim>\<open>qsort\<close>; elements that compare equal may come in any order in C, here they keep theirs.\<close>

fun insert_by :: "('a \<Rightarrow> 'a \<Rightarrow> int) \<Rightarrow> 'a \<Rightarrow> 'a list \<Rightarrow> 'a list" where
  "insert_by cmp x [] = [x]"
| "insert_by cmp x (y # ys) = (if cmp x y \<le> 0 then x # y # ys else y # insert_by cmp x ys)"

definition qsort :: "('a \<Rightarrow> 'a \<Rightarrow> int) \<Rightarrow> 'a list \<Rightarrow> 'a list" where
  "qsort cmp xs = foldr (insert_by cmp) xs []"

subsection \<open>Floating point\<close>

text \<open>
  A number of type \<^verbatim>\<open>double\<close> is the rational it stands for. The result of an operation is rounded to 53
  significant bits, to even on a tie; overflow and subnormal results do not occur on times. The
  conversion to an integer truncates.
\<close>

definition round_half_even :: "rat \<Rightarrow> int" where
  "round_half_even r =
     (let f = \<lfloor>r\<rfloor>; d = r - of_int f
      in if d < 1/2 \<or> (d = 1/2 \<and> even f) then f else f + 1)"

definition scale :: "rat \<Rightarrow> int \<Rightarrow> rat" where
  "scale r e = (if 0 \<le> e then r * 2 ^ nat e else r / 2 ^ nat (- e))"

definition double_exp :: "rat \<Rightarrow> int" where
  "double_exp r =
     (let (p, q) = quotient_of \<bar>r\<bar>;
          k = bitlen p - bitlen q
      in if scale 1 k \<le> \<bar>r\<bar> then k else k - 1)"

definition double_round :: "rat \<Rightarrow> rat" where
  "double_round r =
     (if r = 0 then 0
      else let e = double_exp r - 52 in scale (of_int (round_half_even (scale r (- e)))) e)"

definition double_to_long :: "rat \<Rightarrow> s32" where
  "double_to_long r = word_of_int (if 0 \<le> r then \<lfloor>r\<rfloor> else \<lceil>r\<rceil>)"

definition secs_to_tv :: "rat \<Rightarrow> timeval" where
  "secs_to_tv secs =
     (let sec = double_to_long secs
      in \<lparr>tv_sec = sec,
          tv_usec = double_to_long (double_round (1000000 * double_round (secs - of_int (sint sec))))\<rparr>)"

section \<open>The process\<close>

text \<open>
  Around the process: the kernel's part, memory that is read before it is written, the conversion \<^verbatim>\<open>%lf\<close> of
  \<^verbatim>\<open>sscanf\<close> and the texts of the error numbers. \<open>ce_filter_mem\<close> is the memory from the address in the
  pointer \<^verbatim>\<open>br_filter\<close>, which is never set, to the end of the mapping.
\<close>

record ctl_env =
  ce_host :: host_env
  ce_stack :: stack
  ce_scan_lf :: "string \<Rightarrow> rat option"
  ce_strerror :: "int \<Rightarrow> string"
  ce_secs :: rat
  ce_int :: s32
  ce_fdb :: "fdb_entry list"
  ce_filters :: "filter_entry list"
  ce_filter_mem :: "u8 list"

record proc =
  out_text :: string
  err_text :: string
  bridge_list :: "lib_bridge list"
  kern :: br_host

text \<open>A process returns from \<^verbatim>\<open>main\<close> or is killed for a bad access.\<close>

datatype ending = Exit int | Killed

definition printf :: "string list \<Rightarrow> proc \<Rightarrow> proc" where
  "printf ss p = p\<lparr>out_text := out_text p @ concat ss\<rparr>"

definition eprintf :: "string list \<Rightarrow> proc \<Rightarrow> proc" where
  "eprintf ss p = p\<lparr>err_text := err_text p @ concat ss\<rparr>"

definition perror :: "ctl_env \<Rightarrow> string \<Rightarrow> int \<Rightarrow> proc \<Rightarrow> proc" where
  "perror e s err p = eprintf [s, '': '', ce_strerror e err, nl] p"

section \<open>Display (brctl_disp.c)\<close>

definition br_dump_bridge_id :: "bridge_id \<Rightarrow> string" where
  "br_dump_bridge_id x =
     (let b = (\<lambda>i. fmt_x 2 (unat (bid_bytes x ! i)))
      in b 0 @ b 1 @ ''.'' @ b 2 @ b 3 @ b 4 @ b 5 @ b 6 @ b 7)"

definition br_show_timer :: "timeval \<Rightarrow> string" where
  "br_show_timer tv = fmt_i 4 1 (sint (tv_sec tv)) @ ''.'' @ fmt_i 0 2 (sint (tv_usec tv) sdiv 10000)"

definition br_dump_interface_list :: "br_host \<Rightarrow> lib_bridge \<Rightarrow> string" where
  "br_dump_interface_list h br =
     (case lb_ports br of
        [] \<Rightarrow> nl
      | p # ps \<Rightarrow>
          fmt_s (if_indextoname (lp_ifindex p) h) @ nl @
          concat (map (\<lambda>p. tabs 7 @ fmt_s (if_indextoname (lp_ifindex p) h) @ nl) ps))"

definition br_dump_port_info :: "br_host \<Rightarrow> lib_port \<Rightarrow> string" where
  "br_dump_port_info h p =
     (let info = lp_info p
      in concat
        [fmt_s (if_indextoname (lp_ifindex p) h), '' ('', fmt_i 0 1 (int (lp_index p)), '')'', nl,
         '' port id'', tabs 2, fmt_x 4 (unat (pri_port_id info)), tabs 3,
         ''state'', tabs 3, br_get_state_name (sint (pri_state info)), nl,
         '' designated root'', tabs 1, br_dump_bridge_id (pri_designated_root info),
         tabs 1, ''path cost'', tabs 2, fmt_i 4 1 (sint (pri_path_cost info)), nl,
         '' designated bridge'', tabs 1, br_dump_bridge_id (pri_designated_bridge info),
         tabs 1, ''message age timer'', tabs 1, br_show_timer (pri_message_age_timer_value info),
         nl, '' designated port'', tabs 1, fmt_x 4 (unat (pri_designated_port info)),
         tabs 3, ''forward delay timer'', tabs 1, br_show_timer (pri_forward_delay_timer_value info),
         nl, '' designated cost'', tabs 1, fmt_i 4 1 (sint (pri_designated_cost info)),
         tabs 3, ''hold timer'', tabs 2, br_show_timer (pri_hold_timer_value info),
         nl, '' flags'', tabs 3,
         if pri_config_pending info then ''CONFIG_PENDING '' else '''',
         if pri_top_change_ack info then ''TOPOLOGY_CHANGE_ACK '' else '''', nl, nl])"

definition br_dump_info :: "br_host \<Rightarrow> lib_bridge \<Rightarrow> string" where
  "br_dump_info h br =
     (let bri = lb_info br
      in lb_ifname br @ nl @
        (if \<not> bri_stp_enabled bri then '' STP is disabled for this interface'' @ nl
         else concat
          ([ '' bridge id'', tabs 2, br_dump_bridge_id (bri_bridge_id bri),
            nl, '' designated root'', tabs 1, br_dump_bridge_id (bri_designated_root bri),
            nl, '' root port'', tabs 2, fmt_i 4 1 (int (bri_root_port bri)), tabs 3,
            ''path cost'', tabs 2, fmt_i 4 1 (sint (bri_root_path_cost bri)), nl,
            '' max age'', tabs 2, br_show_timer (bri_max_age bri),
            tabs 3, ''bridge max age'', tabs 2, br_show_timer (bri_bridge_max_age bri),
            nl, '' hello time'', tabs 2, br_show_timer (bri_hello_time bri),
            tabs 3, ''bridge hello time'', tabs 1, br_show_timer (bri_bridge_hello_time bri),
            nl, '' forward delay'', tabs 2, br_show_timer (bri_forward_delay bri),
            tabs 3, ''bridge forward delay'', tabs 1, br_show_timer (bri_bridge_forward_delay bri),
            nl, '' ageing time'', tabs 2, br_show_timer (bri_ageing_time bri),
            tabs 3, ''gc interval'', tabs 2, br_show_timer (bri_gc_interval bri),
            nl, '' hello timer'', tabs 2, br_show_timer (bri_hello_timer_value bri),
            tabs 3, ''tcn timer'', tabs 2, br_show_timer (bri_tcn_timer_value bri),
            nl, '' topology change timer'', tabs 1, br_show_timer (bri_topology_change_timer_value bri),
            tabs 3, ''gc timer'', tabs 2, br_show_timer (bri_gc_timer_value bri),
            nl, '' flags'', tabs 3,
            if bri_topology_change bri then ''TOPOLOGY_CHANGE '' else '''',
            if bri_topology_change_detected bri then ''TOPOLOGY_CHANGE_DETECTED '' else '''',
            nl, nl, nl] @
           map (br_dump_port_info h) (lb_ports br))))"

section \<open>Commands (brctl_cmd.c)\<close>

text \<open>The kernel after a request, and what is reported of its error number.\<close>

definition finish :: "int \<times> br_host \<Rightarrow> (int \<Rightarrow> proc \<Rightarrow> proc) \<Rightarrow> proc \<Rightarrow> ending \<times> proc" where
  "finish r report p =
     (case r of (err, h) \<Rightarrow> if err = 0 then (Exit 0, p\<lparr>kern := h\<rparr>) else (Exit 1, report err (p\<lparr>kern := h\<rparr>)))"

text \<open>A request whose result the command ignores.\<close>

definition ignore :: "int \<times> br_host \<Rightarrow> proc \<Rightarrow> ending \<times> proc" where
  "ignore r p = (Exit 0, p\<lparr>kern := snd r\<rparr>)"

definition br_cmd_addbr :: "ctl_env \<Rightarrow> string \<Rightarrow> proc \<Rightarrow> ending \<times> proc" where
  "br_cmd_addbr e brname p =
     finish (lib_br_add_bridge (ce_host e) brname (kern p))
       (\<lambda>err. if err = EEXIST
              then eprintf [''device '', brname, '' already exists; can't create bridge with the same name'', nl]
              else perror e ''br_add_bridge'' err) p"

definition br_cmd_delbr :: "ctl_env \<Rightarrow> string \<Rightarrow> proc \<Rightarrow> ending \<times> proc" where
  "br_cmd_delbr e brname p =
     finish (lib_br_del_bridge (ce_host e) brname (kern p))
       (\<lambda>err. if err = ENXIO then eprintf [''bridge '', brname, '' doesn't exist; can't delete it'', nl]
              else if err = EBUSY then eprintf [''bridge '', brname, '' is still up; can't delete it'', nl]
              else perror e ''br_del_bridge'' err) p"

definition ELOOP :: int where "ELOOP = 90"

definition br_cmd_addif :: "ctl_env \<Rightarrow> lib_bridge \<Rightarrow> string \<Rightarrow> proc \<Rightarrow> ending \<times> proc" where
  "br_cmd_addif e br ifname p =
     (let idx = if_nametoindex ifname (kern p)
      in if idx = 0 then (Exit 1, eprintf [''interface '', ifname, '' does not exist!'', nl] p)
         else
           finish (br_add_interface (ce_host e) br idx (kern p))
             (\<lambda>err. if err = EBUSY
                    then eprintf [''device '', ifname, '' is already a member of a bridge; can't enslave it to bridge '',
                                  lb_ifname br, ''.'', nl]
                    else if err = ELOOP
                    then eprintf [''device '', ifname, '' is a bridge device itself; '',
                                  ''can't enslave a bridge device to a bridge device.'', nl]
                    else perror e ''br_add_interface'' err) p)"

definition br_cmd_delif :: "ctl_env \<Rightarrow> lib_bridge \<Rightarrow> string \<Rightarrow> proc \<Rightarrow> ending \<times> proc" where
  "br_cmd_delif e br ifname p =
     (let idx = if_nametoindex ifname (kern p)
      in if idx = 0 then (Exit 1, eprintf [''interface '', ifname, '' does not exist!'', nl] p)
         else
           finish (br_del_interface (ce_host e) br idx (kern p))
             (\<lambda>err. if err = EINVAL then eprintf [''device '', ifname, '' is not a slave of '', lb_ifname br, nl]
                    else perror e ''br_del_interface'' err) p)"

text \<open>A text that is not a number leaves the variable as it is on the stack.\<close>

definition scan_secs :: "ctl_env \<Rightarrow> string \<Rightarrow> rat" where
  "scan_secs e time = (case ce_scan_lf e time of Some r \<Rightarrow> r | None \<Rightarrow> ce_secs e)"

definition scan_int :: "ctl_env \<Rightarrow> string \<Rightarrow> s32" where
  "scan_int e s = (case strtol True s of Some v \<Rightarrow> v | None \<Rightarrow> ce_int e)"

definition br_cmd_setageing :: "ctl_env \<Rightarrow> lib_bridge \<Rightarrow> string \<Rightarrow> proc \<Rightarrow> ending \<times> proc" where
  "br_cmd_setageing e br time p =
     ignore (br_set_ageing_time (ce_host e) br (secs_to_tv (scan_secs e time)) (kern p)) p"

definition br_cmd_setbridgeprio :: "ctl_env \<Rightarrow> lib_bridge \<Rightarrow> string \<Rightarrow> proc \<Rightarrow> ending \<times> proc" where
  "br_cmd_setbridgeprio e br prio p =
     ignore (br_set_bridge_priority (ce_host e) br (scan_int e prio) (kern p)) p"

definition br_cmd_setfd :: "ctl_env \<Rightarrow> lib_bridge \<Rightarrow> string \<Rightarrow> proc \<Rightarrow> ending \<times> proc" where
  "br_cmd_setfd e br time p =
     ignore (br_set_bridge_forward_delay (ce_host e) br (secs_to_tv (scan_secs e time)) (kern p)) p"

definition br_cmd_setgcint :: "ctl_env \<Rightarrow> lib_bridge \<Rightarrow> string \<Rightarrow> proc \<Rightarrow> ending \<times> proc" where
  "br_cmd_setgcint e br time p =
     ignore (br_set_gc_interval (ce_host e) br (secs_to_tv (scan_secs e time)) (kern p)) p"

definition br_cmd_sethello :: "ctl_env \<Rightarrow> lib_bridge \<Rightarrow> string \<Rightarrow> proc \<Rightarrow> ending \<times> proc" where
  "br_cmd_sethello e br time p =
     ignore (br_set_bridge_hello_time (ce_host e) br (secs_to_tv (scan_secs e time)) (kern p)) p"

definition br_cmd_setmaxage :: "ctl_env \<Rightarrow> lib_bridge \<Rightarrow> string \<Rightarrow> proc \<Rightarrow> ending \<times> proc" where
  "br_cmd_setmaxage e br time p =
     ignore (br_set_bridge_max_age (ce_host e) br (secs_to_tv (scan_secs e time)) (kern p)) p"

definition br_cmd_setpathcost :: "ctl_env \<Rightarrow> lib_bridge \<Rightarrow> string \<Rightarrow> string \<Rightarrow> proc \<Rightarrow> ending \<times> proc" where
  "br_cmd_setpathcost e br arg0 arg1 p =
     (case br_find_port br arg0 (kern p) of
        None \<Rightarrow> (Exit 1, eprintf [''can't find port '', arg0, '' in bridge '', lb_ifname br, nl] p)
      | Some port \<Rightarrow> ignore (br_set_path_cost (ce_host e) br port (scan_int e arg1) (kern p)) p)"

definition br_cmd_setportprio :: "ctl_env \<Rightarrow> lib_bridge \<Rightarrow> string \<Rightarrow> string \<Rightarrow> proc \<Rightarrow> ending \<times> proc" where
  "br_cmd_setportprio e br arg0 arg1 p =
     (case br_find_port br arg0 (kern p) of
        None \<Rightarrow> (Exit 1, eprintf [''can't find port '', arg0, '' in bridge '', lb_ifname br, nl] p)
      | Some port \<Rightarrow> ignore (br_set_port_priority (ce_host e) br port (scan_int e arg1) (kern p)) p)"

definition on_word :: "string \<Rightarrow> s32" where
  "on_word s = (if strcmp s ''on'' = 0 \<or> strcmp s ''yes'' = 0 \<or> strcmp s ''1'' = 0 then 1 else 0)"

definition br_cmd_stp :: "ctl_env \<Rightarrow> lib_bridge \<Rightarrow> string \<Rightarrow> proc \<Rightarrow> ending \<times> proc" where
  "br_cmd_stp e br arg0 p = ignore (br_set_stp_state (ce_host e) br (on_word arg0) (kern p)) p"

definition br_cmd_showstp :: "lib_bridge \<Rightarrow> proc \<Rightarrow> ending \<times> proc" where
  "br_cmd_showstp br p = (Exit 0, printf [br_dump_info (kern p) br] p)"

definition br_cmd_show :: "proc \<Rightarrow> ending \<times> proc" where
  "br_cmd_show p =
     (Exit 0,
      printf ([''bridge name'', tabs 1, ''bridge id'', tabs 2, ''STP enabled'', tabs 1, ''interfaces'', nl] @
        map (\<lambda>br. lb_ifname br @ tabs 2 @ br_dump_bridge_id (bri_bridge_id (lb_info br)) @ tabs 1 @
                   (if bri_stp_enabled (lb_info br) then ''yes'' else ''no'') @ tabs 2 @
                   br_dump_interface_list (kern p) br) (bridge_list p)) p)"

subsection \<open>Addresses\<close>

definition compare_fdbs :: "fdb_entry \<Rightarrow> fdb_entry \<Rightarrow> int" where
  "compare_fdbs f0 f1 = memcmp (mac_bytes (fe_mac_addr f0)) (mac_bytes (fe_mac_addr f1)) 6"

definition fmt_mac :: "char \<Rightarrow> mac \<Rightarrow> string" where
  "fmt_mac sep a =
     (let b = (\<lambda>i. fmt_x 2 (unat (mac_bytes a ! i)))
      in b 0 @ [sep] @ b 1 @ [sep] @ b 2 @ [sep] @ b 3 @ [sep] @ b 4 @ [sep] @ b 5)"

definition dump_fdb_entry :: "fdb_entry \<Rightarrow> string" where
  "dump_fdb_entry f =
     fmt_i 3 1 (int (fe_port_no f)) @ tabs 1 @ fmt_mac (CHR '':'') (fe_mac_addr f) @ tabs 1 @
     (if fe_is_local f then ''yes'' else ''no'') @ tabs 2 @ br_show_timer (fe_ageing_timer_value f) @ nl"

text \<open>The loop of \<^verbatim>\<open>showmacs\<close>; \<open>None\<close> is a loop that does not end.\<close>

partial_function (option) showmacs_loop ::
    "ctl_env \<Rightarrow> lib_bridge \<Rightarrow> s32 \<Rightarrow> fdb_entry list \<Rightarrow> proc \<Rightarrow> proc option" where
  "showmacs_loop e br offset fdb p =
     (case br_read_fdb (ce_stack e) (ce_host e) br fdb offset 1024 (kern p) of
        (num, fdb, h) \<Rightarrow>
          if num = 0 then Some (p\<lparr>kern := h\<rparr>)
          else
            (let fdb = qsort compare_fdbs (take (nat num) fdb) @ drop (nat num) fdb
             in showmacs_loop e br (offset + word_of_int num) fdb
                  (printf (map dump_fdb_entry (take (nat num) fdb)) (p\<lparr>kern := h\<rparr>))))"

definition br_cmd_showmacs :: "ctl_env \<Rightarrow> lib_bridge \<Rightarrow> proc \<Rightarrow> (ending \<times> proc) option" where
  "br_cmd_showmacs e br p =
     map_option (Pair (Exit 0))
       (showmacs_loop e br 0 (ce_fdb e)
         (printf [''port no'', tabs 1, ''mac addr'', tabs 2, ''is local?'', tabs 1, ''ageing timer'', nl] p))"

subsection \<open>Filter\<close>

definition dump_filter_entry :: "filter_entry \<Rightarrow> string" where
  "dump_filter_entry f =
     nl @ (if ue_access_type f \<noteq> 0 then ''Allow'' else ''Deny'') @ tabs 2 @
     fmt_mac (CHR ''-'') (ue_dst_mac_addr f) @ tabs 1 @ fmt_mac (CHR ''-'') (ue_src_mac_addr f) @ tabs 1 @
     ''0x'' @ fmt_x 1 (unat (ue_proto f)) @ nl @
     ''Frames Matched: '' @ fmt_i 0 1 (sint (ue_frames_matched f)) @ nl"

definition br_cmd_showfilter :: "ctl_env \<Rightarrow> lib_bridge \<Rightarrow> proc \<Rightarrow> ending \<times> proc" where
  "br_cmd_showfilter e br p =
     (let p = printf [nl, tabs 3, ''Bridge Filter Table'', nl, nl, ''Access Type'', tabs 1, ''Dst MAC Addr'',
                      tabs 2, ''Src MAC Addr'', tabs 2, ''Protocol'', nl] p
      in case br_show_filter (ce_stack e) (ce_host e) br (ce_filters e) 20 (kern p) of
           (num, entry, h) \<Rightarrow> (Exit 0, printf (map dump_filter_entry (take (nat num) entry)) (p\<lparr>kern := h\<rparr>)))"

definition br_cmd_setfilter :: "ctl_env \<Rightarrow> lib_bridge \<Rightarrow> string \<Rightarrow> proc \<Rightarrow> ending \<times> proc" where
  "br_cmd_setfilter e br arg0 p = ignore (br_set_filter_state (ce_host e) br (on_word arg0) (kern p)) p"

text \<open>\<^verbatim>\<open>scan_number\<close>: the digits collected, none when the text is not a number or too long; then their value.\<close>

definition is_hex_digit :: "char \<Rightarrow> bool" where
  "is_hex_digit ch \<longleftrightarrow>
     (let c = of_char ch :: nat in 48 \<le> c \<and> c \<le> 57 \<or> 97 \<le> c \<and> c \<le> 102 \<or> 65 \<le> c \<and> c \<le> 70)"

fun scan_digits :: "nat \<Rightarrow> string \<Rightarrow> string \<Rightarrow> string option" where
  "scan_digits type [] sNum = Some sNum"
| "scan_digits type (ch # s) sNum =
     (if \<not> is_hex_digit ch then None
      else
        (let sNum = sNum @ [ch]
         in if type = 0 \<and> length sNum \<ge> 3 then None
            else if type = 1 \<and> length sNum \<ge> 5 then None
            else scan_digits type s sNum))"

definition scan_number :: "nat \<Rightarrow> string \<Rightarrow> nat option" where
  "scan_number type s =
     map_option (\<lambda>sNum. fst (foldr (\<lambda>ch (v, base). (v + digit_val ch * base, base * 16)) sNum (0, 1)))
       (scan_digits type s [])"

text \<open>
  Stores through the pointer \<^verbatim>\<open>br_filter\<close>: the source address is at offset 0 of the structure, the
  destination address at 6, the protocol at 12 and the access type at 14. A store past the mapping
  kills the process; a text that is no number ends the command.
\<close>

datatype filter_parse = Stored "u8 list" | Invalid | Segv

definition store_byte :: "nat \<Rightarrow> u8 \<Rightarrow> u8 list \<Rightarrow> filter_parse" where
  "store_byte i b m = (if i < length m then Stored (m[i := b]) else Segv)"

fun store_bytes :: "nat \<Rightarrow> string list \<Rightarrow> u8 list \<Rightarrow> filter_parse" where
  "store_bytes i [] m = Stored m"
| "store_bytes i (ch # tokens) m =
     (case scan_number 0 ch of
        None \<Rightarrow> Invalid
      | Some v \<Rightarrow>
          (case store_byte i (of_nat v) m of
             Stored m \<Rightarrow> store_bytes (Suc i) tokens m
           | r \<Rightarrow> r))"

fun store_proto :: "string list \<Rightarrow> u8 list \<Rightarrow> filter_parse" where
  "store_proto [] m = Stored m"
| "store_proto (ch # tokens) m =
     (case scan_number 1 ch of
        None \<Rightarrow> Invalid
      | Some v \<Rightarrow>
          if 13 < length m then store_proto tokens (m[12 := of_nat v, 13 := of_nat (v div 256)]) else Segv)"

text \<open>
  The part that \<^verbatim>\<open>br_cmd_addfilter\<close> and \<^verbatim>\<open>br_cmd_delfilter\<close> share, up to the request \<open>final\<close>, whose result is
  the exit code. The first part of the protocol, up to the letter x, is dropped.
\<close>

definition fill_filter ::
    "ctl_env \<Rightarrow> string \<Rightarrow> string \<Rightarrow> string \<Rightarrow> string \<Rightarrow> (u8 list \<Rightarrow> int \<times> br_host) \<Rightarrow> proc \<Rightarrow> ending \<times> proc" where
  "fill_filter e arg0 arg1 arg2 arg3 final p =
     (let filter_type = ucast (atoi arg3) :: u8;
          invalid = (\<lambda>what. (Exit (-1), printf [''Invalid '', what, '' Entry'', nl] p))
      in if filter_type \<noteq> 0 \<and> filter_type \<noteq> 1 then invalid ''Access Type''
         else
           (case store_byte 14 filter_type (ce_filter_mem e) of
              Stored m \<Rightarrow>
                (case store_bytes 6 (strtok (CHR ''-'') arg0) m of
                   Invalid \<Rightarrow> invalid ''Destination MAC Address''
                 | Segv \<Rightarrow> (Killed, p)
                 | Stored m \<Rightarrow>
                     (case store_bytes 0 (strtok (CHR ''-'') arg1) m of
                        Invalid \<Rightarrow> invalid ''Source MAC Address''
                      | Segv \<Rightarrow> (Killed, p)
                      | Stored m \<Rightarrow>
                          (case store_proto (tl (strtok (CHR ''x'') arg2)) m of
                             Invalid \<Rightarrow> invalid ''Protocol''
                           | Segv \<Rightarrow> (Killed, p)
                           | Stored m \<Rightarrow> (case final m of (err, h) \<Rightarrow> (Exit err, p\<lparr>kern := h\<rparr>)))))
            | _ \<Rightarrow> (Killed, p)))"

definition br_cmd_addfilter ::
    "ctl_env \<Rightarrow> lib_bridge \<Rightarrow> string \<Rightarrow> string \<Rightarrow> string \<Rightarrow> string \<Rightarrow> proc \<Rightarrow> ending \<times> proc" where
  "br_cmd_addfilter e br arg0 arg1 arg2 arg3 p =
     fill_filter e arg0 arg1 arg2 arg3 (\<lambda>m. br_set_filter_entry (ce_host e) br m (kern p)) p"

definition br_cmd_delfilter ::
    "ctl_env \<Rightarrow> lib_bridge \<Rightarrow> string \<Rightarrow> string \<Rightarrow> string \<Rightarrow> string \<Rightarrow> proc \<Rightarrow> ending \<times> proc" where
  "br_cmd_delfilter e br arg0 arg1 arg2 arg3 p =
     fill_filter e arg0 arg1 arg2 arg3 (\<lambda>m. lib_br_del_filter_entry (ce_host e) br m (kern p)) p"

definition br_cmd_flushfilter :: "ctl_env \<Rightarrow> lib_bridge \<Rightarrow> proc \<Rightarrow> ending \<times> proc" where
  "br_cmd_flushfilter e br p =
     (case lib_br_flush_filter (ce_host e) br (kern p) of (err, h) \<Rightarrow> (Exit err, p\<lparr>kern := h\<rparr>))"

subsection \<open>The table of commands\<close>

text \<open>A command that needs a bridge gets the one its first argument names.\<close>

datatype command_func =
    No_bridge "ctl_env \<Rightarrow> string list \<Rightarrow> proc \<Rightarrow> ending \<times> proc"
  | On_bridge "ctl_env \<Rightarrow> lib_bridge \<Rightarrow> string list \<Rightarrow> proc \<Rightarrow> ending \<times> proc"
  | On_bridge_loop "ctl_env \<Rightarrow> lib_bridge \<Rightarrow> proc \<Rightarrow> (ending \<times> proc) option"

record command =
  num_string_arguments :: nat
  command_name :: string
  func :: command_func

definition command_entry :: "nat \<Rightarrow> string \<Rightarrow> command_func \<Rightarrow> command" where
  "command_entry n name f = \<lparr>num_string_arguments = n, command_name = name, func = f\<rparr>"

definition commands :: "command list" where
  "commands =
     [command_entry 1 ''addbr'' (No_bridge (\<lambda>e a. br_cmd_addbr e (a ! 0))),
      command_entry 1 ''addif'' (On_bridge (\<lambda>e br a. br_cmd_addif e br (a ! 0))),
      command_entry 1 ''delbr'' (No_bridge (\<lambda>e a. br_cmd_delbr e (a ! 0))),
      command_entry 1 ''delif'' (On_bridge (\<lambda>e br a. br_cmd_delif e br (a ! 0))),
      command_entry 1 ''setageing'' (On_bridge (\<lambda>e br a. br_cmd_setageing e br (a ! 0))),
      command_entry 1 ''setbridgeprio'' (On_bridge (\<lambda>e br a. br_cmd_setbridgeprio e br (a ! 0))),
      command_entry 1 ''setfd'' (On_bridge (\<lambda>e br a. br_cmd_setfd e br (a ! 0))),
      command_entry 1 ''setgcint'' (On_bridge (\<lambda>e br a. br_cmd_setgcint e br (a ! 0))),
      command_entry 1 ''sethello'' (On_bridge (\<lambda>e br a. br_cmd_sethello e br (a ! 0))),
      command_entry 1 ''setmaxage'' (On_bridge (\<lambda>e br a. br_cmd_setmaxage e br (a ! 0))),
      command_entry 2 ''setpathcost'' (On_bridge (\<lambda>e br a. br_cmd_setpathcost e br (a ! 0) (a ! 1))),
      command_entry 2 ''setportprio'' (On_bridge (\<lambda>e br a. br_cmd_setportprio e br (a ! 0) (a ! 1))),
      command_entry 0 ''show'' (No_bridge (\<lambda>e a. br_cmd_show)),
      command_entry 0 ''showmacs'' (On_bridge_loop br_cmd_showmacs),
      command_entry 0 ''showstp'' (On_bridge (\<lambda>e br a. br_cmd_showstp br)),
      command_entry 1 ''stp'' (On_bridge (\<lambda>e br a. br_cmd_stp e br (a ! 0))),
      command_entry 1 ''setfilter'' (On_bridge (\<lambda>e br a. br_cmd_setfilter e br (a ! 0))),
      command_entry 4 ''addfilter'' (On_bridge (\<lambda>e br a. br_cmd_addfilter e br (a ! 0) (a ! 1) (a ! 2) (a ! 3))),
      command_entry 0 ''flushfilter'' (On_bridge (\<lambda>e br a. br_cmd_flushfilter e br)),
      command_entry 0 ''showfilter'' (On_bridge (\<lambda>e br a. br_cmd_showfilter e br)),
      command_entry 4 ''delfilter'' (On_bridge (\<lambda>e br a. br_cmd_delfilter e br (a ! 0) (a ! 1) (a ! 2) (a ! 3)))]"

definition br_command_lookup :: "string \<Rightarrow> command option" where
  "br_command_lookup cmd = find (\<lambda>c. strcmp cmd (command_name c) = 0) commands"

section \<open>The program (brctl.c)\<close>

definition help_message :: string where
  "help_message = concat
     [''commands:'', nl,
      tabs 1, ''addbr'', tabs 2, ''<bridge>'', tabs 2, ''add bridge'', nl,
      tabs 1, ''addif'', tabs 2, ''<bridge> <device>'', tabs 1, ''add interface to bridge'', nl,
      tabs 1, ''delbr'', tabs 2, ''<bridge>'', tabs 2, ''delete bridge'', nl,
      tabs 1, ''delif'', tabs 2, ''<bridge> <device>'', tabs 1, ''delete interface from bridge'', nl,
      tabs 1, ''show'', tabs 5, ''show a list of bridges'', nl,
      tabs 1, ''showmacs'', tabs 1, ''<bridge>'', tabs 2, ''show a list of mac addrs'', nl,
      tabs 1, ''showstp'', tabs 2, ''<bridge>'', tabs 2, ''show bridge stp info'', nl,
      nl,
      tabs 1, ''setageing'', tabs 1, ''<bridge> <time>'', tabs 2, ''set ageing time'', nl,
      tabs 1, ''setbridgeprio'', tabs 1, ''<bridge> <prio>'', tabs 2, ''set bridge priority'', nl,
      tabs 1, ''setfd'', tabs 2, ''<bridge> <time>'', tabs 2, ''set bridge forward delay'', nl,
      tabs 1, ''setgcint'', tabs 1, ''<bridge> <time>'', tabs 2, ''set garbage collection interval'', nl,
      tabs 1, ''sethello'', tabs 1, ''<bridge> <time>'', tabs 2, ''set hello time'', nl,
      tabs 1, ''setmaxage'', tabs 1, ''<bridge> <time>'', tabs 2, ''set max message age'', nl,
      tabs 1, ''setpathcost'', tabs 1, ''<bridge> <port> <cost>'', tabs 1, ''set path cost'', nl,
      tabs 1, ''setportprio'', tabs 1, ''<bridge> <port> <prio>'', tabs 1, ''set port priority'', nl,
      tabs 1, ''stp'', tabs 2, ''<bridge> <state>'', tabs 1, ''turn stp on/off'', nl,
      tabs 1, ''setfilter'', tabs 1, ''<bridge> <state>'', tabs 1, ''turn bridge filter on/off'', nl,
      tabs 1, ''flushfilter'', tabs 1, ''<bridge> '', tabs 2, ''flush bridge filtering table'', nl,
      tabs 1, ''showfilter'', tabs 1, ''<bridge> '', tabs 2, ''display bridge filtering table'', nl,
      tabs 1, ''addfilter'', tabs 1, ''<bridge> <dst_mac> <src_mac> <proto> <include|exclude>'', nl,
      tabs 2, ''0 - including   1 - excluding'', tabs 2, ''add entry to filter table'', nl,
      tabs 1, ''delfilter'', tabs 1, ''<bridge> <dst_mac> <src_mac> <proto> <include|exclude>'', nl,
      tabs 2, ''0 - including   1 - excluding'', tabs 2, ''delete entry to filter table'', nl]"

definition brctl_help :: "proc \<Rightarrow> ending \<times> proc" where
  "brctl_help p = (Exit 1, eprintf [help_message] p)"

text \<open>The command with its bridge and its arguments: \<open>argv\<close> from the command's name on.\<close>

definition run_command :: "ctl_env \<Rightarrow> command \<Rightarrow> string list \<Rightarrow> proc \<Rightarrow> (ending \<times> proc) option" where
  "run_command e cmd args p =
     (let count = (\<lambda>args k. if length args \<noteq> num_string_arguments cmd
                     then Some (Exit 1, eprintf [''incorrect number of arguments for command'', nl] p)
                     else k);
          bridge = (\<lambda>k. case args of
                     [] \<Rightarrow> Some (Exit 1, eprintf [''this option requires a bridge name as argument'', nl] p)
                   | name # args \<Rightarrow>
                       (case br_find_bridge name (bridge_list p) of
                          None \<Rightarrow> Some (Exit 1, eprintf [''bridge '', name, '' doesn't exist!'', nl] p)
                        | Some br \<Rightarrow> count args (k br args)))
      in case func cmd of
           No_bridge f \<Rightarrow> count args (Some (f e args p))
         | On_bridge f \<Rightarrow> bridge (\<lambda>br args. Some (f e br args p))
         | On_bridge_loop f \<Rightarrow> bridge (\<lambda>br args. f e br p))"

text \<open>
  \<^verbatim>\<open>main\<close>, on the arguments from \<^verbatim>\<open>argv[0]\<close> on. The result of \<^verbatim>\<open>br_init\<close> is not looked at; a heap in which
  it frees blocks twice is taken to kill the process.
\<close>

definition brctl_main :: "ctl_env \<Rightarrow> string list \<Rightarrow> br_host \<Rightarrow> (ending \<times> proc) option" where
  "brctl_main e argv h =
     (case br_init (ce_stack e) (ce_host e) h of
        None \<Rightarrow> Some (Killed, \<lparr>out_text = [], err_text = [], bridge_list = [], kern = h\<rparr>)
      | Some (err, bl, h) \<Rightarrow>
          (let p = \<lparr>out_text = [], err_text = [], bridge_list = (case bl of Some bl \<Rightarrow> bl | None \<Rightarrow> []), kern = h\<rparr>
           in if length argv < 2 then Some (brctl_help p)
              else
                (case br_command_lookup (argv ! 1) of
                   None \<Rightarrow> Some (brctl_help (eprintf [''never heard of command ['', argv ! 1, '']'', nl] p))
                 | Some cmd \<Rightarrow> run_command e cmd (drop 2 argv) p)))"

section \<open>Facts about the library routines\<close>

lemma printf_append: "printf (xs @ ys) p = printf ys (printf xs p)"
  by (simp add: printf_def)

lemma printf_simps [simp]:
  "kern (printf xs p) = kern p" "out_text (printf xs p) = out_text p @ concat xs" "err_text (printf xs p) = err_text p"
  "printf [] p = p" "kern (eprintf xs p) = kern p" "bridge_list (printf xs p) = bridge_list p" "kern (perror e s err p) = kern p"
  by (simp_all add: printf_def eprintf_def perror_def)

lemma proc_kern_same [simp]: "p\<lparr>kern := kern p\<rparr> = p"
  by simp

lemma mset_insert_by [simp]: "mset (insert_by cmp x xs) = add_mset x (mset xs)"
  by (induction xs) simp_all

lemma mset_qsort [simp]: "mset (qsort cmp xs) = mset xs"
  by (induction xs) (simp_all add: qsort_def)

lemma length_qsort [simp]: "length (qsort cmp xs) = length xs"
  by (metis mset_qsort size_mset)

lemma secs_to_tv_int:
  assumes "n < 2147483648"
  shows "secs_to_tv (of_nat n) = \<lparr>tv_sec = word_of_nat n, tv_usec = 0\<rparr>"
proof -
  have sec: "double_to_long (of_nat n) = word_of_nat n" by (simp add: double_to_long_def)
  have "sint (word_of_nat n :: s32) = int n"
    using assms by (simp add: sint_uint uint_nat signed_take_bit_int_eq_self take_bit_nat_eq_self unat_of_nat)
  then have "of_nat n - of_int (sint (word_of_nat n :: s32)) = (0 :: rat)" by (simp only: of_int_of_nat_eq)
  then show ?thesis
    unfolding secs_to_tv_def sec Let_def by (simp only: double_round_def double_to_long_def) simp
qed

lemma tv_of_secs:
  "n \<le> 42949672 \<Longrightarrow> tv_to_jiffies (secs_to_tv (of_nat n)) = word_of_nat (100 * n)"
  using tv_to_jiffies_eq [of n 0] by (simp add: secs_to_tv_int)

section \<open>Finding a command\<close>

lemma command_names: "\<forall>c\<in>set commands. c_string (command_name c)"
  by (simp add: commands_def command_entry_def c_string_def)

lemma br_command_lookup_eq:
  assumes "c_string cmd"
  shows "br_command_lookup cmd = find (\<lambda>c. command_name c = cmd) commands"
  unfolding br_command_lookup_def
  using assms command_names by (intro find_cong) (auto simp: strcmp_eq_0_iff)

lemma distinct_command_names: "distinct (map command_name commands)"
  by (simp add: commands_def command_entry_def)

lemma lookup_command:
  assumes "c \<in> set commands"
  shows "br_command_lookup (command_name c) = Some c"
  using br_command_lookup_eq [of "command_name c"] find_key_in [OF distinct_command_names assms] command_names assms
  by simp

section \<open>Running a command on a bridge\<close>

text \<open>The process at the start of a command on a well-formed machine.\<close>

definition started :: "host_env \<Rightarrow> br_host \<Rightarrow> proc" where
  "started env h =
     \<lparr>out_text = [], err_text = [], bridge_list = rev (map (bridge_view (he_jiffies env)) (host_bridges h)), kern = h\<rparr>"

lemma brctl_main_command:
  assumes "host_ok h" "he_capable (ce_host e)" "length (host_bridges h) \<le> 32" "cmd \<in> set commands"
  shows "brctl_main e (prog # command_name cmd # args) h = run_command e cmd args (started (ce_host e) h)"
  by (simp add: brctl_main_def br_init_ok [OF assms(1-3)] lookup_command [OF assms(4)] started_def)

lemma run_on_bridge:
  assumes "host_ok h" "br \<in> set (host_bridges h)" "func cmd = On_bridge f" "length args = num_string_arguments cmd"
  shows "run_command e cmd (dev_name (br_dev br) # args) (started env h)
    = Some (f e (bridge_view (he_jiffies env) br) args (started env h))"
  using br_find_bridge_ok [OF assms(1,2), of "he_jiffies env"] assms(3,4)
  by (simp add: run_command_def started_def)

lemma brctl_on_bridge:
  assumes "host_ok h" "he_capable (ce_host e)" "length (host_bridges h) \<le> 32"
    "cmd \<in> set commands" "br \<in> set (host_bridges h)" "func cmd = On_bridge f" "length args = num_string_arguments cmd"
  shows "brctl_main e (prog # command_name cmd # dev_name (br_dev br) # args) h
    = Some (f e (bridge_view (he_jiffies (ce_host e)) br) args (started (ce_host e) h))"
  by (simp add: brctl_main_command [OF assms(1-4)] run_on_bridge [OF assms(1,5-7)])

lemma brctl_no_bridge:
  assumes "host_ok h" "he_capable (ce_host e)" "length (host_bridges h) \<le> 32"
    "cmd \<in> set commands" "func cmd = No_bridge f" "length args = num_string_arguments cmd"
  shows "brctl_main e (prog # command_name cmd # args) h = Some (f e args (started (ce_host e) h))"
  by (simp add: brctl_main_command [OF assms(1-4)] run_command_def assms(5,6))

end
