(* ===== verification/Br_Ctld.thy ===== *)
theory Br_Ctld
  imports Br_Ctl
begin

text \<open>
  The control daemon (bridge-utils-0.9.5/brctl/brctld.c): one session of a client, line by line. The
  sockets, the forks and the prompt's host name are outside; what is left is the state of the child
  process that serves the client and what one line does to it.
\<close>

section \<open>The session\<close>

text \<open>
  The selected bridge is a pointer into \<^verbatim>\<open>bridge_list\<close>: it is null, points at a bridge of the list, or at one
  that has been freed. The list itself can be left pointing at freed bridges. The buffers keep what an
  earlier line, or the stack, left in them.
\<close>

datatype selection = No_selection | Selected lib_bridge | Freed

record session =
  se_proc :: proc
  se_list_freed :: bool
  se_br :: selection
  se_line :: string
  se_cmd :: string
  se_args :: "string list"

text \<open>A line is followed by the next one, ends the session, or leaves the defined behaviour of C.\<close>

datatype step_result = Goes_on session | Quits session | Undefined

section \<open>Reading a line\<close>

text \<open>\<^verbatim>\<open>fgets\<close> gives a line, or nothing at the end of the input, when the buffer keeps its contents.\<close>

definition strip_line :: "string \<Rightarrow> string" where
  "strip_line s = rev (dropWhile (\<lambda>c. c = CHR 0x0D \<or> c = CHR 0x0A) (rev (c_str s)))"

function scan_words :: "string \<Rightarrow> string list" where
  "scan_words s =
     (let s = dropWhile c_isspace s
      in if s = [] then [] else takeWhile (\<lambda>c. \<not> c_isspace c) s # scan_words (dropWhile (\<lambda>c. \<not> c_isspace c) s))"
  by pat_completeness auto

termination
proof (relation "measure length")
  fix s x assume x: "x = dropWhile c_isspace s" "x \<noteq> []"
  then have "\<not> c_isspace (hd x)" using hd_dropWhile [of c_isspace s] by simp
  then have "length (dropWhile (\<lambda>c. \<not> c_isspace c) x) < length x"
    using x(2) by (cases x) (simp_all add: le_imp_less_Suc length_dropWhile_le)
  moreover have "length x \<le> length s" using x(1) by (simp add: length_dropWhile_le)
  ultimately show "(dropWhile (\<lambda>c. \<not> c_isspace c) x, s) \<in> measure length" by simp
qed simp

declare scan_words.simps [simp del]

text \<open>The five conversions \<^verbatim>\<open>%s\<close>; a word that does not fit its 128 bytes overruns the buffer.\<close>

definition BUF_SIZE :: nat where
  "BUF_SIZE = 128"

definition scan_line :: "string \<Rightarrow> session \<Rightarrow> (nat \<times> session) option" where
  "scan_line line s =
     (let ws = take 5 (scan_words line)
      in if \<exists>w\<in>set ws. BUF_SIZE \<le> length w then None
         else Some (length ws,
           s\<lparr>se_cmd := (case ws of [] \<Rightarrow> se_cmd s | w # _ \<Rightarrow> w),
             se_args := overlay (tl ws) (se_args s)\<rparr>))"

section \<open>One line\<close>

definition daemon_help :: string where
  "daemon_help = concat
     [''addbr'', tabs 5, ''add bridge'', nl,
      ''addif'', tabs 3, ''<device>'', tabs 1, ''add interface to bridge'', nl,
      ''bridge'', tabs 3, ''<bridge>'', tabs 1, ''select bridge to work in'', nl,
      ''delbr'', tabs 5, ''delete bridge'', nl,
      ''delif'', tabs 3, ''<device>'', tabs 1, ''delete interface from bridge'', nl,
      ''setageing'', tabs 2, ''<time>'', tabs 2, ''set ageing time'', nl,
      ''setbridgeprio'', tabs 2, ''<prio>'', tabs 2, ''set bridge priority'', nl,
      ''setfd'', tabs 3, ''<time>'', tabs 2, ''set bridge forward delay'', nl,
      ''setgcint'', tabs 2, ''<time>'', tabs 2, ''set garbage collection interval'', nl,
      ''sethello'', tabs 2, ''<time>'', tabs 2, ''set hello time'', nl,
      ''setmaxage'', tabs 2, ''<time>'', tabs 2, ''set max message age'', nl,
      ''setpathcost'', tabs 2, ''<port> <cost>'', tabs 1, ''set path cost'', nl,
      ''setportprio'', tabs 2, ''<port> <prio>'', tabs 1, ''set port priority'', nl,
      ''show'', tabs 5, ''show a list of bridges'', nl,
      ''showmacs'', tabs 4, ''show a list of mac addrs'', nl,
      ''showstp'', tabs 5, ''show bridge stp info'', nl,
      ''stp'', tabs 3, ''<state>'', tabs 2, ''turn stp on/off'', nl,
      ''setfilter'', tabs 1, ''<state>'', tabs 2, ''turn bridge filter on/off'', nl,
      ''addfilter'', tabs 1, ''<dst> <src> <proto> <deny|allow>'', nl, tabs 2, ''add entry to filter table'', nl,
      ''delfilter'', tabs 1, ''<dst> <src> <proto> <deny|allow>'', nl, tabs 2, ''delete entry in filter table'', nl,
      ''flushfilter'', tabs 3, ''flush bridge filtering table'', nl,
      ''quit'', tabs 5, ''exit this session'', nl, nl]"

definition say :: "string list \<Rightarrow> session \<Rightarrow> session" where
  "say ss s = s\<lparr>se_proc := printf ss (se_proc s)\<rparr>"

definition complain :: "string list \<Rightarrow> session \<Rightarrow> session" where
  "complain ss s = s\<lparr>se_proc := eprintf ss (se_proc s)\<rparr>"

text \<open>Selecting a bridge walks the list, which must not have been freed.\<close>

definition select_bridge :: "nat \<Rightarrow> session \<Rightarrow> step_result" where
  "select_bridge numcmd s =
     (if numcmd \<noteq> 2 then Goes_on (complain [''invalid number of arguments'', nl] s)
      else if se_list_freed s then Undefined
      else
        (let name = se_args s ! 0
         in case br_find_bridge name (bridge_list (se_proc s)) of
              Some br \<Rightarrow> Goes_on (say [''now using bridge '', name, nl, nl] (s\<lparr>se_br := Selected br\<rparr>))
            | None \<Rightarrow> Goes_on (say [''can't find bridge '', name, nl, nl] (s\<lparr>se_br := No_selection\<rparr>))))"

text \<open>
  \<^verbatim>\<open>br_refresh\<close> frees every bridge of the list, the selected one among them, and reads the list anew.
\<close>

definition refresh_session :: "ctl_env \<Rightarrow> session \<Rightarrow> session option" where
  "refresh_session e s =
     (if se_list_freed s then None
      else
        (case br_refresh (ce_stack e) (ce_host e) (bridge_list (se_proc s)) (kern (se_proc s)) of
           None \<Rightarrow> None
         | Some (err, bl, h) \<Rightarrow>
             Some (s\<lparr>se_proc := (se_proc s)\<lparr>bridge_list := (case bl of Some bl \<Rightarrow> bl | None \<Rightarrow> []), kern := h\<rparr>,
                     se_list_freed := (bl = None),
                     se_br := (case se_br s of No_selection \<Rightarrow> No_selection | _ \<Rightarrow> Freed)\<rparr>)))"

text \<open>
  The command gets the four buffers, whatever their number on the line. A command on a bridge follows
  the pointer to the selected bridge, and \<^verbatim>\<open>show\<close> walks the list.
\<close>

definition call_command :: "ctl_env \<Rightarrow> command \<Rightarrow> session \<Rightarrow> step_result" where
  "call_command e cmd s =
     (case func cmd of
        No_bridge f \<Rightarrow>
          if se_list_freed s then Undefined
          else
            (case f e (se_args s) (se_proc s) of
               (Killed, p) \<Rightarrow> Undefined
             | (Exit c, p) \<Rightarrow> Goes_on (say [nl] (s\<lparr>se_proc := p\<rparr>)))
      | On_bridge f \<Rightarrow>
          (case se_br s of
             Selected br \<Rightarrow>
               (case f e br (se_args s) (se_proc s) of
                  (Killed, p) \<Rightarrow> Undefined
                | (Exit c, p) \<Rightarrow> Goes_on (say [nl] (s\<lparr>se_proc := p\<rparr>)))
           | _ \<Rightarrow> Undefined)
      | On_bridge_loop f \<Rightarrow>
          (case se_br s of
             Selected br \<Rightarrow>
               (case f e br (se_proc s) of
                  Some (Exit c, p) \<Rightarrow> Goes_on (say [nl] (s\<lparr>se_proc := p\<rparr>))
                | _ \<Rightarrow> Undefined)
           | _ \<Rightarrow> Undefined))"

definition needs_bridge_argument :: "command \<Rightarrow> bool" where
  "needs_bridge_argument cmd = (case func cmd of No_bridge f \<Rightarrow> False | _ \<Rightarrow> True)"

definition brctld_line :: "ctl_env \<Rightarrow> string option \<Rightarrow> session \<Rightarrow> step_result" where
  "brctld_line e input s =
     (let line = strip_line (case input of Some l \<Rightarrow> l | None \<Rightarrow> se_line s);
          s = s\<lparr>se_line := line\<rparr>
      in case scan_line line s of
           None \<Rightarrow> Undefined
         | Some (numcmd, s) \<Rightarrow>
             if strcmp (se_cmd s) ''help'' = 0 then Goes_on (complain [daemon_help] s)
             else if strcmp (se_cmd s) ''bridge'' = 0 then select_bridge numcmd s
             else if strcmp (se_cmd s) ''quit'' = 0 then Quits s
             else
               (case br_command_lookup (se_cmd s) of
                  None \<Rightarrow> Goes_on (say [''unknown command '', [CHR 0x27], line, [CHR 0x27], nl, nl] s)
                | Some cmd \<Rightarrow>
                    if needs_bridge_argument cmd \<and> se_br s = No_selection
                    then Goes_on (say [''this command needs a bridge'', nl, nl] s)
                    else
                      (case refresh_session e s of
                         None \<Rightarrow> Undefined
                       | Some s \<Rightarrow> call_command e cmd s)))"

section \<open>No command on a bridge works\<close>

text \<open>
  A command that needs a bridge is refused as long as none is selected; once one is, running it follows
  a pointer to a bridge that the refresh in the same line has freed.
\<close>

lemma refresh_frees:
  "refresh_session e s = Some s' \<Longrightarrow> se_br s' = (if se_br s = No_selection then No_selection else Freed)"
  by (auto simp: refresh_session_def split: if_splits option.splits selection.splits)

lemma call_needs_selected:
  "needs_bridge_argument cmd \<Longrightarrow> se_br s = Freed \<Longrightarrow> call_command e cmd s = Undefined"
  by (auto simp: needs_bridge_argument_def call_command_def split: command_func.splits)

lemma reserved_words:
  assumes "br_command_lookup w = Some cmd" "c_string w"
  shows "strcmp w ''help'' \<noteq> 0" "strcmp w ''bridge'' \<noteq> 0" "strcmp w ''quit'' \<noteq> 0"
proof -
  have w: "w \<in> command_name ` set commands"
    using assms br_command_lookup_eq [OF assms(2)] by (auto simp: find_Some_iff)
  have "''help'' \<notin> command_name ` set commands" "''bridge'' \<notin> command_name ` set commands" "''quit'' \<notin> command_name ` set commands"
    by (simp_all add: commands_def command_entry_def)
  then have "w \<noteq> ''help''" "w \<noteq> ''bridge''" "w \<noteq> ''quit''" using w by metis+
  then show "strcmp w ''help'' \<noteq> 0" "strcmp w ''bridge'' \<noteq> 0" "strcmp w ''quit'' \<noteq> 0"
    using assms(2) by (simp_all add: strcmp_eq_0_iff c_string_def)
qed

end
