(* ===== verification/Br_Ctl_Props.thy ===== *)
theory Br_Ctl_Props
  imports Br_Ctld Br_Demo
begin

text \<open>
  The properties of the control utility with the kernel behind it: what the library's copy of the bridges
  says, what a command does to the kernel and prints, which texts and times survive the way there and back,
  and where an error is taken for a result.
\<close>

section \<open>A small machine\<close>

definition demo_host :: br_host where
  "demo_host =
     \<lparr>host_bridges = [(demo_bridge [demo_port 2 BR_STATE_FORWARDING])
        \<lparr>br_dev := (br_dev (demo_bridge []))\<lparr>ifindex := 5, dev_listed := True\<rparr>\<rparr>],
      host_devs = [demo_dev 2]\<rparr>"

definition demo_env :: host_env where
  "demo_env =
     \<lparr>he_jiffies = 1000, he_capable = True, he_fdb_copy = (\<lambda>_. Copied), he_mfd_copy = (\<lambda>_. Copied), he_mem_ok = True,
      he_mem_later = [], he_new_ifindex = 9, he_driver_ioctl = (\<lambda>_. -22)\<rparr>"

definition demo_stack :: stack where
  "demo_stack =
     \<lparr>st_bridge_info = br_bridge_info 0 (demo_bridge []),
      st_port_info = br_port_info 0 (demo_port 1 BR_STATE_DISABLED), st_ifindices = [], st_fdb = [], st_filters = [],
      st_fresh_port = port_info_copy (br_port_info 0 (demo_port 1 BR_STATE_DISABLED))\<rparr>"

definition demo_ctl :: ctl_env where
  "demo_ctl =
     \<lparr>ce_host = demo_env, ce_stack = demo_stack, ce_scan_lf = (\<lambda>s. map_option of_int (map_option sint (strtol False s))),
      ce_strerror = (\<lambda>_. ''error''), ce_secs = 0, ce_int = 0, ce_fdb = [], ce_filters = [],
      ce_filter_mem = replicate 64 7\<rparr>"

lemma demo_host_bridges: "host_bridges demo_host = [host_bridges demo_host ! 0]" "length (host_bridges demo_host) = 1"
  by (simp_all add: demo_host_def)

lemma demo_host_ok: "host_ok demo_host"
  by (simp add: host_ok_def demo_host_def all_devs_def demo_defs good_name_def IFNAMSIZ_def port_nos_def)

lemma demo_br_dev:
  "dev_name (br_dev (host_bridges demo_host ! 0)) = ''br0''" "host_bridges demo_host ! 0 \<in> set (host_bridges demo_host)"
  by (simp_all add: demo_host_def demo_defs IFNAMSIZ_def)

lemma demo_ctl_simps [simp]:
  "ce_host demo_ctl = demo_env" "ce_stack demo_ctl = demo_stack" "he_capable demo_env" "he_jiffies demo_env = 1000"
  by (simp_all add: demo_ctl_def demo_env_def)

section \<open>The library's copy\<close>



text \<open>Jiffies and times of day: every 32-bit number of jiffies is turned into seconds and microseconds and
back without loss, also where the product of seconds and a million leaves 32 bits.\<close>

theorem jiffies_timeval_roundtrip:
  "tv_to_jiffies (jiffies_to_tv j) = j \<and> unat (tv_usec (jiffies_to_tv j)) < 1000000"
proof
  show "tv_to_jiffies (jiffies_to_tv j) = j" by (rule tv_to_jiffies_to_tv)
  have "unat j mod 100 * 10000 < 1000000" by (simp add: mult.commute)
  then show "unat (tv_usec (jiffies_to_tv j)) < 1000000" by (simp add: jiffies_to_tv_eq unat_of_nat del: of_nat_mult)
qed

section \<open>Setting a time\<close>

text \<open>The commands that set a time, with what each should do to the bridge.\<close>

definition time_commands :: "(string \<times> (u32 \<Rightarrow> net_bridge \<Rightarrow> net_bridge)) list" where
  "time_commands =
     [(''setfd'', \<lambda>v br. br\<lparr>bridge_forward_delay := v, forward_delay := (if br_is_root_bridge br then v else forward_delay br)\<rparr>),
      (''sethello'', \<lambda>v br. br\<lparr>bridge_hello_time := v, hello_time := (if br_is_root_bridge br then v else hello_time br)\<rparr>),
      (''setmaxage'', \<lambda>v br. br\<lparr>bridge_max_age := v, max_age := (if br_is_root_bridge br then v else max_age br)\<rparr>),
      (''setageing'', \<lambda>v br. br\<lparr>ageing_time := v\<rparr>),
      (''setgcint'', \<lambda>v br. br\<lparr>gc_interval := v\<rparr>)]"

lemma time_in_table:
  "command_entry 1 ''setfd'' (On_bridge (\<lambda>e br a. br_cmd_setfd e br (a ! 0))) \<in> set commands"
  "command_entry 1 ''sethello'' (On_bridge (\<lambda>e br a. br_cmd_sethello e br (a ! 0))) \<in> set commands"
  "command_entry 1 ''setmaxage'' (On_bridge (\<lambda>e br a. br_cmd_setmaxage e br (a ! 0))) \<in> set commands"
  "command_entry 1 ''setageing'' (On_bridge (\<lambda>e br a. br_cmd_setageing e br (a ! 0))) \<in> set commands"
  "command_entry 1 ''setgcint'' (On_bridge (\<lambda>e br a. br_cmd_setgcint e br (a ! 0))) \<in> set commands"
  unfolding commands_def by (simp_all only: list.set insert_iff simp_thms)

lemmas time_cmd_defs = br_cmd_setfd_def br_cmd_sethello_def br_cmd_setmaxage_def br_cmd_setageing_def br_cmd_setgcint_def
  br_set_bridge_forward_delay_def br_set_bridge_hello_time_def br_set_bridge_max_age_def br_set_ageing_time_def
  br_set_gc_interval_def ignore_def request_def br_device_ioctl_def

lemma time_command_run:
  assumes "(name, upd) \<in> set time_commands" "ctl_bridge (ce_host e) (take IFNAMSIZ (lb_ifname lb)) (kern p) = Some br"
    "scan_secs e time = of_nat n" "n \<le> 42949672"
  obtains g where "command_entry 1 name (On_bridge (\<lambda>e br a. g e br (a ! 0))) \<in> set commands"
    "g e lb time p = (Exit 0, p\<lparr>kern := put_bridge (take IFNAMSIZ (lb_ifname lb)) (upd (word_of_nat (100 * n)) br) (kern p)\<rparr>)"
proof -
  note run = time_cmd_defs ctl.set_times [OF assms(2)] assms(3) tv_of_secs [OF assms(4)]
  have cases: "P" if "name = ''setfd'' \<Longrightarrow> upd = snd (time_commands ! 0) \<Longrightarrow> P" "name = ''sethello'' \<Longrightarrow> upd = snd (time_commands ! 1) \<Longrightarrow> P"
      "name = ''setmaxage'' \<Longrightarrow> upd = snd (time_commands ! 2) \<Longrightarrow> P" "name = ''setageing'' \<Longrightarrow> upd = snd (time_commands ! 3) \<Longrightarrow> P"
      "name = ''setgcint'' \<Longrightarrow> upd = snd (time_commands ! 4) \<Longrightarrow> P" for P
    using assms(1) that by (simp add: time_commands_def) blast
  show thesis
  proof (rule cases)
    assume "name = ''setfd''" "upd = snd (time_commands ! 0)"
    then show thesis using that [of br_cmd_setfd] time_in_table(1) by (simp add: run time_commands_def)
  next
    assume "name = ''sethello''" "upd = snd (time_commands ! 1)"
    then show thesis using that [of br_cmd_sethello] time_in_table(2) by (simp add: run time_commands_def)
  next
    assume "name = ''setmaxage''" "upd = snd (time_commands ! 2)"
    then show thesis using that [of br_cmd_setmaxage] time_in_table(3) by (simp add: run time_commands_def)
  next
    assume "name = ''setageing''" "upd = snd (time_commands ! 3)"
    then show thesis using that [of br_cmd_setageing] time_in_table(4) by (simp add: run time_commands_def)
  next
    assume "name = ''setgcint''" "upd = snd (time_commands ! 4)"
    then show thesis using that [of br_cmd_setgcint] time_in_table(5) by (simp add: run time_commands_def)
  qed
qed

text \<open>C14: Setting a time from the command line: each of setfd, sethello, setmaxage, setageing and setgcint with a
whole number of seconds sets the parameter of the bridge it names to 100 jiffies a second, the bridge's own
value and, when it is the root, the value in force; it changes no other bridge and no other parameter, prints
nothing and exits with 0.\<close>

theorem set_time_reaches_kernel:
  assumes "(cmd, upd) \<in> set time_commands" "host_ok h" "he_capable (ce_host e)" "length (host_bridges h) \<le> 32"
    "br \<in> set (host_bridges h)" "ce_scan_lf e time = Some (of_nat n)" "n \<le> 42949672"
  shows "\<exists>p. brctl_main e [prog, cmd, dev_name (br_dev br), time] h = Some (Exit 0, p)
    \<and> kern p = put_bridge (dev_name (br_dev br)) (upd (word_of_nat (100 * n)) br) h \<and> out_text p = [] \<and> err_text p = []"
proof -
  let ?lb = "bridge_view (he_jiffies (ce_host e)) br" and ?p = "started (ce_host e) h"
  have good: "good_name (dev_name (br_dev br))" by (rule host_dev(1) [OF assms(2) bridge_dev [OF assms(2,5)]])
  have "ctl_bridge (ce_host e) (take IFNAMSIZ (lb_ifname ?lb)) (kern ?p) = Some br"
    using ctl_bridge_ok [OF assms(2,3,5)] good by (simp add: started_def)
  moreover have "scan_secs e time = of_nat n" using assms(6) by (simp add: scan_secs_def)
  ultimately obtain g where g: "command_entry 1 cmd (On_bridge (\<lambda>e br a. g e br (a ! 0))) \<in> set commands"
      and run: "g e ?lb time ?p = (Exit 0, ?p\<lparr>kern := put_bridge (take IFNAMSIZ (lb_ifname ?lb)) (upd (word_of_nat (100 * n)) br) (kern ?p)\<rparr>)"
    by (rule time_command_run [OF assms(1) _ _ assms(7)])
  have "brctl_main e [prog, cmd, dev_name (br_dev br), time] h = Some (g e ?lb time ?p)"
    using brctl_on_bridge [OF assms(2-4) g assms(5), of "\<lambda>e br a. g e br (a ! 0)" "[time]" prog] by (simp add: command_entry_def)
  then show ?thesis using run good by (simp add: started_def)
qed

theorem set_time_reaches_kernel_witness:
  "\<exists>p. brctl_main demo_ctl [''brctl'', ''setageing'', ''br0'', ''60''] demo_host = Some (Exit 0, p)
    \<and> kern p = put_bridge ''br0'' ((host_bridges demo_host ! 0)\<lparr>ageing_time := 6000\<rparr>) demo_host \<and> out_text p = [] \<and> err_text p = []"
proof -
  have "strtol False ''60'' = Some 60" by code_simp
  then have "ce_scan_lf demo_ctl ''60'' = Some (of_nat 60)" by (simp add: demo_ctl_def)
  moreover have "(''setageing'', \<lambda>v br. br\<lparr>ageing_time := v\<rparr>) \<in> set time_commands" by (simp add: time_commands_def)
  ultimately show ?thesis
    using set_time_reaches_kernel [of "''setageing''" "\<lambda>v br. br\<lparr>ageing_time := v\<rparr>" demo_host demo_ctl
        "host_bridges demo_host ! 0" "''60''" 60 "''brctl''"] demo_host_ok demo_host_bridges(2) demo_br_dev by simp
qed

text \<open>A time with a fraction can lose a jiffy on its way: the number of type double nearest to 2.3, less
its 2 seconds and times a million, is 299999 once truncated, so 2.3 seconds are set as 229 jiffies and
shown as 2.29.\<close>

theorem fraction_loses_jiffy:
  "tv_to_jiffies (secs_to_tv (double_round (23 / 10))) = 229 \<and> br_show_timer (jiffies_to_tv 229) = ''   2.29''"
  by code_simp

section \<open>The table of addresses\<close>

lemma sint_word_of_nat: "n < 2147483648 \<Longrightarrow> sint (word_of_nat n :: s32) = int n"
  by (simp add: sint_uint uint_nat signed_take_bit_int_eq_self take_bit_nat_eq_self unat_of_nat)

text \<open>The entry of an address as showmacs has it.\<close>

definition fdb_view :: "u32 \<Rightarrow> net_bridge_fdb_entry \<Rightarrow> fdb_entry" where
  "fdb_view j f = lib_copy_fdb (copy_fdb j f)"

lemma br_read_fdb_page:
  assumes at: "ctl_bridge env (take IFNAMSIZ (lb_ifname lb)) h = Some br" and copied: "he_fdb_copy env = (\<lambda>_. Copied)"
    and off: "off < 2147483648"
  shows "br_read_fdb st env lb fdb (word_of_nat off) 1024 h =
    (let es = take 1024 (map (fdb_view (he_jiffies env)) (drop off (fdb_live (he_jiffies env) br)))
     in (int (length es), overlay es fdb, h))"
proof -
  let ?j = "he_jiffies env"
  define rs where "rs = take 1024 (map (copy_fdb ?j) (drop off (fdb_live ?j br)))"
  have "br_fdb_get_entries (\<lambda>_. Copied) ?j 1024 (int off) br = Inr rs"
    using br_fdb_get_entries_page [of "int off" ?j 1024 br] by (simp add: rs_def)
  then have ask: "sys_dev_ioctl env (take IFNAMSIZ (lb_ifname lb)) BRCTL_GET_FDB_ENTRIES 0 1024 (word_of_nat off) None h
      = (int (length rs), Out_fdb rs, h)"
    using ctl.get_fdb [OF at, of 0 1024 "word_of_nat off" None] sint_word_of_nat [OF off] copied by (simp add: io_env_def)
  have es: "take 1024 (map (fdb_view ?j) (drop off (fdb_live ?j br))) = map lib_copy_fdb rs"
    by (simp add: fdb_view_def take_map comp_def rs_def)
  show ?thesis
    unfolding br_read_fdb_def br_device_ioctl_def ask es by (simp add: Let_def overlay_def)
qed

lemma take_page:
  fixes n :: nat
  assumes "n \<le> length xs" "0 < k" "es = take k (drop n xs)"
  shows "n + length es \<le> length xs" "drop n xs = es @ drop (n + length es) xs" "es = [] \<longleftrightarrow> n = length xs"
  using assms append_take_drop_id [of k "drop n xs"]
  by (auto simp: add.commute min_def le_add_diff_inverse2 not_le)

lemma showmacs_loop_total:
  assumes "ctl_bridge (ce_host e) (take IFNAMSIZ (lb_ifname lb)) h = Some br" "he_fdb_copy (ce_host e) = (\<lambda>_. Copied)"
    "length (fdb_live (he_jiffies (ce_host e)) br) < 2147483648"
  shows "off \<le> length (fdb_live (he_jiffies (ce_host e)) br) \<Longrightarrow> kern p = h \<Longrightarrow>
    \<exists>es. showmacs_loop e lb (word_of_nat off) fdb p = Some (printf (map dump_fdb_entry es) p)
      \<and> mset es = mset (map (fdb_view (he_jiffies (ce_host e))) (drop off (fdb_live (he_jiffies (ce_host e)) br)))"
proof (induction "length (fdb_live (he_jiffies (ce_host e)) br) - off" arbitrary: off fdb p rule: less_induct)
  case less
  let ?view = "map (fdb_view (he_jiffies (ce_host e)))" and ?live = "fdb_live (he_jiffies (ce_host e)) br"
  define es where "es = take 1024 (drop off (?view ?live))"
  have "off \<le> length (?view ?live)" using less.prems(1) by simp
  note page = take_page [OF this _ es_def, simplified]
  have read: "br_read_fdb (ce_stack e) (ce_host e) lb fdb (word_of_nat off) 1024 (kern p) = (int (length es), overlay es fdb, h)"
    using br_read_fdb_page [OF assms(1,2), of off "ce_stack e" fdb] less.prems assms(3) by (simp add: Let_def drop_map es_def)
  show ?case
  proof (cases "es = []")
    case True
    then show ?thesis
      using page(3) read less.prems(2) by (intro exI [of _ "[]"]) (simp add: showmacs_loop.simps [of e lb _ fdb])
  next
    case False
    define q where "q = qsort compare_fdbs es"
    have q: "length q = length es" "mset q = mset es" by (simp_all add: q_def)
    have "length ?live - (off + length es) < length ?live - off" using False page(1) by (cases es) auto
    from less.hyps [OF this page(1), of "printf (map dump_fdb_entry q) p" "q @ drop (length es) fdb"]
    obtain fs where fs: "showmacs_loop e lb (word_of_nat (off + length es)) (q @ drop (length es) fdb) (printf (map dump_fdb_entry q) p)
          = Some (printf (map dump_fdb_entry fs) (printf (map dump_fdb_entry q) p))"
        "mset fs = mset (?view (drop (off + length es) ?live))"
      using less.prems(2) by auto
    have same: "p\<lparr>kern := h\<rparr> = p" using less.prems(2) by auto
    have "showmacs_loop e lb (word_of_nat off) fdb p = Some (printf (map dump_fdb_entry (q @ fs)) p)"
      using fs(1) read q False less.prems(2) unfolding showmacs_loop.simps [of e lb "word_of_nat off" fdb p]
      by (simp add: Let_def overlay_def printf_append q_def [symmetric] same)
    moreover have "mset (q @ fs) = mset (drop off (?view ?live))"
      using fs(2) q(2) page(2) by (simp add: drop_map)
    ultimately show ?thesis by (metis drop_map)
  qed
qed

text \<open>C15: The command showmacs ends and is complete: when the kernel can copy its entries out, the loop that
reads them 1024 at a time returns, the program prints after the heading one line for every live entry of the forwarding
database and no other, changes nothing and exits with 0.\<close>

theorem showmacs_prints_all:
  assumes "host_ok h" "he_capable (ce_host e)" "length (host_bridges h) \<le> 32" "br \<in> set (host_bridges h)"
    "he_fdb_copy (ce_host e) = (\<lambda>_. Copied)" "length (fdb_live (he_jiffies (ce_host e)) br) < 2147483648"
  shows "\<exists>p es heading. brctl_main e [prog, ''showmacs'', dev_name (br_dev br)] h = Some (Exit 0, p) \<and> kern p = h
    \<and> out_text p = heading @ nl @ concat (map dump_fdb_entry es) \<and> CHR 0x0A \<notin> set heading \<and> err_text p = []
    \<and> mset es = mset (map (fdb_view (he_jiffies (ce_host e))) (fdb_live (he_jiffies (ce_host e)) br))"
proof -
  let ?lb = "bridge_view (he_jiffies (ce_host e)) br" and ?p = "started (ce_host e) h"
  let ?heading = "concat [''port no'', tabs 1, ''mac addr'', tabs 2, ''is local?'', tabs 1, ''ageing timer'']"
  let ?q = "printf [''port no'', tabs 1, ''mac addr'', tabs 2, ''is local?'', tabs 1, ''ageing timer'', nl] ?p"
  have "good_name (dev_name (br_dev br))" by (rule host_dev(1) [OF assms(1) bridge_dev [OF assms(1,4)]])
  then have "ctl_bridge (ce_host e) (take IFNAMSIZ (lb_ifname ?lb)) h = Some br"
    using ctl_bridge_ok [OF assms(1,2,4)] by simp
  from showmacs_loop_total [OF this assms(5,6), of 0 ?q "ce_fdb e"]
  obtain es where es: "showmacs_loop e ?lb 0 (ce_fdb e) ?q = Some (printf (map dump_fdb_entry es) ?q)"
      "mset es = mset (map (fdb_view (he_jiffies (ce_host e))) (fdb_live (he_jiffies (ce_host e)) br))"
    by (auto simp: started_def)
  have "command_entry 0 ''showmacs'' (On_bridge_loop br_cmd_showmacs) \<in> set commands"
    unfolding commands_def by (simp only: list.set insert_iff simp_thms)
  from brctl_main_command [OF assms(1-3) this, of prog "[dev_name (br_dev br)]"]
  have "brctl_main e [prog, ''showmacs'', dev_name (br_dev br)] h = br_cmd_showmacs e ?lb ?p"
    using br_find_bridge_ok [OF assms(1,4), of "he_jiffies (ce_host e)"]
    by (simp add: command_entry_def run_command_def started_def)
  also have "\<dots> = Some (Exit 0, printf (map dump_fdb_entry es) ?q)"
    by (simp only: br_cmd_showmacs_def es(1) option.map)
  finally show ?thesis
    using es(2) by (intro exI [of _ "printf (map dump_fdb_entry es) ?q"] exI [of _ es] exI [of _ ?heading])
      (simp add: started_def tabs_def)
qed

theorem showmacs_prints_all_witness:
  "\<exists>p es heading. brctl_main demo_ctl [''brctl'', ''showmacs'', ''br0''] demo_host = Some (Exit 0, p) \<and> kern p = demo_host
    \<and> out_text p = heading @ nl @ concat (map dump_fdb_entry es) \<and> CHR 0x0A \<notin> set heading \<and> err_text p = []
    \<and> mset es = mset (map (fdb_view 1000) (fdb_live 1000 (host_bridges demo_host ! 0)))"
proof -
  have "fdb_live 1000 (host_bridges demo_host ! 0) = []"
    by (simp add: demo_host_def demo_defs fdb_live_def)
  moreover have "he_fdb_copy demo_env = (\<lambda>_. Copied)" by (simp add: demo_env_def)
  ultimately show ?thesis
    using showmacs_prints_all [OF demo_host_ok, of demo_ctl "host_bridges demo_host ! 0" "''brctl''"] demo_host_bridges(2) demo_br_dev
    by simp
qed

text \<open>C35: A failing read is taken for a number of entries: the library returns the positive error number where
the command expects the count, so when the bridge's device is gone showmacs goes on printing what the
stack holds, 19 lines at a time, and never returns.\<close>

theorem showmacs_never_ends:
  assumes "position (br_listed (ifr_name (take IFNAMSIZ (lb_ifname lb)))) (host_bridges (kern p)) = None"
    "find (\<lambda>dev. strncmp (dev_name dev) (ifr_name (take IFNAMSIZ (lb_ifname lb))) IFNAMSIZ = 0) (host_devs (kern p)) = None"
  shows "br_read_fdb st (ce_host e) lb fdb offset num (kern p) = (19, fdb, kern p) \<and> br_cmd_showmacs e lb p = None"
proof -
  have read: "br_read_fdb st (ce_host e) lb fdb offset num (kern p) = (19, fdb, kern p)" for st fdb offset num
    using assms by (simp add: br_read_fdb_def br_device_ioctl_def sys_dev_ioctl_def ENODEV_def)
  define P where "P = (\<lambda>e' lb' (offset :: s32) (fdb :: fdb_entry list) (q :: proc) (r :: proc). \<not> (e' = e \<and> lb' = lb \<and> kern q = kern p))"
  have "P e lb offset fdb q r" if "showmacs_loop e lb offset fdb q = Some r" for offset fdb q r
  proof (rule showmacs_loop.raw_induct [of P, OF _ that])
    fix loop e' lb' offset fdb q r
    assume loop: "\<And>e' lb' offset fdb q r. loop e' lb' offset fdb q = Some r \<Longrightarrow> P e' lb' offset fdb q r"
      and body: "(case br_read_fdb (ce_stack e') (ce_host e') lb' fdb offset 1024 (kern q) of
        (num, fdb, h) \<Rightarrow>
          if num = 0 then Some (q\<lparr>kern := h\<rparr>)
          else
            (let fdb = qsort compare_fdbs (take (nat num) fdb) @ drop (nat num) fdb
             in loop e' lb' (offset + word_of_int num) fdb
                  (printf (map dump_fdb_entry (take (nat num) fdb)) (q\<lparr>kern := h\<rparr>)))) = Some r"
    show "P e' lb' offset fdb q r"
      using body by (auto simp: P_def read Let_def dest!: loop)
  qed
  then have "showmacs_loop e lb offset fdb q = None" if "kern q = kern p" for offset fdb q
    using that by (cases "showmacs_loop e lb offset fdb q") (auto simp: P_def)
  then show ?thesis using read by (simp add: br_cmd_showmacs_def)
qed

theorem showmacs_never_ends_witness:
  "br_cmd_showmacs demo_ctl (bridge_view 1000 (host_bridges demo_host ! 0)) (started demo_env (demo_host\<lparr>host_bridges := []\<rparr>)) = None"
proof -
  have "good_name ''br0''" "good_name ''eth''" by (simp_all add: good_name_def IFNAMSIZ_def)
  moreover have "kern (started demo_env (demo_host\<lparr>host_bridges := []\<rparr>)) = \<lparr>host_bridges = [], host_devs = [demo_dev 2]\<rparr>"
    "dev_name (demo_dev 2) = ''eth''" by (simp_all add: started_def demo_host_def demo_dev_def)
  ultimately show ?thesis
    using showmacs_never_ends [of "bridge_view 1000 (host_bridges demo_host ! 0)" "started demo_env (demo_host\<lparr>host_bridges := []\<rparr>)"
      demo_stack demo_ctl "[]" 0 0] by (simp add: demo_br_dev)
qed

section \<open>States and ports\<close>

text \<open>The state of a port is shown wrongly: the names of the library are those of states numbered 0 to 4,
while the kernel of the fast path numbers forwarding 4 and blocking 8; showstp calls a forwarding port
blocking and a blocking port invalid, and never calls a port forwarding.\<close>

theorem state_names_mismatch:
  "map (\<lambda>s. br_get_state_name (sint (state_val s)))
     [BR_STATE_DISABLED, BR_STATE_LISTENING, BR_STATE_LEARNING, BR_STATE_FORWARDING, BR_STATE_BLOCKING]
   = [''disabled'', ''listening'', ''learning'', ''blocking'', ''<INVALID STATE>'']
   \<and> (\<forall>s. br_get_state_name (sint (state_val s)) \<noteq> ''forwarding'')"
proof (intro conjI allI)
  show "br_get_state_name (sint (state_val s)) \<noteq> ''forwarding''" for s
    by (cases s) (simp_all add: br_get_state_name_def state_names_def)
qed (simp add: br_get_state_name_def state_names_def)

lemma sint_u8_small: "n < 128 \<Longrightarrow> sint (word_of_nat n :: u8) = int n"
  by (simp add: sint_uint uint_nat signed_take_bit_int_eq_self take_bit_nat_eq_self unat_of_nat)

lemma sint_u8_negative:
  assumes "128 \<le> n mod 256"
  shows "sint (word_of_nat n :: u8) < 0"
proof -
  have u: "uint (word_of_nat n :: u8) = int (n mod 256)" by (simp add: uint_nat unat_of_nat zmod_int)
  define m where "m = int (n mod 256)"
  have m: "128 \<le> m" "m < 256" using assms by (simp_all add: m_def)
  then have "m div 128 = 1" by (simp add: div_eq_minus1 zdiv_mono1 pos_imp_zdiv_neg_iff div_pos_geq)
  then have "bit m 7" by (simp add: bit_iff_odd)
  then have "signed_take_bit 7 m = take_bit 8 m - 256"
    by (simp add: signed_take_bit_eq_take_bit_minus)
  then have "signed_take_bit 7 m < 0" using m by (simp add: take_bit_int_eq_self)
  then show ?thesis by (simp add: sint_uint u m_def)
qed

text \<open>Ports are found by an interface index that goes through a signed char: for an index below 128
br_find_port finds the port of that interface and only that; with an index from 128 to 255, or one whose
low byte is in that range or zero, it finds no port at all, so neither its cost nor its priority can be set.\<close>

theorem find_port_by_char:
  "(if_nametoindex name h < 128 \<longrightarrow>
      br_find_port lb name h =
        (if if_nametoindex name h = 0 then None else find (\<lambda>p. lp_ifindex p = if_nametoindex name h) (lb_ports lb)))
   \<and> (128 \<le> if_nametoindex name h mod 256 \<or> if_nametoindex name h mod 256 = 0 \<longrightarrow> br_find_port lb name h = None)"
proof (intro conjI impI)
  let ?i = "if_nametoindex name h"
  have zero: "(word_of_nat ?i :: u8) = 0 \<longleftrightarrow> ?i mod 256 = 0"
    by (simp add: word_of_nat_eq_0_iff mod_eq_0_iff_dvd)
  show "br_find_port lb name h = (if ?i = 0 then None else find (\<lambda>p. lp_ifindex p = ?i) (lb_ports lb))" if "?i < 128"
    using that sint_u8_small [OF that] zero by (simp add: br_find_port_def Let_def)
  show "br_find_port lb name h = None" if h: "128 \<le> ?i mod 256 \<or> ?i mod 256 = 0"
  proof (cases "?i mod 256 = 0")
    case False
    then have "sint (word_of_nat ?i :: u8) < 0" using h sint_u8_negative [of ?i] by simp
    then show ?thesis by (auto simp: br_find_port_def Let_def find_None_iff)
  qed (simp add: br_find_port_def Let_def zero)
qed

theorem find_port_by_char_witness:
  "br_find_port (bridge_view 1000 (host_bridges demo_host ! 0)) ''eth'' demo_host
     = find (\<lambda>p. lp_ifindex p = 2) (lb_ports (bridge_view 1000 (host_bridges demo_host ! 0)))"
proof -
  have "demo_dev 2 \<in> set (all_devs demo_host)" "dev_name (demo_dev 2) = ''eth''" "ifindex (demo_dev 2) = 2"
    by (simp_all add: demo_host_def all_devs_def demo_dev_def)
  then have "if_nametoindex ''eth'' demo_host = 2" using if_nametoindex_dev [OF demo_host_ok, of "demo_dev 2"] by simp
  then show ?thesis
    using find_port_by_char [of "''eth''" demo_host "bridge_view 1000 (host_bridges demo_host ! 0)"] by simp
qed

section \<open>Answers of the kernel\<close>

lemma show_walk_count:
  "show_walk es maxnum walk br = (fs, ret, br') \<Longrightarrow> ret < 0 \<or> ret = int (length fs)"
  by (induction es maxnum walk br rule: show_walk.induct) (auto simp: Let_def split: if_splits prod.splits)

text \<open>The record a command answers with.\<close>

definition answers :: "brctl \<Rightarrow> int \<Rightarrow> ioctl_out \<Rightarrow> bool" where
  "answers cmd ret res =
     (case res of
        Out_bridge i \<Rightarrow> cmd = BRCTL_GET_BRIDGE_INFO \<and> ret = 0
      | Out_indices xs \<Rightarrow> cmd = BRCTL_GET_PORT_LIST \<and> ret = 0 \<and> length xs = 256
      | Out_port i \<Rightarrow> cmd = BRCTL_GET_PORT_INFO \<and> ret = 0
      | Out_fdb rs \<Rightarrow> cmd = BRCTL_GET_FDB_ENTRIES \<and> ret = int (length rs)
      | Out_filters fs \<Rightarrow> cmd = BRCTL_SHOW_FILTER_ENTERIES \<and> (ret < 0 \<or> ret = int (length fs))
      | Out_mfd rs \<Rightarrow> cmd = BRCTL_MFD_DISPLAY \<and> ret = int (length rs)
      | Out_mc_status s \<Rightarrow> cmd = BRCTL_GET_MC_STATUS \<and> ret = 0
      | Out_dev dev \<Rightarrow> cmd = BRCTL_ADD_IF \<or> cmd = BRCTL_DEL_IF
      | Out_none \<Rightarrow> ret < 0 \<or> \<not> reading_cmd cmd \<and> cmd \<noteq> BRCTL_SHOW_FILTER_ENTERIES \<and> cmd \<noteq> BRCTL_GET_MC_STATUS)"

lemma errno_val_pos: "0 < errno_val e"
  by (cases e) simp_all



section \<open>Numbers and addresses as text\<close>

lemma of_digit_char: "d < 16 \<Longrightarrow> of_char (digit_char d) = (if d < 10 then 48 + d else 87 + d)"
  by (simp add: digit_char_def)

lemma digit_char_facts:
  assumes "d < 16"
  shows "is_hex_digit (digit_char d)" "digit_val (digit_char d) = d" "digit_char d \<noteq> CHR ''-''" "digit_char d \<noteq> CHR ''x''"
proof -
  show "digit_char d \<noteq> CHR ''-''" "digit_char d \<noteq> CHR ''x''"
    using of_digit_char [OF assms] assms by (auto split: if_splits)
qed (use assms in \<open>simp_all add: is_hex_digit_def digit_val_def of_digit_char Let_def\<close>)

lemma digits_16_small: "n < 16 \<Longrightarrow> digits 16 n = [digit_char n]"
  by (simp add: digits.simps)

lemma digits_16_step: "16 \<le> n \<Longrightarrow> digits 16 n = digits 16 (n div 16) @ [digit_char (n mod 16)]"
  by (simp add: digits.simps [of 16 n])

lemma fmt_x_byte:
  assumes "n < 256"
  shows "fmt_x 2 n = [digit_char (n div 16), digit_char (n mod 16)]"
proof (cases "n < 16")
  case True
  have "digit_char 0 = CHR ''0''" by code_simp
  then show ?thesis using True by (simp add: fmt_x_def pad_def digits_16_small)
next
  case False
  then show ?thesis using assms by (simp add: fmt_x_def pad_def digits_16_step digits_16_small)
qed

lemma scan_byte:
  assumes "n < 256"
  shows "scan_number 0 (fmt_x 2 n) = Some n" "CHR ''-'' \<notin> set (fmt_x 2 n)" "fmt_x 2 n \<noteq> []"
proof -
  have "n div 16 < 16" "n mod 16 < 16" using assms by simp_all
  note d = digit_char_facts [OF this(1)] digit_char_facts [OF this(2)]
  show "scan_number 0 (fmt_x 2 n) = Some n" by (simp add: fmt_x_byte [OF assms] scan_number_def Let_def d)
  show "CHR ''-'' \<notin> set (fmt_x 2 n)" "fmt_x 2 n \<noteq> []" using d(3,7) by (auto simp: fmt_x_byte [OF assms])
qed

text \<open>The digits a scan collects, and their value.\<close>

definition hex_value :: "string \<Rightarrow> nat" where
  "hex_value s = foldl (\<lambda>v ch. v * 16 + digit_val ch) 0 s"

lemma foldr_hex:
  "foldr (\<lambda>ch (v, base). (v + digit_val ch * base, base * 16)) s (0, 1 :: nat) = (hex_value s, 16 ^ length s)"
proof (induction s)
  case (Cons c s)
  have "foldl (\<lambda>v ch. v * 16 + digit_val ch) a s = a * 16 ^ length s + foldl (\<lambda>v ch. v * 16 + digit_val ch) 0 s" for a
  proof (induction s arbitrary: a)
    case (Cons d s)
    show ?case by (simp, subst (1 2) Cons) (simp add: algebra_simps)
  qed simp
  from this [of "digit_val c"] show ?case using Cons by (simp add: hex_value_def)
qed (simp add: hex_value_def)

lemma scan_digits_ok:
  "list_all is_hex_digit s \<Longrightarrow> length acc + length s \<le> 4 \<Longrightarrow> scan_digits 1 s acc = Some (acc @ s)"
  by (induction s arbitrary: acc) (simp_all add: Let_def)

lemma digits_16_facts:
  "list_all is_hex_digit (digits 16 n) \<and> hex_value (digits 16 n) = n \<and> CHR ''x'' \<notin> set (digits 16 n) \<and> digits 16 n \<noteq> []"
proof (induction n rule: less_induct)
  case (less n)
  show ?case
  proof (cases "n < 16")
    case True
    then show ?thesis using digit_char_facts [OF True] by (auto simp: digits_16_small hex_value_def)
  next
    case False
    then have step: "digits 16 n = digits 16 (n div 16) @ [digit_char (n mod 16)]" by (simp add: digits_16_step)
    have "n mod 16 < 16" "n div 16 < n" using False by simp_all
    then show ?thesis
      unfolding step using digit_char_facts [of "n mod 16"] less [of "n div 16"] by (auto simp: hex_value_def)
  qed
qed

lemma length_digits_16: "n < 16 ^ Suc k \<Longrightarrow> length (digits 16 n) \<le> Suc k"
proof (induction k arbitrary: n)
  case (Suc k)
  then show ?case
    by (cases "n < 16") (simp_all add: digits_16_small digits_16_step less_mult_imp_div_less mult.commute)
qed (simp add: digits_16_small)

lemma scan_halfword: "n < 65536 \<Longrightarrow> scan_number 1 (fmt_x 1 n) = Some n"
proof -
  assume n: "n < 65536"
  have "fmt_x 1 n = digits 16 n" using digits_16_facts [of n] by (cases "digits 16 n") (auto simp: fmt_x_def pad_def)
  then show ?thesis
    using length_digits_16 [of n 3] n digits_16_facts [of n] scan_digits_ok [of "digits 16 n" "[]"]
    by (simp add: scan_number_def foldr_hex del: One_nat_def)
qed

lemma strtok_last: "t \<noteq> [] \<Longrightarrow> d \<notin> set t \<Longrightarrow> strtok d t = [t]"
proof -
  assume t: "t \<noteq> []" "d \<notin> set t"
  then have "dropWhile (\<lambda>c. c = d) t = t" "takeWhile (\<lambda>c. c \<noteq> d) t = t" "dropWhile (\<lambda>c. c \<noteq> d) t = []"
    by (cases t; auto simp: takeWhile_eq_all_conv dropWhile_eq_Nil_conv)+
  then have "strtok d t = (if t = [] then [] else t # strtok d [])"
    unfolding strtok.simps [of d t] Let_def by (simp only:)
  then show ?thesis using t(1) by (simp add: strtok.simps [of d "[]"])
qed

lemma strtok_next: "t \<noteq> [] \<Longrightarrow> d \<notin> set t \<Longrightarrow> strtok d (t @ d # s) = t # strtok d s"
proof -
  assume t: "t \<noteq> []" "d \<notin> set t"
  then have "dropWhile (\<lambda>c. c = d) (t @ d # s) = t @ d # s" by (cases t) auto
  moreover have "takeWhile (\<lambda>c. c \<noteq> d) (t @ d # s) = t" "dropWhile (\<lambda>c. c \<noteq> d) (t @ d # s) = d # s"
    using t(2) by (auto simp: takeWhile_append dropWhile_append)
  ultimately show ?thesis
    by (simp add: strtok.simps [of d "t @ d # s"] strtok.simps [of d "d # s"] strtok.simps [of d s])
qed

text \<open>The bytes of \<open>m\<close> from \<open>i\<close> on replaced by \<open>bs\<close>.\<close>

definition patch_bytes :: "nat \<Rightarrow> u8 list \<Rightarrow> u8 list \<Rightarrow> u8 list" where
  "patch_bytes i bs m = take i m @ bs @ drop (i + length bs) m"

lemma store_bytes_text:
  "i + length bs \<le> length m \<Longrightarrow> store_bytes i (map (\<lambda>b. fmt_x 2 (unat b)) bs) m = Stored (patch_bytes i bs m)"
proof (induction bs arbitrary: i m)
  case (Cons b bs)
  have "unat b < 256" using unsigned_less [of b] by simp
  then have "store_bytes i (map (\<lambda>b. fmt_x 2 (unat b)) (b # bs)) m = Stored (patch_bytes (Suc i) bs (m[i := b]))"
    using Cons.prems by (simp add: scan_byte store_byte_def Cons.IH)
  then show ?case using Cons.prems by (simp add: patch_bytes_def take_Suc_conv_app_nth)
qed (simp add: patch_bytes_def)

lemma strtok_fmt_mac:
  "strtok (CHR ''-'') (fmt_mac (CHR ''-'') a) = map (\<lambda>b. fmt_x 2 (unat b)) (mac_bytes a)"
proof -
  have byte: "fmt_x 2 (unat b) \<noteq> []" "CHR ''-'' \<notin> set (fmt_x 2 (unat b))" for b :: u8
    using scan_byte(2,3) [of "unat b"] unsigned_less [of b] by simp_all
  show ?thesis
    by (cases a) (simp add: fmt_mac_def Let_def strtok_next [OF byte] strtok_last [OF byte])
qed

text \<open>What showfilter prints can be typed back: an address printed with dashes is cut by strtok into
six tokens, and scanning them stores exactly the six bytes of the address, while the protocol printed as
0x and hexadecimal digits is read back as the same halfword.\<close>

theorem filter_text_roundtrip:
  fixes w :: u16
  assumes "i + 6 \<le> length m" "14 \<le> length m"
  shows "store_bytes i (strtok (CHR ''-'') (fmt_mac (CHR ''-'') a)) m = Stored (patch_bytes i (mac_bytes a) m)
    \<and> store_proto (tl (strtok (CHR ''x'') (''0x'' @ fmt_x 1 (unat w)))) m
        = Stored (m[12 := ucast w, 13 := ucast (drop_bit 8 w)])"
proof
  have "length (mac_bytes a) = 6" by (cases a) simp
  then show "store_bytes i (strtok (CHR ''-'') (fmt_mac (CHR ''-'') a)) m = Stored (patch_bytes i (mac_bytes a) m)"
    using assms(1) by (simp add: strtok_fmt_mac store_bytes_text)
  have n: "unat w < 65536" using unsigned_less [of w] by simp
  have "fmt_x 1 (unat w) = digits 16 (unat w)"
    using digits_16_facts [of "unat w"] by (cases "digits 16 (unat w)") (auto simp: fmt_x_def pad_def)
  then have "strtok (CHR ''x'') (''0'' @ CHR ''x'' # fmt_x 1 (unat w)) = [''0'', fmt_x 1 (unat w)]"
    using digits_16_facts [of "unat w"] by (subst strtok_next) (simp_all add: strtok_last)
  moreover have "unat (drop_bit 8 w) = unat w div 256" by (simp add: drop_bit_eq_div unat_div)
  then have "(word_of_nat (unat w div 256) :: u8) = ucast (drop_bit 8 w)" by (rule ucast_of_unat [symmetric])
  moreover have "(word_of_nat (unat w) :: u8) = ucast w" by (rule ucast_of_unat [OF refl, symmetric])
  ultimately show "store_proto (tl (strtok (CHR ''x'') (''0x'' @ fmt_x 1 (unat w)))) m
      = Stored (m[12 := ucast w, 13 := ucast (drop_bit 8 w)])"
    using assms(2) scan_halfword [OF n] by simp
qed

theorem filter_text_roundtrip_witness:
  "store_bytes 6 (strtok (CHR ''-'') (fmt_mac (CHR ''-'') (demo_mac 5))) (replicate 20 0)
     = Stored (patch_bytes 6 [0, 1, 2, 3, 4, 5] (replicate 20 0))"
  using filter_text_roundtrip [of 6 "replicate 20 0" "demo_mac 5" 0] by (simp add: demo_mac_def)

section \<open>Adding a filter\<close>

text \<open>Memory that differs in the bytes of the caller's structure at most.\<close>

definition beyond_same :: "u8 list \<Rightarrow> u8 list \<Rightarrow> bool" where
  "beyond_same m m' \<longleftrightarrow> length m' = length m \<and> drop 20 m' = drop 20 m"

lemma beyond_same_trans: "beyond_same a b \<Longrightarrow> beyond_same b c \<Longrightarrow> beyond_same a c"
  by (simp add: beyond_same_def)

lemma beyond_same_refl [simp]: "beyond_same m m"
  by (simp add: beyond_same_def)

lemma beyond_same_update: "i < 20 \<Longrightarrow> beyond_same m (m[i := b])"
  by (simp add: beyond_same_def)

lemma store_bytes_beyond:
  "store_bytes i ts m = Stored m' \<Longrightarrow> i + length ts \<le> 20 \<Longrightarrow> beyond_same m m'"
proof (induction ts arbitrary: i m)
  case (Cons t ts)
  then obtain v where "store_bytes (Suc i) ts (m[i := of_nat v]) = Stored m'"
    by (auto simp: store_byte_def split: option.splits if_splits)
  from Cons.IH [OF this] Cons.prems(2) have "beyond_same (m[i := of_nat v]) m'" by simp
  moreover have "beyond_same m (m[i := of_nat v])" using Cons.prems(2) by (simp add: beyond_same_update)
  ultimately show ?case using beyond_same_trans by blast
qed simp

lemma store_proto_beyond: "store_proto ts m = Stored m' \<Longrightarrow> beyond_same m m'"
proof (induction ts arbitrary: m)
  case (Cons t ts)
  then obtain v where "store_proto ts (m[12 := of_nat v, 13 := of_nat (v div 256)]) = Stored m'"
    by (auto split: option.splits if_splits)
  from Cons.IH [OF this] have "beyond_same (m[12 := of_nat v, 13 := of_nat (v div 256)]) m'" .
  moreover have "beyond_same m (m[12 := of_nat v, 13 := of_nat (v div 256)])" by (simp add: beyond_same_def)
  ultimately show ?case using beyond_same_trans by blast
qed simp

lemma nth_beyond: "beyond_same m m' \<Longrightarrow> 20 \<le> i \<Longrightarrow> i < length m \<Longrightarrow> m' ! i = m ! i"
  using nth_drop [of 20 m "i - 20"] nth_drop [of 20 m' "i - 20"] by (simp add: beyond_same_def)

lemma view_beyond:
  assumes "beyond_same m m'" "40 \<le> length m"
  shows "\<exists>v. kernel_filter_view m' = Some v \<and> fe_src_mac_addr v = mac_at m 20 \<and> fe_dst_mac_addr v = mac_at m 26
    \<and> fe_proto v = halfword (m ! 32) (m ! 33) \<and> fe_access_type v = m ! 34"
proof -
  have "m' ! i = m ! i" if "20 \<le> i" "i < 40" for i using nth_beyond [OF assms(1) that(1)] that(2) assms(2) by simp
  moreover have "length m' = length m" using assms(1) by (simp add: beyond_same_def)
  ultimately show ?thesis using assms(2) by (simp add: kernel_filter_view_def mac_at_def)
qed

lemma fill_filter_exit:
  assumes "fill_filter e a0 a1 a2 a3 final p = (Exit c, p')" "0 \<le> c"
    "length (strtok (CHR ''-'') a0) \<le> 6" "length (strtok (CHR ''-'') a1) \<le> 6"
  shows "\<exists>m. beyond_same (ce_filter_mem e) m \<and> final m = (c, kern p')"
proof -
  let ?ty = "ucast (atoi a3) :: u8"
  obtain m1 m2 m3 m4 where m: "store_byte 14 ?ty (ce_filter_mem e) = Stored m1"
      "store_bytes 6 (strtok (CHR ''-'') a0) m1 = Stored m2" "store_bytes 0 (strtok (CHR ''-'') a1) m2 = Stored m3"
      "store_proto (tl (strtok (CHR ''x'') a2)) m3 = Stored m4" "final m4 = (c, kern p')"
    using assms(1,2) unfolding fill_filter_def Let_def
    by (auto split: if_splits filter_parse.splits prod.splits)
  have "beyond_same (ce_filter_mem e) m1" using m(1) by (auto simp: store_byte_def beyond_same_update split: if_splits)
  moreover have "beyond_same m1 m2" "beyond_same m2 m3" "beyond_same m3 m4"
    using store_bytes_beyond [OF m(2)] store_bytes_beyond [OF m(3)] store_proto_beyond [OF m(4)] assms(3,4) by simp_all
  ultimately show ?thesis using m(5) beyond_same_trans by blast
qed

lemma add_filter_success:
  "br_add_filter_entry (Some v) br = (0, br') \<Longrightarrow> blacklist br' = blacklist br @ [new_filter_entry v]"
  by (auto simp: br_add_filter_entry_def Let_def write_lock_filter_def write_unlock_filter_def alloc_def split: if_splits list.splits prod.splits)

text \<open>C17: The filter that addfilter installs is not the one it is asked for: the structure it fills is twenty bytes
and starts with the addresses, the kernel's starts with two port names and is forty, and the library casts one to the other.
Whatever addresses of up to six bytes, protocol and access type are given, the new entry of the kernel has
the addresses, protocol and access type that happen to lie in the memory behind the structure.\<close>

theorem addfilter_ignores_arguments:
  assumes "br_cmd_addfilter e lb dst src proto access p = (Exit 0, p')"
    "ctl_bridge (ce_host e) (take IFNAMSIZ (lb_ifname lb)) (kern p) = Some br" "40 \<le> length (ce_filter_mem e)"
    "length (strtok (CHR ''-'') dst) \<le> 6" "length (strtok (CHR ''-'') src) \<le> 6"
  shows "\<exists>br' f. kern p' = put_bridge (take IFNAMSIZ (lb_ifname lb)) br' (kern p) \<and> blacklist br' = blacklist br @ [f]
    \<and> src_mac_addr f = mac_at (ce_filter_mem e) 20 \<and> dst_mac_addr f = mac_at (ce_filter_mem e) 26
    \<and> eth_proto f = htons (halfword (ce_filter_mem e ! 32) (ce_filter_mem e ! 33)) \<and> access_type f = ce_filter_mem e ! 34"
proof -
  obtain m where m: "beyond_same (ce_filter_mem e) m" "br_set_filter_entry (ce_host e) lb m (kern p) = (0, kern p')"
    using fill_filter_exit [OF assms(1) [unfolded br_cmd_addfilter_def] order_refl assms(4,5)] by blast
  obtain v where v: "kernel_filter_view m = Some v" "fe_src_mac_addr v = mac_at (ce_filter_mem e) 20"
      "fe_dst_mac_addr v = mac_at (ce_filter_mem e) 26"
      "fe_proto v = halfword (ce_filter_mem e ! 32) (ce_filter_mem e ! 33)" "fe_access_type v = ce_filter_mem e ! 34"
    using view_beyond [OF m(1) assms(3)] by blast
  obtain ret br' where r: "br_add_filter_entry (Some v) br = (ret, br')" by (cases "br_add_filter_entry (Some v) br")
  have "ret = 0 \<or> ret = -1"
    using r by (auto simp: br_add_filter_entry_def Let_def split: if_splits prod.splits)
  then have "ret = 0" "kern p' = put_bridge (take IFNAMSIZ (lb_ifname lb)) br' (kern p)"
    using m(2) r v(1) by (auto simp: br_set_filter_entry_def br_device_ioctl_def ctl.add_filter [OF assms(2)] request_def)
  then show ?thesis
    using add_filter_success r v by (intro exI [of _ br'] exI [of _ "new_filter_entry v"]) (simp add: new_filter_entry_def Let_def)
qed

lemma demo_addfilter:
  "\<exists>p'. br_cmd_addfilter demo_ctl (bridge_view 1000 (host_bridges demo_host ! 0)) (fmt_mac (CHR ''-'') (demo_mac 5))
     (fmt_mac (CHR ''-'') (demo_mac 6)) ''0'' ''1'' (started demo_env demo_host) = (Exit 0, p')"
proof -
  have ty: "(ucast (atoi ''1'') :: u8) = 1" by code_simp
  have "ctl_bridge demo_env ''br0'' demo_host = Some (host_bridges demo_host ! 0)"
    using ctl_bridge_ok [OF demo_host_ok, of demo_env "host_bridges demo_host ! 0"] demo_br_dev by simp
  note add = ctl.add_filter [OF this]
  have ok: "fst (br_set_filter_entry demo_env (bridge_view 1000 (host_bridges demo_host ! 0)) m demo_host) = 0" if "40 \<le> length m" for m
    using that by (simp add: br_set_filter_entry_def br_device_ioctl_def demo_br_dev IFNAMSIZ_def add request_def kernel_filter_view_def
        split: prod.split) (auto simp: br_add_filter_entry_def Let_def alloc_def demo_host_def demo_defs write_lock_filter_def write_unlock_filter_def)
  have proto: "strtok (CHR ''x'') ''0'' = [''0'']" by (rule strtok_last) simp_all
  have six: "length (mac_bytes a) = 6" for a by (cases a) simp
  obtain m1 where m1: "store_byte 14 1 (ce_filter_mem demo_ctl) = Stored m1" "length m1 = 64"
    by (simp add: store_byte_def demo_ctl_def)
  define m2 where "m2 = patch_bytes 6 (mac_bytes (demo_mac 5)) m1"
  define m3 where "m3 = patch_bytes 0 (mac_bytes (demo_mac 6)) m2"
  have len: "length m2 = 64" "length m3 = 64" using m1(2) six by (simp_all add: m2_def m3_def patch_bytes_def)
  have "store_bytes 6 (strtok (CHR ''-'') (fmt_mac (CHR ''-'') (demo_mac 5))) m1 = Stored m2"
    "store_bytes 0 (strtok (CHR ''-'') (fmt_mac (CHR ''-'') (demo_mac 6))) m2 = Stored m3"
    using m1(2) len six by (simp_all add: strtok_fmt_mac store_bytes_text m2_def m3_def)
  then show ?thesis
    using ok [of m3] len(2) m1(1)
    by (cases "br_set_filter_entry demo_env (bridge_view 1000 (host_bridges demo_host ! 0)) m3 demo_host")
       (simp add: br_cmd_addfilter_def fill_filter_def Let_def ty proto started_def)
qed

theorem addfilter_ignores_arguments_witness:
  "\<exists>p' br' f. br_cmd_addfilter demo_ctl (bridge_view 1000 (host_bridges demo_host ! 0)) (fmt_mac (CHR ''-'') (demo_mac 5))
       (fmt_mac (CHR ''-'') (demo_mac 6)) ''0'' ''1'' (started demo_env demo_host) = (Exit 0, p')
     \<and> kern p' = put_bridge ''br0'' br' demo_host \<and> blacklist br' = [f]
     \<and> src_mac_addr f = MAC 7 7 7 7 7 7 \<and> dst_mac_addr f = MAC 7 7 7 7 7 7"
proof -
  let ?lb = "bridge_view 1000 (host_bridges demo_host ! 0)"
  obtain p' where p': "br_cmd_addfilter demo_ctl ?lb (fmt_mac (CHR ''-'') (demo_mac 5))
     (fmt_mac (CHR ''-'') (demo_mac 6)) ''0'' ''1'' (started demo_env demo_host) = (Exit 0, p')" using demo_addfilter by blast
  have at: "ctl_bridge (ce_host demo_ctl) (take IFNAMSIZ (lb_ifname ?lb)) (kern (started demo_env demo_host)) = Some (host_bridges demo_host ! 0)"
    using ctl_bridge_ok [OF demo_host_ok, of demo_env "host_bridges demo_host ! 0"] demo_br_dev by (simp add: started_def IFNAMSIZ_def)
  have six: "length (strtok (CHR ''-'') (fmt_mac (CHR ''-'') a)) \<le> 6" for a by (cases a) (simp add: strtok_fmt_mac)
  have "blacklist (host_bridges demo_host ! 0) = []" "ce_filter_mem demo_ctl = replicate 64 7"
    by (simp_all add: demo_host_def demo_defs demo_ctl_def)
  then obtain br' f where "kern p' = put_bridge ''br0'' br' demo_host" "blacklist br' = [f]"
      "src_mac_addr f = MAC 7 7 7 7 7 7" "dst_mac_addr f = MAC 7 7 7 7 7 7"
    using addfilter_ignores_arguments [OF p' at _ six six] by (auto simp: started_def demo_br_dev IFNAMSIZ_def mac_at_def)
  then show ?thesis using p' by blast
qed

section \<open>Commands that only read\<close>

lemma showmacs_loop_reads:
  assumes "showmacs_loop e lb offset fdb q = Some r"
  shows "kern r = kern q"
proof (rule showmacs_loop.raw_induct [of "\<lambda>e lb offset fdb q r. kern r = kern q", OF _ assms])
  fix loop e' lb' offset fdb q r
  assume loop: "\<And>e' lb' offset fdb q r. loop e' lb' offset fdb q = Some r \<Longrightarrow> kern r = kern q"
    and body: "(case br_read_fdb (ce_stack e') (ce_host e') lb' fdb offset 1024 (kern q) of
      (num, fdb, h) \<Rightarrow>
        if num = 0 then Some (q\<lparr>kern := h\<rparr>)
        else
          (let fdb = qsort compare_fdbs (take (nat num) fdb) @ drop (nat num) fdb
           in loop e' lb' (offset + word_of_int num) fdb
                (printf (map dump_fdb_entry (take (nat num) fdb)) (q\<lparr>kern := h\<rparr>)))) = Some r"
  then show "kern r = kern q"
    by (auto simp: Let_def split: prod.splits if_splits dest!: loop br_read_fdb_reads)
qed

lemma command_unique:
  assumes "c \<in> set commands" "d \<in> set commands" "command_name c = command_name d"
  shows "c = d"
  using lookup_command [OF assms(1)] lookup_command [OF assms(2)] unfolding assms(3) by (metis option.inject)

definition shows_only :: "command \<Rightarrow> bool" where
  "shows_only c \<longleftrightarrow> command_name c \<in> {''show'', ''showstp'', ''showmacs''}"

lemma showing_func:
  assumes "c \<in> set commands" "shows_only c"
  shows "func c = No_bridge (\<lambda>e a. br_cmd_show) \<or> func c = On_bridge (\<lambda>e br a. br_cmd_showstp br)
    \<or> func c = On_bridge_loop br_cmd_showmacs"
proof -
  have "command_entry 0 ''show'' (No_bridge (\<lambda>e a. br_cmd_show)) \<in> set commands"
    "command_entry 0 ''showstp'' (On_bridge (\<lambda>e br a. br_cmd_showstp br)) \<in> set commands"
    "command_entry 0 ''showmacs'' (On_bridge_loop br_cmd_showmacs) \<in> set commands"
    unfolding commands_def by (simp_all only: list.set insert_iff simp_thms)
  note in_table = this [THEN command_unique [OF assms(1)]]
  consider "command_name c = ''show''" | "command_name c = ''showstp''" | "command_name c = ''showmacs''"
    using assms(2) by (auto simp: shows_only_def)
  then show ?thesis
  proof cases
    case 1
    then show ?thesis using in_table(1) by (simp add: command_entry_def)
  next
    case 2
    then show ?thesis using in_table(2) by (simp add: command_entry_def)
  next
    case 3
    then show ?thesis using in_table(3) by (simp add: command_entry_def)
  qed
qed

lemma run_showing:
  assumes "c \<in> set commands" "shows_only c" "run_command e c args p = Some (r, p')"
  shows "kern p' = kern p"
proof -
  have loop: "kern q = kern p" if "br_cmd_showmacs e lb p = Some (r, q)" for lb r q
    using that showmacs_loop_reads by (auto simp: br_cmd_showmacs_def)
  show ?thesis
    using showing_func [OF assms(1,2)]
  proof (elim disjE)
    assume "func c = On_bridge_loop br_cmd_showmacs"
    then show ?thesis using assms(3) loop
      by (auto simp: run_command_def Let_def split: list.splits option.splits if_splits)
  qed (use assms(3) in \<open>auto simp: run_command_def Let_def br_cmd_show_def br_cmd_showstp_def split: list.splits option.splits if_splits\<close>)
qed

text \<open>C19: Looking does not touch: whatever the arguments and whatever state the kernel is in, a run of the program with
too few arguments, with an unknown command, or with show, showstp or showmacs leaves every bridge and every
device as it was.\<close>

theorem showing_changes_nothing:
  assumes "brctl_main e argv h = Some (r, p)"
    "\<forall>c. 2 \<le> length argv \<and> br_command_lookup (argv ! 1) = Some c \<longrightarrow> shows_only c"
  shows "kern p = h"
proof -
  have in_table: "c \<in> set commands" if "br_command_lookup (argv ! 1) = Some c" for c
    using that by (auto simp: br_command_lookup_def find_Some_iff)
  show ?thesis
  proof (cases "br_init (ce_stack e) (ce_host e) h")
    case None
    then show ?thesis using assms(1) by (auto simp: brctl_main_def)
  next
    case (Some i)
    then obtain err bl where i: "br_init (ce_stack e) (ce_host e) h = Some (err, bl, h)"
      using br_init_reads by (cases i) blast
    show ?thesis
    proof (cases "2 \<le> length argv \<and> br_command_lookup (argv ! 1) \<noteq> None")
      case True
      then obtain c where c: "br_command_lookup (argv ! 1) = Some c" "shows_only c" using assms(2) by blast
      then show ?thesis
        using assms(1) i True run_showing [OF in_table [OF c(1)] c(2)] by (auto simp: brctl_main_def Let_def)
    next
      case False
      then show ?thesis using assms(1) i
        by (auto simp: brctl_main_def brctl_help_def Let_def not_le simp del: One_nat_def split: if_splits)
    qed
  qed
qed

theorem showing_changes_nothing_witness:
  "\<exists>r p. brctl_main demo_ctl [''brctl'', ''show''] demo_host = Some (r, p) \<and> kern p = demo_host"
proof -
  have "command_entry 0 ''show'' (No_bridge (\<lambda>e a. br_cmd_show)) \<in> set commands"
    unfolding commands_def by (simp only: list.set insert_iff simp_thms)
  note tab = this lookup_command [OF this]
  have run: "brctl_main demo_ctl [''brctl'', ''show''] demo_host = Some (br_cmd_show (started demo_env demo_host))"
    using brctl_no_bridge [OF demo_host_ok _ _ tab(1), of demo_ctl "\<lambda>e a. br_cmd_show" "[]" "''brctl''"] demo_host_bridges(2)
    by (simp add: command_entry_def)
  obtain r p where "br_cmd_show (started demo_env demo_host) = (r, p)" by fastforce
  then show ?thesis
    using run showing_changes_nothing [of demo_ctl "[''brctl'', ''show'']" demo_host r p] tab(2)
    by (simp add: command_entry_def shows_only_def)
qed

section \<open>Bridges come and go\<close>

lemma add_in_table:
  "command_entry 1 ''addbr'' (No_bridge (\<lambda>e a. br_cmd_addbr e (a ! 0))) \<in> set commands"
  "command_entry 1 ''delbr'' (No_bridge (\<lambda>e a. br_cmd_delbr e (a ! 0))) \<in> set commands"
  unfolding commands_def by (simp_all only: list.set insert_iff simp_thms)

lemma dev_get_by_name_None:
  "host_ok h \<Longrightarrow> good_name n \<Longrightarrow> n \<notin> dev_name ` set (all_devs h) \<Longrightarrow> dev_get_by_name n h = None"
  by (auto simp: dev_get_by_name_def find_None_iff host_ok_def)

text \<open>The bridge a machine gets under a new name.\<close>

definition fresh_bridge :: "host_env \<Rightarrow> string \<Rightarrow> net_bridge" where
  "fresh_bridge env n =
     (let br = new_nb n (he_mem_later env) 0
      in br\<lparr>br_dev := (br_dev br)\<lparr>unused_alignment_fixer := 1500, ifindex := he_new_ifindex env, dev_listed := True, dev_refcnt := 1\<rparr>\<rparr>)"

lemma fresh_bridge_simps:
  "good_name n \<Longrightarrow> dev_name (br_dev (fresh_bridge env n)) = n" "ifindex (br_dev (fresh_bridge env n)) = he_new_ifindex env"
  "port_list (fresh_bridge env n) = []" "dev_listed (br_dev (fresh_bridge env n))" "\<not> dev_up (br_dev (fresh_bridge env n))"
  by (simp_all add: fresh_bridge_def new_nb_def Let_def br_mfd_init_def)

lemma gone_more: "gone_bridges (br # host_bridges h) h = []"
  by (auto simp: gone_bridges_def filter_empty_conv)

lemma register_fresh:
  assumes "good_name n" "plain_name n" "\<not> ex n"
  shows "(new_nb n m 0)\<lparr>br_dev := snd (register_netdev ex (he_new_ifindex env) (br_dev (new_nb n m 0)))\<rparr>
    = fresh_bridge (env\<lparr>he_mem_later := m\<rparr>) n"
proof -
  have "dev_name (br_dev (new_nb n m 0)) = n" "dev_refcnt (br_dev (new_nb n m 0)) = 0" "dev_mtu (br_dev (new_nb n m 0)) = 1500"
    using assms(1) by (simp_all add: new_nb_def Let_def br_mfd_init_def)
  then show ?thesis
    using assms(2,3) by (simp add: register_plain register_netdevice_def fresh_bridge_def Let_def)
qed

lemma lib_br_add_bridge_ok:
  assumes "host_ok h" "he_capable env" "he_mem_ok env" "good_name n" "plain_name n" "n \<notin> dev_name ` set (all_devs h)"
  shows "lib_br_add_bridge env n h = (0, h\<lparr>host_bridges := fresh_bridge env n # host_bridges h\<rparr>)"
  using assms dev_get_by_name_None [OF assms(1,4,6)]
    register_fresh [OF assms(4,5), where ex = "\<lambda>nm. \<exists>dev. dev_get_by_name nm h = Some dev" and m = "he_mem_later env" and env = env]
  by (simp add: lib_br_add_bridge_def lib_br_ioctl_def sys_br_ioctl_def br_ioctl_deviceless_stub_def io_env_def request_def
      br_add_bridge_def Let_def nobody_gone [OF gone_more] del: One_nat_def)

lemma lib_br_del_bridge_ok:
  assumes "he_capable env" "good_name n"
    "\<And>br. br \<in> set (host_bridges h) \<Longrightarrow> ifindex (br_dev br) \<noteq> he_new_ifindex env"
    "\<And>br p. br \<in> set (host_bridges h) \<Longrightarrow> p \<in> set (port_list br) \<Longrightarrow> ifindex (p_dev p) \<noteq> he_new_ifindex env"
  shows "lib_br_del_bridge env n (h\<lparr>host_bridges := fresh_bridge env n # host_bridges h\<rparr>) = (0, h)"
proof -
  have named: "br_named n (fresh_bridge env n)" using assms(2) by (simp add: br_named_def fresh_bridge_simps)
  let ?h = "h\<lparr>host_bridges := fresh_bridge env n # host_bridges h\<rparr>"
  have gone: "gone_bridges (host_bridges h) ?h = [fresh_bridge env n]"
    using assms(3) gone_same [of h] by (auto simp: gone_bridges_def fresh_bridge_simps)
  then have "released_devs (host_bridges h) ?h = []" by (simp add: released_devs_def fresh_bridge_simps)
  moreover have "unregister_gone (he_jiffies env) (host_bridges h) ?h = host_bridges h"
  proof -
    have "port_of_dev (he_new_ifindex env) br = None" if "br \<in> set (host_bridges h)" for br
      using assms(4) [OF that] by (auto simp: port_of_dev_def find_None_iff)
    then show ?thesis
      by (auto simp: unregister_gone_def gone notifier_call_chain_def fresh_bridge_simps intro!: map_idI)
  qed
  ultimately show ?thesis
    using assms named by (simp add: lib_br_del_bridge_def lib_br_ioctl_def sys_br_ioctl_def br_ioctl_deviceless_stub_def io_env_def
      request_def br_del_bridge_def extract_Cons_code fresh_bridge_simps del: One_nat_def)
qed

lemma host_ok_fresh:
  assumes "host_ok h" "good_name n" "n \<notin> dev_name ` set (all_devs h)" "he_new_ifindex env \<noteq> 0"
    "he_new_ifindex env \<notin> ifindex ` set (all_devs h)"
  shows "host_ok (h\<lparr>host_bridges := fresh_bridge env n # host_bridges h\<rparr>)"
proof -
  have "all_devs (h\<lparr>host_bridges := fresh_bridge env n # host_bridges h\<rparr>) = br_dev (fresh_bridge env n) # all_devs h"
    by (simp add: all_devs_def fresh_bridge_simps)
  then show ?thesis
    using assms by (simp add: host_ok_def fresh_bridge_simps) (simp add: port_nos_def fresh_bridge_simps)
qed

text \<open>C16: Creating and deleting a bridge from the command line: addbr with a new name, which is no pattern, exits with 0 and adds a
bridge of that name at the head of the kernel's list; delbr with the name then exits with 0 and
leaves the machine exactly as it was before.\<close>

theorem addbr_delbr_roundtrip:
  assumes "host_ok h" "he_capable (ce_host e)" "he_mem_ok (ce_host e)" "length (host_bridges h) \<le> 31" "good_name n"
    "plain_name n" "n \<notin> dev_name ` set (all_devs h)" "next_ifindex h counter = Some (he_new_ifindex (ce_host e))"
  shows "\<exists>p p' br. brctl_main e [prog, ''addbr'', n] h = Some (Exit 0, p) \<and> host_bridges (kern p) = br # host_bridges h
    \<and> dev_name (br_dev br) = n \<and> brctl_main e [prog, ''delbr'', n] (kern p) = Some (Exit 0, p') \<and> kern p' = h"
proof -
  let ?h = "h\<lparr>host_bridges := fresh_bridge (ce_host e) n # host_bridges h\<rparr>"
  have ok: "host_ok ?h" "length (host_bridges h) \<le> 32" "length (host_bridges ?h) \<le> 32"
    using host_ok_fresh [OF assms(1,5,7) next_ifindex_free [OF assms(8)]] assms(4) by simp_all
  have new: "ifindex (br_dev br) \<noteq> he_new_ifindex (ce_host e)" "p \<in> set (port_list br) \<Longrightarrow> ifindex (p_dev p) \<noteq> he_new_ifindex (ce_host e)"
    if "br \<in> set (host_bridges h)" for br p
  proof -
    show "ifindex (br_dev br) \<noteq> he_new_ifindex (ce_host e)"
      using bridge_dev [OF assms(1) that] next_ifindex_free(2) [OF assms(8)] by (metis imageI)
    show "ifindex (p_dev p) \<noteq> he_new_ifindex (ce_host e)" if p: "p \<in> set (port_list br)"
    proof -
      have "ifindex (p_dev p) \<in> ifindex ` set (all_devs h)" using assms(1) \<open>br \<in> _\<close> p by (simp add: host_ok_def)
      then show ?thesis using next_ifindex_free(2) [OF assms(8)] by auto
    qed
  qed
  have "brctl_main e [prog, ''addbr'', n] h = Some (br_cmd_addbr e n (started (ce_host e) h))"
    using brctl_no_bridge [OF assms(1,2) ok(2) add_in_table(1), of "\<lambda>e a. br_cmd_addbr e (a ! 0)" "[n]" prog] by (simp add: command_entry_def)
  moreover have "br_cmd_addbr e n (started (ce_host e) h) = (Exit 0, (started (ce_host e) h)\<lparr>kern := ?h\<rparr>)"
    using lib_br_add_bridge_ok [OF assms(1-3,5-7)] by (simp add: br_cmd_addbr_def finish_def started_def)
  moreover have "brctl_main e [prog, ''delbr'', n] ?h = Some (br_cmd_delbr e n (started (ce_host e) ?h))"
    using brctl_no_bridge [OF ok(1) assms(2) ok(3) add_in_table(2), of "\<lambda>e a. br_cmd_delbr e (a ! 0)" "[n]" prog] by (simp add: command_entry_def)
  moreover have "br_cmd_delbr e n (started (ce_host e) ?h) = (Exit 0, (started (ce_host e) ?h)\<lparr>kern := h\<rparr>)"
    using lib_br_del_bridge_ok [OF assms(2,5) new] by (simp add: br_cmd_delbr_def finish_def started_def)
  ultimately show ?thesis using fresh_bridge_simps(1) [OF assms(5)] by simp
qed

theorem addbr_delbr_roundtrip_witness:
  "\<exists>p p' br. brctl_main demo_ctl [''brctl'', ''addbr'', ''br1''] demo_host = Some (Exit 0, p)
    \<and> host_bridges (kern p) = br # host_bridges demo_host \<and> dev_name (br_dev br) = ''br1''
    \<and> brctl_main demo_ctl [''brctl'', ''delbr'', ''br1''] (kern p) = Some (Exit 0, p') \<and> kern p' = demo_host"
proof (rule addbr_delbr_roundtrip)
  show "good_name ''br1''" "plain_name ''br1''" by (simp_all add: good_name_def plain_name_def IFNAMSIZ_def)
  show "''br1'' \<notin> dev_name ` set (all_devs demo_host)"
    by (simp add: all_devs_def demo_host_def demo_defs IFNAMSIZ_def)
  show "next_ifindex demo_host 8 = Some (he_new_ifindex (ce_host demo_ctl))"
    by (simp add: next_ifindex_def dev_new_index.simps [of _ 8] dev_get_by_index_def all_devs_def demo_host_def demo_defs
        demo_env_def demo_ctl_def)
qed (simp_all add: demo_host_ok demo_host_bridges(2) demo_env_def)

section \<open>The daemon\<close>



end
