(* ===== verification/Br_Netops.thy ===== *)
theory Br_Netops
  imports Br_Host
begin

text \<open>
  What the kernel does to network devices while bridges have them (net/core/dev.c): opening and closing,
  the requests of \<^verbatim>\<open>ifconfig\<close> that reach a device, and the arrival and departure of a driver's device. Each
  tells the bridges through the notifier chain. Devices are present as long as they are on the list
  (\<^verbatim>\<open>netif_device_present\<close>), modules that own a device do not go away while it is opened, and the other
  subscribers of the chain, packet schedulers, multicast lists and messages to user space are left out.
\<close>

section \<open>The device of an index\<close>

text \<open>
  A device that is on a port is in the record of the port; \<open>all_ports\<close> are the ports of all bridges.
\<close>

definition all_ports :: "br_host \<Rightarrow> net_bridge_port list" where
  "all_ports h = concat (map port_list (host_bridges h))"

definition dev_now :: "nat \<Rightarrow> br_host \<Rightarrow> net_device option" where
  "dev_now i h =
     (case find (\<lambda>p. ifindex (p_dev p) = i) (all_ports h) of
        Some p \<Rightarrow> Some (p_dev p)
      | None \<Rightarrow> dev_get_by_index i h)"

definition upd_if :: "nat \<Rightarrow> (net_device \<Rightarrow> net_device) \<Rightarrow> net_device \<Rightarrow> net_device" where
  "upd_if i f dev = (if ifindex dev = i then f dev else dev)"

definition upd_dev :: "nat \<Rightarrow> (net_device \<Rightarrow> net_device) \<Rightarrow> br_host \<Rightarrow> br_host" where
  "upd_dev i f h =
     h\<lparr>host_bridges := map (\<lambda>br. br\<lparr>br_dev := upd_if i f (br_dev br),
                                     port_list := map (\<lambda>p. p\<lparr>p_dev := upd_if i f (p_dev p)\<rparr>) (port_list br)\<rparr>) (host_bridges h),
       host_devs := map (upd_if i f) (host_devs h)\<rparr>"

text \<open>The position of the bridge whose device has the index.\<close>

definition bridge_of_dev :: "nat \<Rightarrow> br_host \<Rightarrow> nat option" where
  "bridge_of_dev i h = position (\<lambda>br. dev_listed (br_dev br) \<and> ifindex (br_dev br) = i) (host_bridges h)"

definition upd_bridge :: "nat \<Rightarrow> (net_bridge \<Rightarrow> net_bridge) \<Rightarrow> br_host \<Rightarrow> br_host" where
  "upd_bridge k f h = h\<lparr>host_bridges := (host_bridges h)[k := f (host_bridges h ! k)]\<rparr>"

text \<open>
  An event of a device. A device whose pointer to its port dangles makes \<^verbatim>\<open>br_device_event\<close> read freed
  memory, \<open>None\<close>, for every event but the announcement that the device goes down.
\<close>

definition notify :: "host_env \<Rightarrow> netdev_event \<Rightarrow> net_device \<Rightarrow> br_host \<Rightarrow> br_host option" where
  "notify env event dev h =
     (case dev_br_port dev of
        No_port \<Rightarrow> Some h
      | Dangling_port \<Rightarrow> (if event = NETDEV_GOING_DOWN then Some h else None)
      | Port n \<Rightarrow> Some (h\<lparr>host_bridges := notifier_call_chain (he_jiffies env) event (ifindex dev) (host_bridges h)\<rparr>))"

section \<open>Opening and closing\<close>

text \<open>What drivers do: the results of their \<^verbatim>\<open>open\<close>, \<^verbatim>\<open>set_mac_address\<close> and \<^verbatim>\<open>change_mtu\<close>.\<close>

record drivers =
  drv_open :: "net_device \<Rightarrow> int"
  drv_set_mac :: "net_device \<Rightarrow> mac \<Rightarrow> int"
  drv_change_mtu :: "net_device \<Rightarrow> u32 \<Rightarrow> int"

definition dev_open :: "host_env \<Rightarrow> drivers \<Rightarrow> net_device \<Rightarrow> br_host \<Rightarrow> (int \<times> br_host) option" where
  "dev_open env drv dev h =
     (if dev_up dev then Some (0, h)
      else
        (let (ret, h) = (case bridge_of_dev (ifindex dev) h of
                           Some k \<Rightarrow> (0, upd_bridge k (br_dev_open (he_jiffies env)) h)
                         | None \<Rightarrow> (drv_open drv dev, h))
         in if ret = 0
            then map_option (Pair 0) (notify env NETDEV_UP (dev\<lparr>dev_up := True\<rparr>)
                   (upd_dev (ifindex dev) (\<lambda>d. d\<lparr>dev_up := True\<rparr>) h))
            else Some (ret, h)))"

definition dev_close :: "host_env \<Rightarrow> net_device \<Rightarrow> br_host \<Rightarrow> (int \<times> br_host) option" where
  "dev_close env dev h =
     (if \<not> dev_up dev then Some (0, h)
      else
        (case notify env NETDEV_GOING_DOWN dev h of
           None \<Rightarrow> None
         | Some h \<Rightarrow>
             (let h = (case bridge_of_dev (ifindex dev) h of
                         Some k \<Rightarrow> upd_bridge k (br_dev_stop (he_jiffies env)) h
                       | None \<Rightarrow> h)
              in map_option (Pair 0) (notify env NETDEV_DOWN (dev\<lparr>dev_up := False\<rparr>)
                   (upd_dev (ifindex dev) (\<lambda>d. d\<lparr>dev_up := False\<rparr>) h)))))"

section \<open>Requests\<close>

text \<open>
  The requests of \<^verbatim>\<open>dev_ifsioc\<close> that concern what the model has of a device. Of the flags that are set
  \<^verbatim>\<open>IFF_UP\<close> and \<^verbatim>\<open>IFF_PROMISC\<close> are modelled, of those that are read \<^verbatim>\<open>IFF_UP\<close>, \<^verbatim>\<open>IFF_LOOPBACK\<close> and \<^verbatim>\<open>IFF_PROMISC\<close>. An
  address comes with the answer to whether its family is the device's type. Left out are the map of
  a device's resources and the list of its multicast addresses.
\<close>

datatype if_request =
    SIOCGIFFLAGS
  | SIOCSIFFLAGS bool bool
  | SIOCGIFMETRIC
  | SIOCSIFMETRIC
  | SIOCGIFMTU
  | SIOCSIFMTU s32
  | SIOCGIFHWADDR
  | SIOCSIFHWADDR bool mac
  | SIOCSIFHWBROADCAST bool
  | SIOCGIFINDEX
  | SIOCGIFTXQLEN
  | SIOCSIFTXQLEN s32
  | SIOCSIFNAME string
  | SIOCGIFASYMMTU
  | SIOCSIFASYMMTU s32

datatype if_answer = No_answer | Flags bool bool bool | Metric nat | Mtu u32 | Hwaddr mac | Index nat | Qlen u32

text \<open>The bridges ignore \<^verbatim>\<open>NETDEV_CHANGE\<close>.\<close>

definition dev_set_promiscuity :: "net_device \<Rightarrow> int \<Rightarrow> br_host \<Rightarrow> br_host" where
  "dev_set_promiscuity dev inc h = upd_dev (ifindex dev) (\<lambda>d. d\<lparr>promiscuity := promiscuity d + inc\<rparr>) h"

definition dev_change_flags :: "host_env \<Rightarrow> drivers \<Rightarrow> bool \<Rightarrow> bool \<Rightarrow> net_device \<Rightarrow> br_host \<Rightarrow> (int \<times> br_host) option" where
  "dev_change_flags env drv up promisc dev h =
     map_option (\<lambda>(ret, h).
         (ret, if promisc \<noteq> dev_gpromisc dev
               then dev_set_promiscuity dev (if promisc then 1 else -1)
                      (upd_dev (ifindex dev) (\<lambda>d. d\<lparr>dev_gpromisc := \<not> dev_gpromisc d\<rparr>) h)
               else h))
       (if dev_up dev = up then Some (0, h)
        else if dev_up dev then dev_close env dev h
        else dev_open env drv dev h)"

text \<open>\<^verbatim>\<open>eth_change_mtu\<close>, which a bridge has from \<^verbatim>\<open>ether_setup\<close>; the bridges ignore \<^verbatim>\<open>NETDEV_CHANGEMTU\<close>.\<close>

definition eth_change_mtu :: "s32 \<Rightarrow> int" where
  "eth_change_mtu new_mtu = (if sint new_mtu < 68 \<or> sint new_mtu > 1500 then - EINVAL else 0)"

fun dev_ifsioc ::
    "host_env \<Rightarrow> drivers \<Rightarrow> if_request \<Rightarrow> net_device \<Rightarrow> br_host \<Rightarrow> (int \<times> if_answer \<times> br_host) option" where
  "dev_ifsioc env drv SIOCGIFFLAGS dev h = Some (0, Flags (dev_up dev) (dev_loopback dev) (dev_gpromisc dev), h)"
| "dev_ifsioc env drv (SIOCSIFFLAGS up promisc) dev h =
     map_option (\<lambda>(ret, h). (ret, No_answer, h)) (dev_change_flags env drv up promisc dev h)"
| "dev_ifsioc env drv SIOCGIFMETRIC dev h = Some (0, Metric 0, h)"
| "dev_ifsioc env drv SIOCSIFMETRIC dev h = Some (- EOPNOTSUPP, No_answer, h)"
| "dev_ifsioc env drv SIOCGIFMTU dev h = Some (0, Mtu (dev_mtu dev), h)"
| "dev_ifsioc env drv (SIOCSIFMTU mtu) dev h =
     (if mtu = dev_mtu dev then Some (0, No_answer, h)
      else if sint mtu < 0 then Some (- EINVAL, No_answer, h)
      else
        (let err = (if bridge_of_dev (ifindex dev) h \<noteq> None then eth_change_mtu mtu else drv_change_mtu drv dev mtu)
         in Some (err, No_answer, if err = 0 then upd_dev (ifindex dev) (\<lambda>d. d\<lparr>dev_mtu := mtu\<rparr>) h else h)))"
| "dev_ifsioc env drv SIOCGIFHWADDR dev h = Some (0, Hwaddr (dev_addr dev), h)"
| "dev_ifsioc env drv (SIOCSIFHWADDR family_ok a) dev h =
     (if bridge_of_dev (ifindex dev) h \<noteq> None then Some (- EOPNOTSUPP, No_answer, h)
      else if \<not> family_ok then Some (- EINVAL, No_answer, h)
      else
        (let err = drv_set_mac drv dev a
         in if err = 0
            then map_option (\<lambda>h. (0, No_answer, h))
                   (notify env NETDEV_CHANGEADDR dev (upd_dev (ifindex dev) (\<lambda>d. d\<lparr>dev_addr := a\<rparr>) h))
            else Some (err, No_answer, h)))"
| "dev_ifsioc env drv (SIOCSIFHWBROADCAST family_ok) dev h =
     (if \<not> family_ok then Some (- EINVAL, No_answer, h)
      else map_option (\<lambda>h. (0, No_answer, h)) (notify env NETDEV_CHANGEADDR dev h))"
| "dev_ifsioc env drv SIOCGIFINDEX dev h = Some (0, Index (ifindex dev), h)"
| "dev_ifsioc env drv SIOCGIFTXQLEN dev h = Some (0, Qlen (tx_queue_len dev), h)"
| "dev_ifsioc env drv (SIOCSIFTXQLEN qlen) dev h =
     (if sint qlen < 0 then Some (- EINVAL, No_answer, h)
      else Some (0, No_answer, upd_dev (ifindex dev) (\<lambda>d. d\<lparr>tx_queue_len := qlen\<rparr>) h))"
| "dev_ifsioc env drv (SIOCSIFNAME newname) dev h =
     (if dev_up dev then Some (- EBUSY, No_answer, h)
      else if dev_get_by_name newname h \<noteq> None then Some (- EEXIST, No_answer, h)
      else Some (0, No_answer, upd_dev (ifindex dev) (\<lambda>d. d\<lparr>dev_name := take (IFNAMSIZ - 1) newname\<rparr>) h))"
| "dev_ifsioc env drv SIOCGIFASYMMTU dev h = Some (0, Mtu (ucast (unused_alignment_fixer dev)), h)"
| "dev_ifsioc env drv (SIOCSIFASYMMTU mtu) dev h =
     (if mtu = ucast (unused_alignment_fixer dev) then Some (0, No_answer, h)
      else if sint mtu < 0 \<or> dev_mtu dev < mtu then Some (- EINVAL, No_answer, h)
      else Some (0, No_answer, upd_dev (ifindex dev) (\<lambda>d. d\<lparr>unused_alignment_fixer := ucast mtu\<rparr>) h))"

text \<open>The requests that return a value can be made by all.\<close>

definition needs_capability :: "if_request \<Rightarrow> bool" where
  "needs_capability req \<longleftrightarrow>
     req \<notin> {SIOCGIFFLAGS, SIOCGIFMETRIC, SIOCGIFMTU, SIOCGIFHWADDR, SIOCGIFINDEX, SIOCGIFTXQLEN, SIOCGIFASYMMTU}"

definition dev_ioctl ::
    "host_env \<Rightarrow> drivers \<Rightarrow> string \<Rightarrow> if_request \<Rightarrow> br_host \<Rightarrow> (int \<times> if_answer \<times> br_host) option" where
  "dev_ioctl env drv name req h =
     (if needs_capability req \<and> \<not> he_capable env then Some (- EPERM, No_answer, h)
      else
        (case dev_get_by_name (ifr_name name) h of
           None \<Rightarrow> Some (- ENODEV, No_answer, h)
         | Some d \<Rightarrow>
             (case dev_now (ifindex d) h of
                None \<Rightarrow> Some (- ENODEV, No_answer, h)
              | Some dev \<Rightarrow> dev_ifsioc env drv req dev h)))"

section \<open>Devices come and go\<close>

text \<open>A driver registers a device of its own; the bridges ignore \<^verbatim>\<open>NETDEV_REGISTER\<close>.\<close>

definition driver_registers :: "host_env \<Rightarrow> net_device \<Rightarrow> br_host \<Rightarrow> int \<times> br_host" where
  "driver_registers env dev h =
     (case register_netdev (\<lambda>nm. dev_get_by_name nm h \<noteq> None) (he_new_ifindex env) dev of
        (err, dev) \<Rightarrow> (err, if err = 0 then h\<lparr>host_devs := host_devs h @ [dev]\<rparr> else h))"

text \<open>
  \<^verbatim>\<open>unregister_netdevice\<close> for a driver's device that is on the list. The wait for the references that others hold
  is over when it returns.
\<close>

definition unregister_netdevice :: "host_env \<Rightarrow> net_device \<Rightarrow> br_host \<Rightarrow> (int \<times> br_host) option" where
  "unregister_netdevice env dev h =
     (case dev_close env dev h of
        None \<Rightarrow> None
      | Some (_, h) \<Rightarrow>
          map_option (Pair 0) (notify env NETDEV_UNREGISTER dev
            (h\<lparr>host_devs := filter (\<lambda>d. ifindex d \<noteq> ifindex dev) (host_devs h)\<rparr>)))"

end
