(* ===== verification/Br_Machine.thy ===== *)
theory Br_Machine
  imports Br_Netops Br_Safety
begin

text \<open>
  The machine as a whole: several bridges, the devices on their ports and those that are free, and everything
  that happens to them, from frames and timers to system calls and drivers. What the pointers between devices
  and ports require is stated on the shape of the machine, the part of it that only system calls
  and drivers change.
\<close>

section \<open>The shape of a machine\<close>

text \<open>Per bridge the numbers of its ports, its own device without its address, and the devices of the ports.\<close>

type_synonym shape = "(nat list \<times> net_device \<times> net_device list) list"

definition bridge_key :: "net_bridge \<Rightarrow> nat list \<times> net_device \<times> net_device list" where
  "bridge_key br = (port_nos br, port_devs br)"

definition key_devs :: "shape \<Rightarrow> net_device list" where
  "key_devs ks = map (\<lambda>(ns, d, es). d) ks"

definition key_idx :: "shape \<Rightarrow> nat list" where
  "key_idx ks = concat (map (\<lambda>(ns, d, es). map ifindex es) ks)"

definition ident :: "net_device \<Rightarrow> nat \<times> string" where
  "ident d = (ifindex d, dev_name d)"

text \<open>
  Names and indices are unique; a bridge is on the list of devices and on no port; a port's device
  points back to it, is on the list and on no second port; a device on no port points to none.
\<close>

definition key_ok :: "net_device list \<Rightarrow> nat list \<times> net_device \<times> net_device list \<Rightarrow> bool" where
  "key_ok ds k = (case k of (ns, d, es) \<Rightarrow>
     dev_listed d \<and> dev_br_port d = No_port \<and> list_all2 (\<lambda>n e. dev_br_port e = Port n) ns es
     \<and> ident ` set es \<subseteq> ident ` set ds)"

definition names_ok :: "net_device list \<Rightarrow> bool" where
  "names_ok ds \<longleftrightarrow> distinct (map ifindex ds) \<and> distinct (map dev_name ds)
     \<and> (\<forall>d\<in>set ds. good_name (dev_name d) \<and> ifindex d \<noteq> 0)"

definition shape_ok :: "shape \<Rightarrow> net_device list \<Rightarrow> bool" where
  "shape_ok ks ds \<longleftrightarrow> names_ok (key_devs ks @ ds) \<and> list_all (key_ok ds) ks \<and> distinct (key_idx ks)
     \<and> (\<forall>d\<in>set ds. ifindex d \<notin> set (key_idx ks) \<longrightarrow> dev_br_port d = No_port)"

definition machine_shape :: "br_host \<Rightarrow> shape" where
  "machine_shape h = map bridge_key (host_bridges h)"

definition machine_ok :: "br_host \<Rightarrow> bool" where
  "machine_ok h \<longleftrightarrow> list_all bridge_inv (host_bridges h) \<and> shape_ok (machine_shape h) (host_devs h)"

lemma machine_okD:
  assumes "machine_ok h"
  shows "br \<in> set (host_bridges h) \<Longrightarrow> bridge_inv br" "shape_ok (machine_shape h) (host_devs h)"
  using assms by (simp_all add: machine_ok_def list_all_iff)

lemma shape_okD:
  assumes "shape_ok ks ds"
  shows "names_ok (key_devs ks @ ds)" "list_all (key_ok ds) ks" "distinct (key_idx ks)"
    "d \<in> set ds \<Longrightarrow> ifindex d \<notin> set (key_idx ks) \<Longrightarrow> dev_br_port d = No_port"
  using assms by (simp_all add: shape_ok_def)

lemma names_ok_cong:
  assumes "map ident xs = map ident ys"
  shows "names_ok xs \<longleftrightarrow> names_ok ys"
proof -
  have "names_ok zs \<longleftrightarrow> distinct (map fst (map ident zs)) \<and> distinct (map snd (map ident zs))
      \<and> (\<forall>x\<in>set (map ident zs). good_name (snd x) \<and> fst x \<noteq> 0)" for zs
    by (simp add: names_ok_def ident_def comp_def)
  then show ?thesis using assms by (simp only:)
qed

subsection \<open>The shape and the machine\<close>

lemma bridge_key_keeps: "keeps a b \<Longrightarrow> bridge_key b = bridge_key a"
  by (simp add: bridge_key_def keeps_port_nos keeps_port_devs)

lemma bridge_key_sound: "sound a b \<Longrightarrow> bridge_key b = bridge_key a"
  by (simp add: bridge_key_def soundD)

lemma key_devs_shape: "map f (key_devs (machine_shape h)) = map (\<lambda>br. f ((br_dev br)\<lparr>dev_addr := br_mac_zero\<rparr>)) (host_bridges h)"
  by (simp add: key_devs_def machine_shape_def bridge_key_def port_devs_def)

lemma key_idx_shape: "key_idx (machine_shape h) = map (\<lambda>p. ifindex (p_dev p)) (all_ports h)"
  by (simp add: key_idx_def machine_shape_def bridge_key_def port_devs_def all_ports_def map_concat comp_def)

lemma key_ok_bridge:
  "key_ok ds (bridge_key br) \<longleftrightarrow> dev_listed (br_dev br) \<and> dev_br_port (br_dev br) = No_port
     \<and> (\<forall>p\<in>set (port_list br). dev_br_port (p_dev p) = Port (port_no p) \<and> ident (p_dev p) \<in> ident ` set ds)"
  by (auto simp: key_ok_def bridge_key_def port_devs_def port_nos_def list.rel_map list_all2_same)

lemma machine_bridge:
  assumes "machine_ok h" "br \<in> set (host_bridges h)"
  shows "dev_listed (br_dev br)" "dev_br_port (br_dev br) = No_port"
    "p \<in> set (port_list br) \<Longrightarrow> dev_br_port (p_dev p) = Port (port_no p)"
    "p \<in> set (port_list br) \<Longrightarrow> ident (p_dev p) \<in> ident ` set (host_devs h)"
proof -
  have "key_ok (host_devs h) (bridge_key br)"
    using shape_okD(2) [OF machine_okD(2) [OF assms(1)]] assms(2) by (simp add: machine_shape_def list_all_iff)
  then show "dev_listed (br_dev br)" "dev_br_port (br_dev br) = No_port"
    "p \<in> set (port_list br) \<Longrightarrow> dev_br_port (p_dev p) = Port (port_no p)"
    "p \<in> set (port_list br) \<Longrightarrow> ident (p_dev p) \<in> ident ` set (host_devs h)"
    by (simp_all add: key_ok_bridge)
qed

lemma machine_host_ok:
  assumes "machine_ok h"
  shows "host_ok h"
proof -
  have listed: "filter (\<lambda>br. dev_listed (br_dev br)) (host_bridges h) = host_bridges h"
    using machine_bridge(1) [OF assms] by simp
  then have all: "all_devs h = map br_dev (host_bridges h) @ host_devs h" by (simp add: all_devs_def)
  then have "map ident (key_devs (machine_shape h) @ host_devs h) = map ident (all_devs h)"
    by (simp add: key_devs_shape ident_def)
  then have names: "names_ok (all_devs h)"
    using shape_okD(1) [OF machine_okD(2) [OF assms]] names_ok_cong by blast
  have "distinct (port_nos br)" "\<forall>p\<in>set (port_list br). 0 < port_no p \<and> port_no p < 256" if "br \<in> set (host_bridges h)" for br
    using machine_okD(1) [OF assms that] by (auto simp: bridge_inv_def port_nos_def)
  moreover have "ifindex (p_dev p) \<in> ifindex ` set (all_devs h)" if "br \<in> set (host_bridges h)" "p \<in> set (port_list br)" for br p
    using machine_bridge(4) [OF assms that] by (auto simp: ident_def all)
  ultimately show ?thesis
    using names machine_bridge(1) [OF assms] by (simp add: host_ok_def names_ok_def)
qed

section \<open>Changing one bridge\<close>

lemma shape_ok_update:
  assumes "shape_ok ks ds" "i < length ks" "ident (fst (snd k')) = ident (fst (snd (ks ! i)))" "key_ok ds k'"
    and "map ident ds' = map ident ds" "distinct (key_idx (ks[i := k']))"
    and "\<And>d. d \<in> set ds' \<Longrightarrow> ifindex d \<notin> set (key_idx (ks[i := k'])) \<Longrightarrow> dev_br_port d = No_port"
  shows "shape_ok (ks[i := k']) ds'"
proof -
  have fst_snd: "(\<lambda>(ns, d, es). d) = (\<lambda>k :: nat list \<times> net_device \<times> net_device list. fst (snd k))" by (simp add: fun_eq_iff)
  have "map ident (key_devs (ks[i := k']) @ ds') = map ident (key_devs ks @ ds)"
    using assms(2,3,5) by (simp add: key_devs_def fst_snd map_update list_update_same_conv)
  then have "names_ok (key_devs (ks[i := k']) @ ds')"
    using shape_okD(1) [OF assms(1)] names_ok_cong by blast
  moreover have "key_ok ds' = key_ok ds"
    using arg_cong [OF assms(5), of set] by (simp add: key_ok_def fun_eq_iff)
  moreover have "list_all (key_ok ds) (ks[i := k'])"
    using shape_okD(2) [OF assms(1)] assms(4) by (auto simp: list_all_iff dest: set_update_subset_insert [THEN subsetD])
  ultimately show ?thesis using assms(6,7) by (simp add: shape_ok_def)
qed

lemma mset_key_idx:
  assumes "i < length ks"
  shows "mset (key_idx (ks[i := (ns, d, es)])) + mset (map ifindex (snd (snd (ks ! i)))) = mset (key_idx ks) + mset (map ifindex es)"
  using assms
proof (induction ks arbitrary: i)
  case (Cons k ks)
  show ?case
  proof (cases i)
    case 0
    then show ?thesis by (cases k) (simp add: key_idx_def)
  next
    case (Suc j)
    then show ?thesis using Cons.IH [of j] Cons.prems by (cases k) (simp add: key_idx_def)
  qed
qed simp

text \<open>The machine with one bridge and the free devices replaced.\<close>

lemma machine_ok_put:
  assumes "machine_ok h" "i < length (host_bridges h)" "bridge_inv br"
    "shape_ok ((machine_shape h)[i := bridge_key br]) ds"
  shows "machine_ok (h\<lparr>host_bridges := (host_bridges h)[i := br], host_devs := ds\<rparr>)"
proof -
  have "list_all bridge_inv ((host_bridges h)[i := br])"
    using assms(1,3) by (auto simp: machine_ok_def list_all_iff dest: set_update_subset_insert [THEN subsetD])
  moreover have "machine_shape (h\<lparr>host_bridges := (host_bridges h)[i := br], host_devs := ds\<rparr>) = (machine_shape h)[i := bridge_key br]"
    by (simp add: machine_shape_def map_update)
  ultimately show ?thesis using assms(4) by (simp add: machine_ok_def)
qed

lemma machine_ok_same_key:
  assumes "machine_ok h" "i < length (host_bridges h)" "bridge_inv br" "bridge_key br = bridge_key (host_bridges h ! i)"
  shows "machine_ok (h\<lparr>host_bridges := (host_bridges h)[i := br]\<rparr>)"
proof -
  have "(machine_shape h)[i := bridge_key br] = machine_shape h"
    using assms(2,4) by (simp add: machine_shape_def list_update_same_conv)
  then show ?thesis
    using machine_ok_put [OF assms(1-3), of "host_devs h"] machine_okD(2) [OF assms(1)] by simp
qed

section \<open>Ports come and go\<close>

lemma key_fdb_insert: "bridge_key (br_fdb_insert j s a l br) = bridge_key br"
proof -
  have "br_dev (br_fdb_insert j s a l br) = br_dev br"
    by (simp add: br_fdb_insert_def Let_def case_prod_beta alloc_def set_chain_def split: option.split list.split)
  then show ?thesis by (simp add: bridge_key_def port_devs_def br_fdb_insert_frame br_fdb_insert_frame2)
qed

lemma key_recalculate: "bridge_inv br \<Longrightarrow> bridge_key (br_stp_recalculate_bridge_id j br) = bridge_key br"
  by (blast intro: bridge_key_sound sound_stp_recalculate_bridge_id bridge_invD)

lemma key_enable_port: "bridge_inv br \<Longrightarrow> bridge_key (br_stp_enable_port j n br) = bridge_key br"
  by (blast intro: bridge_key_keeps keeps_stp_enable_port bridge_invD)

definition key_add :: "nat \<Rightarrow> net_device \<Rightarrow> nat list \<times> net_device \<times> net_device list \<Rightarrow> nat list \<times> net_device \<times> net_device list" where
  "key_add n e k = (n # fst k, fst (snd k), e # snd (snd k))"

lemma key_new_nbp:
  assumes "new_nbp dev br = (Some n, dev', br')" "bridge_inv br"
  shows "dev' = dev\<lparr>dev_br_port := Port n\<rparr>" "n \<notin> set (port_nos br)"
    "bridge_key (upd_port n (\<lambda>p. p\<lparr>p_dev := e\<rparr>) br') = key_add n e (bridge_key br)"
proof -
  define b1 where "b1 = snd (alloc br)"
  have b1: "port_list b1 = port_list br" "br_dev b1 = br_dev br" by (simp_all add: b1_def alloc_def split: list.split)
  have ok: "fst (alloc br)" "free_port_no b1 = Some n"
    using assms(1) by (auto simp: new_nbp_def b1_def case_prod_beta Let_def split: if_splits option.splits)
  let ?p = "(init_port b1 ((raw_port (dev\<lparr>dev_br_port := Port n\<rparr>))\<lparr>port_no := n\<rparr>))\<lparr>p_state := BR_STATE_DISABLED\<rparr>"
  have no: "port_no ?p = n" by (simp add: init_port_def br_become_designated_port_def)
  have eq: "dev' = dev\<lparr>dev_br_port := Port n\<rparr>" "br' = b1\<lparr>port_list := ?p # port_list b1\<rparr>"
    using assms(1) ok by (auto simp: new_nbp_def b1_def case_prod_beta Let_def)
  show "dev' = dev\<lparr>dev_br_port := Port n\<rparr>" by (rule eq(1))
  show new: "n \<notin> set (port_nos br)" using free_port_no_Some [OF ok(2)] b1(1) by (simp add: port_nos_def)
  have "map (\<lambda>p. if port_no p = n then p\<lparr>p_dev := e\<rparr> else p) (port_list br) = port_list br"
    using new by (intro map_idI) (auto simp: port_nos_def)
  then show "bridge_key (upd_port n (\<lambda>p. p\<lparr>p_dev := e\<rparr>) br') = key_add n e (bridge_key br)"
    using no by (simp add: eq(2) upd_port_def key_add_def bridge_key_def port_devs_def port_nos_def b1)
qed

text \<open>What adding a device does to the ports, with the device as it is returned.\<close>

lemma add_if_key:
  assumes "br_add_if j dev br = (ret, dev', br')" "bridge_inv br"
  obtains (refused) "ret \<noteq> 0" "bridge_key br' = bridge_key br" "ident dev' = ident dev"
      "dev_br_port dev' = dev_br_port dev \<or> free_port_no br = None"
    | (added) n where "ret = 0" "dev_br_port dev = No_port" "ident dev' = ident dev" "dev_br_port dev' = Port n"
      "bridge_key br' = key_add n dev' (bridge_key br)"
proof (cases "dev_br_port dev \<noteq> No_port \<or> dev_loopback dev \<or> \<not> dev_ether dev")
  case True
  then show ?thesis using assms(1) refused by (auto simp: br_add_if_def EBUSY_def EINVAL_def split: if_splits)
next
  case False
  obtain r d b where nb: "new_nbp (dev\<lparr>dev_refcnt := dev_refcnt dev + 1\<rparr>) br = (r, d, b)" by (metis prod_cases3)
  show ?thesis
  proof (cases r)
    case None
    have "free_port_no (snd (alloc br)) = free_port_no br"
      by (simp add: free_port_no_def br_get_port_def alloc_def split: list.split)
    moreover have "bridge_key (snd (alloc br)) = bridge_key br" by (rule bridge_key_keeps [OF keeps_plain(4)])
    ultimately have b: "bridge_key b = bridge_key br" "ident d = ident dev" "dev_br_port d = dev_br_port dev \<or> free_port_no br = None"
      using nb None by (auto simp: new_nbp_def case_prod_beta Let_def ident_def split: if_splits option.splits)
    have "ret = - EXFULL" "dev' = d\<lparr>dev_refcnt := dev_refcnt d - 1\<rparr>" "br' = b"
      using assms(1) False nb None by (simp_all add: br_add_if_def)
    then show ?thesis using b refused by (simp add: EXFULL_def ident_def)
  next
    case (Some n)
    define e where "e = d\<lparr>promiscuity := promiscuity d + 1\<rparr>"
    define b1 where "b1 = upd_port n (\<lambda>p. p\<lparr>p_dev := e\<rparr>) b"
    define b3 where "b3 = br_fdb_insert j (Some n) (dev_addr e) True (br_stp_recalculate_bridge_id j b1)"
    note new = key_new_nbp [OF nb [unfolded Some] assms(2)]
    have inv1: "bridge_inv b1" unfolding b1_def
      using bridge_inv_new_nbp [OF assms(2) nb] by (simp add: bridge_inv_port_dev)
    have "n \<in> set (port_nos b1)" using new(3) [of e] by (simp add: b1_def bridge_key_def key_add_def)
    then have inv3: "bridge_inv b3" unfolding b3_def
      using bridge_inv_insert [OF bridge_inv_recalculate [OF inv1]] soundD(2) [OF sound_stp_recalculate_bridge_id [OF bridge_invD(2) [OF inv1]]]
      by simp
    have "bridge_key b3 = key_add n e (bridge_key br)"
      using new(3) [of e] by (simp add: b3_def key_fdb_insert key_recalculate [OF inv1]) (simp add: b1_def)
    moreover have "br_add_if j dev br = (0, e, if dev_up (br_dev b3) \<and> dev_up e then br_stp_enable_port j n b3 else b3)"
      using False nb Some by (simp add: br_add_if_def Let_def e_def b1_def b3_def)
    then have "ret = 0" "dev' = e" "br' = (if dev_up (br_dev b3) \<and> dev_up e then br_stp_enable_port j n b3 else b3)"
      using assms(1) by auto
    moreover from this(3) have "bridge_key br' = bridge_key b3" using key_enable_port [OF inv3] by simp
    ultimately show ?thesis
      using False new(1) added [of n] by (simp add: e_def ident_def)
  qed
qed

subsection \<open>Putting a device back\<close>

lemma put_dev_host:
  "(\<And>br. br \<in> set (host_bridges h) \<Longrightarrow> ifindex (br_dev br) \<noteq> ifindex dev) \<Longrightarrow>
     put_dev dev h = h\<lparr>host_devs := map (\<lambda>d. if ifindex d = ifindex dev then dev else d) (host_devs h)\<rparr>"
  by (simp add: put_dev_def map_idI)

lemma map_ident_put:
  assumes "distinct (map ifindex ds)" "ident dev \<in> ident ` set ds"
  shows "map ident (map (\<lambda>d. if ifindex d = ifindex dev then dev else d) ds) = map ident ds"
proof -
  obtain d0 where d0: "d0 \<in> set ds" "ident d0 = ident dev" using assms(2) by (metis imageE)
  have "ident d = ident dev" if "d \<in> set ds" "ifindex d = ifindex dev" for d
    using that d0 assms(1) by (metis distinct_map inj_onD ident_def fst_conv)
  then show ?thesis by (induction ds) (use assms in simp_all)
qed

text \<open>A device of the machine that is no bridge is none of the bridges' devices.\<close>

lemma free_dev_no_bridge:
  assumes "shape_ok ks ds" "ident dev \<in> ident ` set ds" "d \<in> set (key_devs ks)"
  shows "ifindex d \<noteq> ifindex dev"
proof -
  have "ifindex dev \<in> ifindex ` set ds" using assms(2) by (auto simp: ident_def)
  moreover have "ifindex ` set (key_devs ks) \<inter> ifindex ` set ds = {}"
    using shape_okD(1) [OF assms(1)] by (simp add: names_ok_def)
  ultimately show ?thesis using imageI [OF assms(3), of ifindex] by (metis disjoint_iff)
qed

lemma bridge_no_free_dev:
  assumes "machine_ok h" "ident dev \<in> ident ` set (host_devs h)" "br \<in> set (host_bridges h)"
  shows "ifindex (br_dev br) \<noteq> ifindex dev"
proof -
  have "(br_dev br)\<lparr>dev_addr := br_mac_zero\<rparr> \<in> set (key_devs (machine_shape h))"
    using assms(3) key_devs_shape [of id h] by simp
  then show ?thesis using free_dev_no_bridge [OF machine_okD(2) [OF assms(1)] assms(2)] by fastforce
qed

lemma distinct_free_devs: "shape_ok ks ds \<Longrightarrow> distinct (map ifindex ds)"
  by (simp add: shape_ok_def names_ok_def)

lemma machine_ok_put_back:
  assumes "machine_ok h" "ident dev \<in> ident ` set (host_devs h)" "ifindex dev \<notin> ifindex ` p_dev ` set (all_ports h) \<Longrightarrow> dev_br_port dev = No_port"
  shows "machine_ok (put_back dev h)"
proof (cases "\<exists>n. dev_br_port dev = Port n")
  case False
  let ?ds = "map (\<lambda>d. if ifindex d = ifindex dev then dev else d) (host_devs h)"
  note sh = machine_okD(2) [OF assms(1)]
  have "put_back dev h = put_dev dev h" using False by (cases "dev_br_port dev") (simp_all add: put_back_def)
  also have "\<dots> = h\<lparr>host_devs := ?ds\<rparr>" by (rule put_dev_host) (rule bridge_no_free_dev [OF assms(1,2)])
  finally have eq: "put_back dev h = h\<lparr>host_devs := ?ds\<rparr>" .
  have id: "map ident ?ds = map ident (host_devs h)" by (rule map_ident_put [OF distinct_free_devs [OF sh] assms(2)])
  have "names_ok (key_devs (machine_shape h) @ ?ds)"
    using names_ok_cong [of "key_devs (machine_shape h) @ ?ds" "key_devs (machine_shape h) @ host_devs h"] id shape_okD(1) [OF sh]
    by (simp del: map_map)
  moreover have "key_ok ?ds = key_ok (host_devs h)"
    using arg_cong [OF id, of set] by (simp only: key_ok_def fun_eq_iff set_map) simp
  moreover have "dev_br_port d = No_port" if "d \<in> set ?ds" "ifindex d \<notin> set (key_idx (machine_shape h))" for d
    using that shape_okD(4) [OF sh] assms(3) by (auto simp: key_idx_shape split: if_splits)
  ultimately show ?thesis
    using assms(1) shape_okD(2,3) [OF sh] by (simp add: eq machine_ok_def shape_ok_def machine_shape_def)
qed (use assms(1) in \<open>auto simp: put_back_def\<close>)

subsection \<open>Removing a port\<close>

lemma filter_other_keys:
  assumes "distinct (map f (p # ps))"
  shows "filter (\<lambda>q. f q \<noteq> f p) ps = ps"
proof (rule filter_True, rule ballI)
  fix q assume "q \<in> set ps"
  then have "f q \<in> f ` set ps" by (rule imageI)
  then show "f q \<noteq> f p" using assms by auto
qed

lemma remove_port_filter:
  "distinct (map port_no ps) \<Longrightarrow> remove_port n ps = filter (\<lambda>p. port_no p \<noteq> n) ps"
proof (induction ps)
  case (Cons p ps)
  then show ?case using filter_other_keys [of port_no p ps] by auto
qed simp

lemma mset_without:
  "distinct (map f ps) \<Longrightarrow> p \<in> set ps \<Longrightarrow> mset ps = add_mset p (mset (filter (\<lambda>q. f q \<noteq> f p) ps))"
proof (induction ps)
  case (Cons q ps)
  show ?case
  proof (cases "p = q")
    case True
    then show ?thesis using filter_other_keys [OF Cons.prems(1)] by simp
  next
    case False
    then have p: "p \<in> set ps" using Cons.prems(2) by simp
    then have "f q \<noteq> f p" using Cons.prems(1) imageI [OF p, of f] by auto
    then show ?thesis using Cons.IH Cons.prems(1) p by simp
  qed
qed simp

abbreviation without_port :: "nat \<Rightarrow> net_bridge \<Rightarrow> net_bridge" where
  "without_port n br \<equiv> br\<lparr>port_list := filter (\<lambda>p. port_no p \<noteq> n) (port_list br)\<rparr>"

lemma zip_filter_map:
  "map g (filter (\<lambda>p. f p \<noteq> n) ps) = map snd (filter (\<lambda>(m, e). m \<noteq> n) (zip (map f ps) (map g ps)))"
  by (induction ps) auto

text \<open>Removing a port does the same to two bridges whose ports are alike.\<close>

lemma without_port_key:
  assumes "bridge_key a = bridge_key b"
  shows "bridge_key (without_port n a) = bridge_key (without_port n b)"
proof -
  have ns: "map port_no (port_list a) = map port_no (port_list b)" "map p_dev (port_list a) = map p_dev (port_list b)"
    using assms by (simp_all add: bridge_key_def port_nos_def port_devs_def)
  have "map port_no (filter (\<lambda>p. port_no p \<noteq> n) (port_list br)) = filter (\<lambda>m. m \<noteq> n) (map port_no (port_list br))" for br
    by (simp add: filter_map comp_def)
  then show ?thesis
    using assms ns by (simp add: bridge_key_def port_nos_def port_devs_def zip_filter_map)
qed

lemma key_del_port:
  assumes "bridge_inv br"
  shows "bridge_key (del_port j n br) = bridge_key (without_port n br)"
proof -
  let ?b = "br_stp_disable_port j n br"
  have s: "sound br ?b" by (rule sound_stp_disable_port)
  have "distinct (map port_no (port_list ?b))"
    using bridge_invD(1) [OF bridge_inv_sound [OF assms s]] by (simp add: port_nos_def)
  then have "port_list (del_port j n br) = filter (\<lambda>p. port_no p \<noteq> n) (port_list ?b)"
    by (simp add: del_port_def Let_def remove_port_filter br_fdb_delete_by_port_def sweep_all_def)
  moreover have "br_dev (del_port j n br) = br_dev ?b"
    by (simp add: del_port_def Let_def br_fdb_delete_by_port_def sweep_all_def on_mfd_def fault_def split: option.split)
  ultimately have "bridge_key (del_port j n br) = bridge_key (without_port n ?b)"
    by (simp add: bridge_key_def port_nos_def port_devs_def)
  then show ?thesis using without_port_key [OF bridge_key_sound [OF s]] by simp
qed

text \<open>The machine after a port is gone and its device is free again.\<close>

lemma machine_ok_del_port:
  assumes "machine_ok h" "i < length (host_bridges h)" "p \<in> set (port_list (host_bridges h ! i))" "bridge_inv br'"
    "bridge_key br' = bridge_key (without_port (port_no p) (host_bridges h ! i))"
    "ident dev = ident (p_dev p)" "dev_br_port dev = No_port"
  shows "machine_ok (put_back dev (h\<lparr>host_bridges := (host_bridges h)[i := br']\<rparr>))"
proof -
  let ?br = "host_bridges h ! i" and ?ks = "(machine_shape h)[i := bridge_key br']"
    and ?ds = "map (\<lambda>d. if ifindex d = ifindex dev then dev else d) (host_devs h)"
  note sh = machine_okD(2) [OF assms(1)]
  have br: "?br \<in> set (host_bridges h)" using assms(2) by simp
  have len: "i < length (machine_shape h)" "machine_shape h ! i = bridge_key ?br" using assms(2) by (simp_all add: machine_shape_def)
  have id: "ident dev \<in> ident ` set (host_devs h)" using machine_bridge(4) [OF assms(1) br assms(3)] assms(6) by simp
  have ports: "mset (port_list ?br) = add_mset p (mset (filter (\<lambda>q. port_no q \<noteq> port_no p) (port_list ?br)))"
    using bridge_invD(1) [OF machine_okD(1) [OF assms(1) br]] assms(3) by (intro mset_without) (simp_all add: port_nos_def)
  have "mset (map ifindex (snd (snd (bridge_key ?br)))) = add_mset (ifindex dev) (mset (map ifindex (snd (snd (bridge_key br')))))"
    using arg_cong [OF ports, of "image_mset (\<lambda>q. ifindex (p_dev q))"] assms(6) unfolding assms(5)
    by (simp add: bridge_key_def port_devs_def ident_def image_mset.compositionality comp_def)
  then have "mset (key_idx (machine_shape h)) = mset (ifindex dev # key_idx ?ks)"
    using mset_key_idx [OF len(1), of "fst (bridge_key br')" "fst (snd (bridge_key br'))" "snd (snd (bridge_key br'))"] len(2)
    by simp
  then have idx: "distinct (ifindex dev # key_idx ?ks)" "set (key_idx (machine_shape h)) = set (ifindex dev # key_idx ?ks)"
    using shape_okD(3) [OF sh] mset_eq_imp_distinct_iff mset_eq_setD by blast+
  have "shape_ok ?ks ?ds"
  proof (rule shape_ok_update [OF sh len(1)])
    show "ident (fst (snd (bridge_key br'))) = ident (fst (snd (machine_shape h ! i)))"
      unfolding assms(5) len(2) by (simp add: bridge_key_def port_devs_def)
    show "key_ok (host_devs h) (bridge_key br')"
      unfolding assms(5) key_ok_bridge using machine_bridge [OF assms(1) br] by simp
    show "map ident ?ds = map ident (host_devs h)" by (rule map_ident_put [OF distinct_free_devs [OF sh] id])
    show "distinct (key_idx ?ks)" using idx(1) by simp
    show "dev_br_port d = No_port" if "d \<in> set ?ds" "ifindex d \<notin> set (key_idx ?ks)" for d
      using that idx(2) shape_okD(4) [OF sh] assms(7) by (auto split: if_splits)
  qed
  then have "machine_ok (h\<lparr>host_bridges := (host_bridges h)[i := br'], host_devs := ?ds\<rparr>)"
    by (rule machine_ok_put [OF assms(1,2,4)])
  moreover have "put_back dev (h\<lparr>host_bridges := (host_bridges h)[i := br']\<rparr>)
      = h\<lparr>host_bridges := (host_bridges h)[i := br'], host_devs := ?ds\<rparr>"
  proof -
    have "ifindex (br_dev br') = ifindex (br_dev ?br)" using arg_cong [OF assms(5), of "\<lambda>k. ifindex (fst (snd k))"]
      by (simp add: bridge_key_def port_devs_def)
    then have "ifindex (br_dev b) \<noteq> ifindex dev" if "b \<in> set ((host_bridges h)[i := br'])" for b
      using bridge_no_free_dev [OF assms(1) id, of b] bridge_no_free_dev [OF assms(1) id br]
        set_update_subset_insert [THEN subsetD, OF that] by auto
    then show ?thesis using assms(7) put_dev_host [of "h\<lparr>host_bridges := (host_bridges h)[i := br']\<rparr>" dev] by (simp add: put_back_def)
  qed
  ultimately show ?thesis by simp
qed

subsection \<open>Adding a port\<close>

lemma machine_ok_add_port:
  assumes "machine_ok h" "i < length (host_bridges h)" "bridge_inv br'" "bridge_key br' = key_add n e (bridge_key (host_bridges h ! i))"
    "ident e \<in> ident ` set (host_devs h)" "dev_br_port e = Port n" "ifindex e \<notin> ifindex ` p_dev ` set (all_ports h)"
  shows "machine_ok (h\<lparr>host_bridges := (host_bridges h)[i := br']\<rparr>)"
proof -
  let ?br = "host_bridges h ! i" and ?ks = "(machine_shape h)[i := bridge_key br']"
  note sh = machine_okD(2) [OF assms(1)]
  have len: "i < length (machine_shape h)" "machine_shape h ! i = bridge_key ?br" using assms(2) by (simp_all add: machine_shape_def)
  have "mset (key_idx ?ks) = mset (ifindex e # key_idx (machine_shape h))"
    using mset_key_idx [OF len(1), of "fst (bridge_key br')" "fst (snd (bridge_key br'))" "snd (snd (bridge_key br'))"] len(2)
    by (simp add: assms(4) key_add_def)
  moreover have "distinct (ifindex e # key_idx (machine_shape h))"
    using shape_okD(3) [OF sh] assms(7) by (simp add: key_idx_shape image_image)
  ultimately have idx: "distinct (key_idx ?ks)" "set (key_idx ?ks) = set (ifindex e # key_idx (machine_shape h))"
    using mset_eq_imp_distinct_iff mset_eq_setD by blast+
  have "shape_ok ?ks (host_devs h)"
  proof (rule shape_ok_update [OF sh len(1) _ _ refl idx(1)])
    show "ident (fst (snd (bridge_key br'))) = ident (fst (snd (machine_shape h ! i)))"
      using len(2) by (simp add: assms(4) key_add_def)
    have "key_ok (host_devs h) (bridge_key ?br)"
      using shape_okD(2) [OF sh] len nth_mem [OF len(1)] by (simp add: list_all_iff)
    then show "key_ok (host_devs h) (bridge_key br')"
      using assms(5,6) by (simp add: assms(4) key_add_def key_ok_def case_prod_beta)
    show "dev_br_port d = No_port" if "d \<in> set (host_devs h)" "ifindex d \<notin> set (key_idx ?ks)" for d
      using that idx(2) shape_okD(4) [OF sh] by simp
  qed
  then show ?thesis using machine_ok_put [OF assms(1-3), of "host_devs h"] by simp
qed

text \<open>A bridge is full only when the machine has as many devices as a bridge can have ports.\<close>

lemma machine_free_port_no:
  assumes "machine_ok h" "br \<in> set (host_bridges h)" "length (host_devs h) < 255"
    "d \<in> set (host_devs h)" "ifindex d \<notin> ifindex ` p_dev ` set (port_list br)"
  shows "free_port_no br \<noteq> None"
proof
  let ?I = "ifindex ` p_dev ` set (port_list br)"
  assume "free_port_no br = None"
  then have "{1..<255} \<subseteq> set (port_nos br)" by (simp add: free_port_no_None)
  then have "254 \<le> card (set (port_nos br))" using card_mono [of "set (port_nos br)" "{1..<255}"] by simp
  then have len: "254 \<le> length (port_list br)" using card_length [of "port_nos br"] by (simp add: port_nos_def)
  have "distinct (map (\<lambda>p. ifindex (p_dev p)) (all_ports h))"
    using shape_okD(3) [OF machine_okD(2) [OF assms(1)]] by (simp add: key_idx_shape)
  then have "distinct (map (\<lambda>p. ifindex (p_dev p)) (port_list br))"
    using assms(2) by (auto simp: all_ports_def map_concat distinct_concat_iff comp_def)
  then have card: "card ?I = length (port_list br)" using distinct_card by (fastforce simp: image_image)
  have "?I \<subseteq> ifindex ` set (host_devs h)"
    using machine_bridge(4) [OF assms(1,2)] by (fastforce simp: ident_def)
  then have "insert (ifindex d) ?I \<subseteq> ifindex ` set (host_devs h)" using assms(4) by simp
  then have "card (insert (ifindex d) ?I) \<le> card (ifindex ` set (host_devs h))" by (intro card_mono) simp_all
  also have "\<dots> \<le> length (host_devs h)" using card_image_le [of "set (host_devs h)" ifindex] card_length [of "host_devs h"] by simp
  finally show False using card len assms(3,5) by simp
qed

section \<open>Requests on a bridge\<close>

text \<open>
  What the caller has to respect: a bridge is not made a port, no port is added to a bridge on a machine
  with 255 devices or more, and a device is only removed from the bridge it is on.
\<close>

definition port_request_ok :: "brctl \<Rightarrow> nat \<Rightarrow> net_bridge \<Rightarrow> br_host \<Rightarrow> bool" where
  "port_request_ok cmd i br h \<longleftrightarrow>
     (cmd = BRCTL_ADD_IF \<or> cmd = BRCTL_DEL_IF \<longrightarrow> bridge_of_dev i h = None)
     \<and> (cmd = BRCTL_ADD_IF \<longrightarrow> length (host_devs h) < 255)
     \<and> (cmd = BRCTL_DEL_IF \<longrightarrow> (\<forall>other\<in>set (host_bridges h). port_of_dev i other = None \<or> other = br))"

lemma port_of_dev_Some: "port_of_dev i br = Some p \<Longrightarrow> p \<in> set (port_list br) \<and> ifindex (p_dev p) = i"
  by (auto simp: port_of_dev_def find_Some_iff)

lemma port_of_dev_None: "port_of_dev i br = None \<longleftrightarrow> i \<notin> ifindex ` p_dev ` set (port_list br)"
  by (auto simp: port_of_dev_def find_None_iff)

lemma position_None: "position P xs = None \<longleftrightarrow> (\<forall>x\<in>set xs. \<not> P x)"
  by (induction xs) auto

lemma free_device:
  assumes "machine_ok h" "dev_get_by_index i h = Some dev" "bridge_of_dev i h = None"
  shows "dev \<in> set (host_devs h)" "ifindex dev = i"
proof -
  have "dev \<in> set (all_devs h)" and i: "ifindex dev = i" using assms(2) by (auto simp: dev_get_by_index_def find_Some_iff)
  moreover have "ifindex (br_dev br) \<noteq> i" if "br \<in> set (host_bridges h)" for br
    using assms(3) that machine_bridge(1) [OF assms(1) that] by (auto simp: bridge_of_dev_def position_None)
  ultimately show "dev \<in> set (host_devs h)" "ifindex dev = i" by (auto simp: all_devs_def)
qed

text \<open>How a bridge finds a device that is no bridge.\<close>

lemma dev_seen_cases:
  assumes "machine_ok h" "br \<in> set (host_bridges h)" "dev \<in> set (host_devs h)"
  obtains (own) p where "p \<in> set (port_list br)" "dev_seen h br dev = p_dev p" "dev_br_port (p_dev p) = Port (port_no p)"
      "ident (p_dev p) = ident dev"
    | (other) b where "b \<in> set (host_bridges h)" "port_of_dev (ifindex dev) b \<noteq> None" "b \<noteq> br"
      "dev_seen h br dev = dev\<lparr>dev_br_port := Dangling_port\<rparr>" "ifindex dev \<in> ifindex ` p_dev ` set (all_ports h)"
    | (free) "dev_seen h br dev = dev" "dev_br_port dev = No_port" "ifindex dev \<notin> ifindex ` p_dev ` set (all_ports h)"
proof (cases "port_of_dev (ifindex dev) br")
  case (Some p)
  note p = port_of_dev_Some [OF Some]
  obtain d where d: "d \<in> set (host_devs h)" "ident (p_dev p) = ident d"
    using machine_bridge(4) [OF assms(1,2)] p by auto
  then have "d = dev"
    using p distinct_free_devs [OF machine_okD(2) [OF assms(1)]] assms(3)
    by (metis distinct_map inj_onD ident_def fst_conv)
  then show ?thesis using own [of p] p machine_bridge(3) [OF assms(1,2)] Some d by (simp add: dev_seen_def)
next
  case None
  show ?thesis
  proof (cases "\<exists>other\<in>set (host_bridges h). \<exists>p\<in>set (port_list other). ifindex (p_dev p) = ifindex dev")
    case True
    then obtain b p where b: "b \<in> set (host_bridges h)" "p \<in> set (port_list b)" "ifindex (p_dev p) = ifindex dev" by blast
    then have "p \<in> set (all_ports h)" by (auto simp: all_ports_def)
    then have "ifindex dev \<in> ifindex ` p_dev ` set (all_ports h)" "port_of_dev (ifindex dev) b \<noteq> None"
      using b by (auto simp: port_of_dev_None intro: rev_image_eqI)
    moreover have "b \<noteq> br" using None calculation by auto
    ultimately show ?thesis using other [of b] b(1) None True by (simp add: dev_seen_def)
  next
    case False
    then have "ifindex dev \<notin> ifindex ` p_dev ` set (all_ports h)" by (fastforce simp: all_ports_def)
    moreover from this have "dev_br_port dev = No_port"
      using shape_okD(4) [OF machine_okD(2) [OF assms(1)] assms(3)] by (simp add: key_idx_shape image_image)
    ultimately show ?thesis using free None False by (auto simp: dev_seen_def)
  qed
qed

lemma all_ports_idx_cong:
  "machine_shape h' = machine_shape h \<Longrightarrow> ifindex ` p_dev ` set (all_ports h') = ifindex ` p_dev ` set (all_ports h)"
  using key_idx_shape [of h'] key_idx_shape [of h] by (metis image_image set_map)

lemma machine_shape_same_key:
  "i < length (host_bridges h) \<Longrightarrow> bridge_key br = bridge_key (host_bridges h ! i) \<Longrightarrow>
     machine_shape (h\<lparr>host_bridges := (host_bridges h)[i := br]\<rparr>) = machine_shape h"
  by (simp add: machine_shape_def map_update list_update_same_conv)

lemma machine_ok_add_if:
  assumes "machine_ok h" "i < length (host_bridges h)" "dev \<in> set (host_devs h)" "length (host_devs h) < 255"
    "br_add_if j (dev_seen h (host_bridges h ! i) dev) (host_bridges h ! i) = (ret, dev', br')"
  shows "machine_ok (put_back dev' (h\<lparr>host_bridges := (host_bridges h)[i := br']\<rparr>))"
proof -
  let ?br = "host_bridges h ! i" and ?h = "h\<lparr>host_bridges := (host_bridges h)[i := br']\<rparr>"
  have br: "?br \<in> set (host_bridges h)" using assms(2) by simp
  note inv = machine_okD(1) [OF assms(1) br]
  have inv': "bridge_inv br'" using bridge_inv_add_if [OF inv, of j "dev_seen h ?br dev"] by (simp add: assms(5))
  have id: "ident dev \<in> ident ` set (host_devs h)" using assms(3) by simp
  show ?thesis
  proof (cases rule: add_if_key [OF assms(5) inv])
    case 1
    note refused = this
    have ok: "machine_ok ?h" by (rule machine_ok_same_key [OF assms(1,2) inv' refused(2)])
    have ports: "ifindex ` p_dev ` set (all_ports ?h) = ifindex ` p_dev ` set (all_ports h)"
      by (rule all_ports_idx_cong [OF machine_shape_same_key [OF assms(2) refused(2)]])
    show ?thesis
    proof (cases rule: dev_seen_cases [OF assms(1) br assms(3)])
      case (1 p)
      note own = this
      have "dev_br_port dev' = Port (port_no p)"
        using refused(4) own(2,3) assms(5) by (auto simp: br_add_if_def)
      then show ?thesis using ok by (simp add: put_back_def)
    next
      case (2 b)
      note other = this
      then show ?thesis using refused(3) id ports by (intro machine_ok_put_back [OF ok]) (auto simp: ident_def)
    next
      case 3
      note free = this
      have "ifindex dev \<notin> ifindex ` p_dev ` set (port_list ?br)" using free(3) br by (auto simp: all_ports_def)
      then have "dev_br_port dev' = No_port"
        using machine_free_port_no [OF assms(1) br assms(4,3)] refused(4) free by auto
      then show ?thesis using refused(3) id free(1) by (intro machine_ok_put_back [OF ok]) (auto simp: ident_def)
    qed
  next
    case (2 n)
    note added = this
    have seen: "dev_seen h ?br dev = dev" "ifindex dev \<notin> ifindex ` p_dev ` set (all_ports h)"
      by (cases rule: dev_seen_cases [OF assms(1) br assms(3)], use added(2) in simp_all)+
    have "machine_ok ?h"
      by (rule machine_ok_add_port [OF assms(1,2) inv' added(5) _ added(4)])
         (use added(3) id seen in \<open>auto simp: ident_def\<close>)
    then show ?thesis using added(4) by (simp add: put_back_def)
  qed
qed

lemma machine_ok_del_if:
  assumes "machine_ok h" "i < length (host_bridges h)" "dev \<in> set (host_devs h)"
    "\<forall>other\<in>set (host_bridges h). port_of_dev (ifindex dev) other = None \<or> other = host_bridges h ! i"
    "br_del_if j (dev_seen h (host_bridges h ! i) dev) (host_bridges h ! i) = (ret, dev', br')"
  shows "machine_ok (put_back dev' (h\<lparr>host_bridges := (host_bridges h)[i := br']\<rparr>))"
proof -
  let ?br = "host_bridges h ! i" and ?h = "h\<lparr>host_bridges := (host_bridges h)[i := br']\<rparr>"
  have br: "?br \<in> set (host_bridges h)" using assms(2) by simp
  note inv = machine_okD(1) [OF assms(1) br]
  show ?thesis
  proof (cases rule: dev_seen_cases [OF assms(1) br assms(3)])
    case (1 p)
    note own = this
    then have n: "port_no p \<in> set (port_nos ?br)" by (simp add: port_nos_def)
    then obtain q where q: "br_get_port ?br (port_no p) = Some q" using br_get_port_ex_iff [of ?br "port_no p"] by blast
    note inv1 = bridge_inv_del_port [OF inv n, of j]
    have eq: "dev' = release_dev (p_dev p)" "br' = br_stp_recalculate_bridge_id j (del_port j (port_no p) ?br)"
      using assms(5) own(2,3) q by (simp_all add: br_del_if_def br_del_if_unlocked_def)
    have "bridge_inv br'" unfolding eq(2) by (rule bridge_inv_recalculate [OF inv1])
    moreover have "bridge_key br' = bridge_key (without_port (port_no p) ?br)"
      unfolding eq(2) key_recalculate [OF inv1] by (rule key_del_port [OF inv])
    ultimately show ?thesis
      by (rule machine_ok_del_port [OF assms(1,2) own(1)]) (simp_all add: eq(1) release_dev_def ident_def)
  next
    case (2 b)
    note other = this
    have "port_of_dev (ifindex dev) b = None \<or> b = ?br" using assms(4) other(1) by blast
    then show ?thesis using other(2,3) by simp
  next
    case 3
    note free = this
    then have eq: "dev' = dev" "br' = br_stp_recalculate_bridge_id j ?br"
      using assms(5) by (simp_all add: br_del_if_def br_del_if_unlocked_def)
    have "machine_ok ?h"
      unfolding eq(2) by (rule machine_ok_same_key [OF assms(1,2) bridge_inv_recalculate [OF inv] key_recalculate [OF inv]])
    then show ?thesis using free(2) assms(3) by (intro machine_ok_put_back) (simp_all add: eq(1))
  qed
qed

theorem machine_ok_dev_ioctl:
  assumes "machine_ok h" "sys_dev_ioctl env name cmd a0 a1 a2 f h = (ret, res, h')"
    "\<And>br. ctl_bridge env name h = Some br \<Longrightarrow> port_request_ok cmd (unat a0) br h"
  shows "machine_ok h'"
proof (cases "ctl_bridge env name h")
  case None
  then show ?thesis using sys_dev_ioctl_denied [OF None, of cmd a0 a1 a2 f] assms(1,2) by simp
next
  case (Some br)
  then obtain i where i: "he_capable env" "position (br_listed (ifr_name name)) (host_bridges h) = Some i" "host_bridges h ! i = br"
    by (auto simp: ctl_bridge_def split: if_splits)
  have len: "i < length (host_bridges h)" using position_Some [OF i(2)] by simp
  then have br: "br \<in> set (host_bridges h)" using i(3) by auto
  note inv = machine_okD(1) [OF assms(1) br]
  let ?ie = "io_env env h (dev_seen h br) None f"
  obtain r res' br' where r: "br_ioctl_device (he_jiffies env) ?ie cmd a0 a1 a2 br = (r, res', br')" by (metis prod_cases3)
  consider (port) "cmd = BRCTL_ADD_IF \<or> cmd = BRCTL_DEL_IF" | (bridge) "bridge_cmd cmd"
    | (machine) "cmd = BRCTL_GET_VERSION \<or> cmd = BRCTL_GET_BRIDGES \<or> cmd = BRCTL_ADD_BRIDGE \<or> cmd = BRCTL_DEL_BRIDGE"
    by (auto simp: bridge_cmd_def)
  then show ?thesis
  proof cases
    case port
    then have h': "h' = (case res' of Out_dev dev \<Rightarrow> put_back dev (h\<lparr>host_bridges := (host_bridges h)[i := br']\<rparr>)
        | _ \<Rightarrow> h\<lparr>host_bridges := (host_bridges h)[i := br']\<rparr>)"
      using assms(2) i r
      by (auto simp: sys_dev_ioctl_def br_dev_do_ioctl_def br_ioctl_def deviceless_bridge_cmd Let_def)
    show ?thesis
    proof (cases "dev_get_by_index (unat a0) h")
      case None
      then have "res' = Out_none" "br' = br" using port r by (auto simp: io_env_def)
      then show ?thesis using h' assms(1) i(3) by auto
    next
      case (Some dev)
      have ok: "port_request_ok cmd (unat a0) br h" by (rule assms(3) [OF \<open>ctl_bridge env name h = Some br\<close>])
      then have dev: "dev \<in> set (host_devs h)" "ifindex dev = unat a0"
        using free_device [OF assms(1) Some] port by (auto simp: port_request_ok_def)
      have "br_add_if (he_jiffies env) (dev_seen h br dev) br = (r, d, br') \<and> res' = Out_dev d \<and> cmd = BRCTL_ADD_IF
        \<or> br_del_if (he_jiffies env) (dev_seen h br dev) br = (r, d, br') \<and> res' = Out_dev d \<and> cmd = BRCTL_DEL_IF"
        if "res' = Out_dev d" for d
        using port r Some that by (auto simp: io_env_def split: prod.splits)
      moreover obtain d where "res' = Out_dev d" using port r Some by (auto simp: io_env_def split: prod.splits)
      ultimately show ?thesis
        using machine_ok_add_if [OF assms(1) len dev(1)] machine_ok_del_if [OF assms(1) len dev(1)] ok dev(2) i(3) h'
        by (auto simp: port_request_ok_def)
    qed
  next
    case bridge
    then have "cmd \<noteq> BRCTL_ADD_IF" "cmd \<noteq> BRCTL_DEL_IF" by (auto simp: bridge_cmd_def)
    then have s: "sound br br'" using sound_ioctl [OF inv, of cmd "he_jiffies env" ?ie a0 a1 a2] by (simp add: r)
    have "h' = h\<lparr>host_bridges := (host_bridges h)[i := br']\<rparr>"
      using sys_dev_ioctl_bridge [OF Some bridge, of a0 a1 a2 f] assms(2) i(2) r by (simp add: put_bridge_def)
    then show ?thesis
      using machine_ok_same_key [OF assms(1) len bridge_inv_sound [OF inv s]] bridge_key_sound [OF s] i(3) by simp
  next
    case machine
    then have "h' = h"
      using assms(2) i by (auto simp: sys_dev_ioctl_def br_dev_do_ioctl_def br_ioctl_def io_env_def EOPNOTSUPP_def Let_def
          split: if_splits)
    then show ?thesis using assms(1) by simp
  qed
qed

end
