(* ===== verification/Br_Machine_Steps.thy ===== *)
theory Br_Machine_Steps
  imports Br_Machine
begin

text \<open>
  Everything that happens to a machine keeps it well-formed: bridges that are created and deleted, the requests
  and events of network devices, drivers that come and go, frames, timers and messages.
\<close>

section \<open>Bridges come and go\<close>

lemma machine_dev_names:
  assumes "machine_ok h" "good_name n" "dev_get_by_name n h = None"
  shows "n \<notin> dev_name ` set (all_devs h)"
  using assms machine_host_ok [OF assms(1)] by (auto simp: dev_get_by_name_def find_None_iff host_ok_def)

lemma all_devs_names:
  assumes "machine_ok h"
  shows "map ident (all_devs h) = map ident (key_devs (machine_shape h) @ host_devs h)"
  using all_devs_ok [OF machine_host_ok [OF assms]] by (simp add: key_devs_shape ident_def)

lemma names_ok_Cons:
  "names_ok (d # ds) \<longleftrightarrow> names_ok ds \<and> ifindex d \<notin> ifindex ` set ds \<and> dev_name d \<notin> dev_name ` set ds
     \<and> good_name (dev_name d) \<and> ifindex d \<noteq> 0"
  by (auto simp: names_ok_def)

text \<open>A device with a new name and a new index joins the machine.\<close>

lemma names_ok_new:
  assumes "machine_ok h" "good_name (dev_name d)" "dev_get_by_name (dev_name d) h = None" "next_ifindex h c = Some (ifindex d)"
  shows "names_ok (d # key_devs (machine_shape h) @ host_devs h)"
proof -
  let ?xs = "key_devs (machine_shape h) @ host_devs h"
  have "names_ok (d # all_devs h)"
    using machine_dev_names [OF assms(1-3)] next_ifindex_free [OF assms(4)] assms(2) machine_host_ok [OF assms(1)]
    by (simp add: names_ok_Cons) (simp add: names_ok_def host_ok_def)
  moreover have "map ident (d # all_devs h) = map ident (d # ?xs)" using all_devs_names [OF assms(1)] by simp
  ultimately show ?thesis using names_ok_cong by blast
qed

definition bridge_name_ok :: "brctl \<Rightarrow> string option \<Rightarrow> bool" where
  "bridge_name_ok cmd name \<longleftrightarrow>
     (\<forall>buf. cmd = BRCTL_ADD_BRIDGE \<longrightarrow> name = Some buf \<longrightarrow> good_name (take (IFNAMSIZ - 1) buf) \<and> plain_name (take (IFNAMSIZ - 1) buf))"

lemma machine_ok_add_bridge:
  assumes "machine_ok h" "good_name n" "plain_name n" "next_ifindex h c = Some idx"
    "br_add_bridge (\<lambda>nm. dev_get_by_name nm h \<noteq> None) mok m idx n (host_bridges h) = (ret, bl)"
  shows "machine_ok (h\<lparr>host_bridges := bl\<rparr>)" "gone_bridges bl h = []"
proof -
  let ?nb = "new_nb n m 0"
  let ?dev = "(br_dev ?nb)\<lparr>unused_alignment_fixer := ucast (dev_mtu (br_dev ?nb)), ifindex := idx, dev_listed := True, dev_refcnt := 1\<rparr>"
  have dev: "dev_name (br_dev ?nb) = n" "dev_br_port (br_dev ?nb) = No_port" "dev_refcnt (br_dev ?nb) = 0" "port_list ?nb = []"
    using assms(2) by (simp_all add: new_nb_def Let_def br_mfd_init_def)
  have alt: "bl = host_bridges h \<or> dev_get_by_name n h = None \<and> bl = ?nb\<lparr>br_dev := ?dev\<rparr> # host_bridges h"
    using assms(3,5) dev
    by (auto simp: br_add_bridge_def Let_def register_plain register_netdevice_def split: if_splits)
  from alt show "machine_ok (h\<lparr>host_bridges := bl\<rparr>)"
  proof
    assume "dev_get_by_name n h = None \<and> bl = ?nb\<lparr>br_dev := ?dev\<rparr> # host_bridges h"
    then have new: "dev_get_by_name n h = None" "bl = ?nb\<lparr>br_dev := ?dev\<rparr> # host_bridges h" by simp_all
    let ?k = "bridge_key (?nb\<lparr>br_dev := ?dev\<rparr>)"
    note sh = machine_okD(2) [OF assms(1)]
    have k: "?k = ([], ?dev\<lparr>dev_addr := br_mac_zero\<rparr>, [])" by (simp add: bridge_key_def port_nos_def port_devs_def dev(4))
    have "names_ok (?dev\<lparr>dev_addr := br_mac_zero\<rparr> # key_devs (machine_shape h) @ host_devs h)"
      by (rule names_ok_new [OF assms(1), where c = c]) (use assms(2,4) new(1) dev(1) in simp_all)
    then have "shape_ok (?k # machine_shape h) (host_devs h)"
      using sh dev(2) by (simp add: k shape_ok_def key_devs_def key_idx_def key_ok_def)
    then show ?thesis
      using assms(1) new(2) bridge_inv_port_dev(2) [OF bridge_inv_new_nb] by (simp add: machine_ok_def machine_shape_def)
  qed (use assms(1) in simp)
  show "gone_bridges bl h = []"
    using alt by (auto simp: gone_bridges_def filter_empty_conv)
qed

lemma fold_put_back:
  assumes "\<And>dev. dev \<in> set devs \<Longrightarrow> dev_br_port dev = No_port \<and> ident dev \<in> ident ` set (host_devs h)"
    "\<And>br dev. br \<in> set (host_bridges h) \<Longrightarrow> dev \<in> set devs \<Longrightarrow> ifindex (br_dev br) \<noteq> ifindex dev"
    "distinct (map ifindex (host_devs h))"
  obtains ds where "fold put_back devs h = h\<lparr>host_devs := ds\<rparr>" "map ident ds = map ident (host_devs h)"
    "\<And>d. d \<in> set ds \<Longrightarrow> dev_br_port d = No_port \<or> d \<in> set (host_devs h) \<and> ifindex d \<notin> ifindex ` set devs"
  using assms
proof (induction devs arbitrary: h thesis)
  case (Cons dev devs)
  let ?ds = "map (\<lambda>d. if ifindex d = ifindex dev then dev else d) (host_devs h)"
  have pb: "put_back dev h = h\<lparr>host_devs := ?ds\<rparr>"
    using Cons.prems(2) [of dev] put_dev_host [of h dev] Cons.prems(3) by (simp add: put_back_def)
  have id: "map ident ?ds = map ident (host_devs h)"
    by (rule map_ident_put [OF Cons.prems(4)]) (use Cons.prems(2) in simp)
  have idset: "ident ` set ?ds = ident ` set (host_devs h)" using arg_cong [OF id, of set] by (simp only: set_map)
  have idx: "map ifindex ?ds = map ifindex (host_devs h)" using arg_cong [OF id, of "map fst"] by (simp add: ident_def comp_def)
  obtain ds where ds: "fold put_back devs (h\<lparr>host_devs := ?ds\<rparr>) = h\<lparr>host_devs := ds\<rparr>" "map ident ds = map ident ?ds"
    "\<And>d. d \<in> set ds \<Longrightarrow> dev_br_port d = No_port \<or> d \<in> set ?ds \<and> ifindex d \<notin> ifindex ` set devs"
  proof (rule Cons.IH [of "h\<lparr>host_devs := ?ds\<rparr>"])
    show "dev_br_port e = No_port \<and> ident e \<in> ident ` set (host_devs (h\<lparr>host_devs := ?ds\<rparr>))" if "e \<in> set devs" for e
      using Cons.prems(2) [of e] that idset by simp
    show "ifindex (br_dev br) \<noteq> ifindex e" if "br \<in> set (host_bridges (h\<lparr>host_devs := ?ds\<rparr>))" "e \<in> set devs" for br e
      using Cons.prems(3) [of br e] that by simp
    show "distinct (map ifindex (host_devs (h\<lparr>host_devs := ?ds\<rparr>)))"
      using Cons.prems(4) unfolding idx [symmetric] by (simp del: map_map)
  qed simp
  show ?case
  proof (rule Cons.prems(1))
    show "fold put_back (dev # devs) h = h\<lparr>host_devs := ds\<rparr>" using pb ds(1) by simp
    show "map ident ds = map ident (host_devs h)" using ds(2) id by simp
    show "dev_br_port d = No_port \<or> d \<in> set (host_devs h) \<and> ifindex d \<notin> ifindex ` set (dev # devs)" if "d \<in> set ds" for d
      using ds(3) [OF that] Cons.prems(2) [of dev] by (auto split: if_splits)
  qed
next
  case Nil
  show ?case by (rule Nil.prems(1) [of "host_devs h"]) simp_all
qed
lemma distinct_bridges:
  assumes "machine_ok h"
  shows "distinct (map (\<lambda>br. ifindex (br_dev br)) (host_bridges h))"
  using shape_okD(1) [OF machine_okD(2) [OF assms]] by (simp add: names_ok_def key_devs_shape)

lemma port_dev_no_bridge:
  assumes "machine_ok h" "b \<in> set (host_bridges h)" "p \<in> set (port_list b)" "br \<in> set (host_bridges h)"
  shows "ifindex (br_dev br) \<noteq> ifindex (p_dev p)"
  by (rule bridge_no_free_dev [OF assms(1) machine_bridge(4) [OF assms(1-3)] assms(4)])

lemma machine_ok_del_bridge:
  assumes "machine_ok h" "host_bridges h = before @ br # after"
  shows "machine_ok (fold put_back (released_devs (before @ after) h)
    (h\<lparr>host_bridges := unregister_gone j (before @ after) h\<rparr>))"
proof -
  let ?bl = "before @ after"
  have br: "br \<in> set (host_bridges h)" and sub: "set ?bl \<subseteq> set (host_bridges h)" using assms(2) by auto
  have idx: "ifindex (br_dev b) \<noteq> ifindex (br_dev br)" if "b \<in> set ?bl" for b
  proof -
    have "ifindex (br_dev b) \<in> (\<lambda>br. ifindex (br_dev br)) ` set ?bl" using that by (rule imageI)
    then show ?thesis using distinct_bridges [OF assms(1)] by (auto simp: assms(2))
  qed
  have gone: "gone_bridges ?bl h = [br]"
  proof -
    have "filter (\<lambda>b. \<forall>b'\<in>set ?bl. ifindex (br_dev b') \<noteq> ifindex (br_dev b)) xs = []" if "set xs \<subseteq> set ?bl" for xs
      using that by (auto simp: filter_empty_conv)
    from this [of before] this [of after] show ?thesis
      using idx by (simp add: gone_bridges_def assms(2))
  qed
  have "port_of_dev (ifindex (br_dev br)) b = None" if "b \<in> set ?bl" for b
    using port_dev_no_bridge [OF assms(1) _ _ br] sub that by (auto simp: port_of_dev_None)
  then have unreg: "unregister_gone j ?bl h = ?bl"
    by (auto simp: unregister_gone_def gone notifier_call_chain_def intro!: map_idI)
  have rel: "released_devs ?bl h = map (release_dev \<circ> p_dev) (port_list br)" by (simp add: released_devs_def gone)
  note sh = machine_okD(2) [OF assms(1)]
  obtain ds where ds: "fold put_back (released_devs ?bl h) (h\<lparr>host_bridges := ?bl\<rparr>) = h\<lparr>host_bridges := ?bl, host_devs := ds\<rparr>"
    "map ident ds = map ident (host_devs h)"
    "\<And>d. d \<in> set ds \<Longrightarrow> dev_br_port d = No_port \<or> d \<in> set (host_devs h) \<and> ifindex d \<notin> ifindex ` set (released_devs ?bl h)"
  proof (rule fold_put_back [of "released_devs ?bl h" "h\<lparr>host_bridges := ?bl\<rparr>"])
    show "dev_br_port d = No_port \<and> ident d \<in> ident ` set (host_devs (h\<lparr>host_bridges := ?bl\<rparr>))" if d: "d \<in> set (released_devs ?bl h)" for d
      using d machine_bridge(4) [OF assms(1) br] by (auto simp: rel release_dev_def ident_def)
    show "ifindex (br_dev b) \<noteq> ifindex d" if "b \<in> set (host_bridges (h\<lparr>host_bridges := ?bl\<rparr>))" "d \<in> set (released_devs ?bl h)" for b d
      using that port_dev_no_bridge [OF assms(1) br] sub by (auto simp: rel release_dev_def)
  qed (use distinct_free_devs [OF sh] in simp_all)
  have shape: "machine_shape h = map bridge_key before @ bridge_key br # map bridge_key after" by (simp add: machine_shape_def assms(2))
  have all_idx: "key_idx (machine_shape h) = key_idx (map bridge_key before) @ map (\<lambda>p. ifindex (p_dev p)) (port_list br) @ key_idx (map bridge_key after)"
    by (simp add: shape key_idx_def bridge_key_def port_devs_def comp_def)
  have "shape_ok (map bridge_key ?bl) ds"
    unfolding shape_ok_def
  proof (intro conjI ballI impI)
    have "names_ok (key_devs (map bridge_key ?bl) @ host_devs h)"
      using shape_okD(1) [OF sh] by (auto simp: shape key_devs_def names_ok_def)
    moreover have "map ident (key_devs (map bridge_key ?bl) @ ds) = map ident (key_devs (map bridge_key ?bl) @ host_devs h)"
      using ds(2) by simp
    ultimately show "names_ok (key_devs (map bridge_key ?bl) @ ds)" using names_ok_cong by blast
    have "key_ok ds = key_ok (host_devs h)" using arg_cong [OF ds(2), of set] by (simp add: key_ok_def fun_eq_iff)
    then show "list_all (key_ok ds) (map bridge_key ?bl)" using shape_okD(2) [OF sh] by (simp add: shape)
    have idx_bl: "key_idx (map bridge_key ?bl) = key_idx (map bridge_key before) @ key_idx (map bridge_key after)"
      by (simp add: key_idx_def)
    show "distinct (key_idx (map bridge_key ?bl))" using shape_okD(3) [OF sh] unfolding idx_bl all_idx by auto
    show "dev_br_port d = No_port" if "d \<in> set ds" "ifindex d \<notin> set (key_idx (map bridge_key ?bl))" for d
      using ds(3) [OF that(1)] that(2) shape_okD(4) [OF sh, of d]
      unfolding idx_bl all_idx by (auto simp: rel release_dev_def image_image)
  qed
  moreover have "list_all bridge_inv ?bl" using assms(1) sub by (auto simp: machine_ok_def list_all_iff)
  ultimately show ?thesis using ds(1) by (simp add: unreg machine_ok_def machine_shape_def)
qed

theorem machine_ok_br_ioctl:
  assumes "machine_ok h" "sys_br_ioctl env cmd a0 a1 name h = (ret, res, h')" "bridge_name_ok cmd name"
    "cmd = BRCTL_ADD_BRIDGE \<Longrightarrow> next_ifindex h c = Some (he_new_ifindex env)"
  shows "machine_ok h'"
proof -
  obtain r res' bl where r: "br_ioctl_deviceless_stub (he_capable env) (he_jiffies env) (io_env env h id name None)
      (Some (cmd, a0, a1)) (host_bridges h) = (r, res', bl)" by (metis prod_cases3)
  have h': "h' = fold put_back (released_devs bl h) (h\<lparr>host_bridges := unregister_gone (he_jiffies env) bl h\<rparr>)"
    using assms(2) r by (auto simp: sys_br_ioctl_def)
  have same: "machine_ok h'" if "bl = host_bridges h"
    using h' assms(1) nobody_gone [OF gone_same [of h]] by (simp add: that)
  consider (add) buf where "cmd = BRCTL_ADD_BRIDGE" "name = Some buf" "he_capable env"
    | (del) buf where "cmd = BRCTL_DEL_BRIDGE" "name = Some buf" "he_capable env" | (other) "bl = host_bridges h"
    using r by (cases cmd) (auto simp: br_ioctl_deviceless_stub_def io_env_def Let_def split: if_splits option.splits prod.splits)
  then show ?thesis
  proof cases
    case (add buf)
    then have "br_add_bridge (\<lambda>nm. dev_get_by_name nm h \<noteq> None) (he_mem_ok env) (he_mem_later env) (he_new_ifindex env)
        (take (IFNAMSIZ - 1) buf) (host_bridges h) = (r, bl)"
      using r by (auto simp: br_ioctl_deviceless_stub_def io_env_def split: prod.splits)
    moreover have "good_name (take (IFNAMSIZ - 1) buf)" "plain_name (take (IFNAMSIZ - 1) buf)"
      using assms(3) add(1,2) by (simp_all add: bridge_name_ok_def)
    ultimately have ok: "machine_ok (h\<lparr>host_bridges := bl\<rparr>)" "gone_bridges bl h = []"
      using machine_ok_add_bridge [OF assms(1) _ _ assms(4) [OF add(1)]] by blast+
    then show ?thesis using h' nobody_gone [OF ok(2)] by simp
  next
    case (del buf)
    then have "(\<exists>e. br_del_bridge (he_jiffies env) (take (IFNAMSIZ - 1) buf) (host_bridges h) = (r, bl, e))"
      using r by (auto simp: br_ioctl_deviceless_stub_def io_env_def split: prod.splits)
    then have "bl = host_bridges h \<or> (\<exists>before br after. host_bridges h = before @ br # after \<and> bl = before @ after)"
      by (fastforce simp: br_del_bridge_def split: option.splits if_splits dest!: extract_SomeE)
    then show ?thesis using same machine_ok_del_bridge [OF assms(1)] h' by auto
  qed (rule same)
qed

section \<open>Changes of a device\<close>

text \<open>What the shape depends on of a device.\<close>

type_synonym attr = "(nat \<times> string) \<times> br_port_ptr \<times> bool"

definition dev_attr :: "net_device \<Rightarrow> attr" where
  "dev_attr d = (ident d, dev_br_port d, dev_listed d)"

definition key_attr :: "nat list \<times> net_device \<times> net_device list \<Rightarrow> nat list \<times> attr \<times> attr list" where
  "key_attr k = (fst k, dev_attr (fst (snd k)), map dev_attr (snd (snd k)))"

lemma dev_attr_ident: "map dev_attr xs = map dev_attr ys \<Longrightarrow> map ident xs = map ident ys"
proof -
  assume "map dev_attr xs = map dev_attr ys"
  then have "map fst (map dev_attr xs) = map fst (map dev_attr ys)" by (rule arg_cong)
  then show ?thesis by (simp add: dev_attr_def comp_def)
qed

lemma key_ok_attr:
  "key_ok ds k \<longleftrightarrow> (case key_attr k of (ns, d, es) \<Rightarrow> snd (snd d) \<and> fst (snd d) = No_port
     \<and> list_all2 (\<lambda>n e. fst (snd e) = Port n) ns es \<and> fst ` set es \<subseteq> fst ` set (map dev_attr ds))"
  by (auto simp: key_ok_def key_attr_def dev_attr_def list.rel_map case_prod_beta image_image)

lemma key_idx_attr:
  assumes "map key_attr ks' = map key_attr ks"
  shows "key_idx ks' = key_idx ks"
proof -
  have "key_idx xs = concat (map (\<lambda>k. map (fst \<circ> fst) (snd (snd k))) (map key_attr xs))" for xs
    unfolding key_idx_def by (rule arg_cong [of _ _ concat]) (simp add: key_attr_def dev_attr_def ident_def case_prod_beta)
  then show ?thesis by (simp only: assms)
qed

lemma shape_ok_attr:
  assumes "map key_attr ks' = map key_attr ks" "map dev_attr ds' = map dev_attr ds" "shape_ok ks ds"
  shows "shape_ok ks' ds'"
proof -
  have devs: "map dev_attr (key_devs xs) = map (fst \<circ> snd) (map key_attr xs)" for xs
    by (simp add: key_devs_def key_attr_def case_prod_beta)
  have "map dev_attr (key_devs ks' @ ds') = map dev_attr (key_devs ks @ ds)"
    using assms(1,2) devs [of ks] devs [of ks'] by simp
  then have "names_ok (key_devs ks' @ ds')"
    using names_ok_cong [OF dev_attr_ident] shape_okD(1) [OF assms(3)] by blast
  moreover have "list_all (key_ok ds') ks'"
  proof -
    define P where "P = (\<lambda>x :: nat list \<times> attr \<times> attr list. case x of (ns, d, es) \<Rightarrow> snd (snd d) \<and> fst (snd d) = No_port
      \<and> list_all2 (\<lambda>n e. fst (snd e) = Port n) ns es \<and> fst ` set es \<subseteq> fst ` set (map dev_attr ds))"
    have "list_all P (map key_attr ks)" using shape_okD(2) [OF assms(3)] by (simp add: list_all_iff key_ok_attr P_def)
    then have "list_all P (map key_attr ks')" by (simp only: assms(1))
    then show ?thesis by (simp add: list_all_iff key_ok_attr P_def assms(2) [symmetric])
  qed
  moreover have ks: "key_idx ks' = key_idx ks" by (rule key_idx_attr [OF assms(1)])
  moreover have "dev_br_port d = No_port" if d: "d \<in> set ds'" "ifindex d \<notin> set (key_idx ks')" for d
  proof -
    have "dev_attr d \<in> set (map dev_attr ds)" using imageI [OF d(1), of dev_attr] arg_cong [OF assms(2), of set] by simp
    then obtain e where "e \<in> set ds" "dev_attr e = dev_attr d" by force
    then show ?thesis using shape_okD(4) [OF assms(3), of e] d(2) ks by (simp add: dev_attr_def ident_def)
  qed
  ultimately show ?thesis using shape_okD(3) [OF assms(3)] by (simp add: shape_ok_def)
qed

lemma bridge_inv_devs:
  assumes "bridge_inv br"
  shows "bridge_inv (br\<lparr>br_dev := d, port_list := map (\<lambda>p. p\<lparr>p_dev := g (p_dev p)\<rparr>) (port_list br)\<rparr>)"
  using assms by (simp add: bridge_inv_def root_ok_def fdb_hashed_def fdb_ports_def fdb_all_def port_nos_def comp_def)

text \<open>The indices of the devices that are on ports.\<close>

definition port_idx :: "br_host \<Rightarrow> nat list" where
  "port_idx h = key_idx (machine_shape h)"

lemma port_idx_ports: "set (port_idx h) = ifindex ` p_dev ` set (all_ports h)"
  by (simp add: port_idx_def key_idx_shape image_image)

lemma machine_ok_upd_dev:
  assumes "machine_ok h" "\<And>d. ifindex d = i \<Longrightarrow> dev_attr (f d) = dev_attr d"
  shows "machine_ok (upd_dev i f h)" "port_idx (upd_dev i f h) = port_idx h"
proof -
  have a: "dev_attr (upd_if i f d) = dev_attr d" for d using assms(2) by (simp add: upd_if_def)
  have m: "dev_attr (d\<lparr>dev_addr := x\<rparr>) = dev_attr d" for d x by (simp add: dev_attr_def ident_def)
  have attr: "map key_attr (machine_shape (upd_dev i f h)) = map key_attr (machine_shape h)"
    by (simp add: machine_shape_def upd_dev_def key_attr_def bridge_key_def port_devs_def port_nos_def a m comp_def)
  then show "port_idx (upd_dev i f h) = port_idx h" unfolding port_idx_def by (rule key_idx_attr)
  have "shape_ok (machine_shape (upd_dev i f h)) (host_devs (upd_dev i f h))"
    by (rule shape_ok_attr [OF attr _ machine_okD(2) [OF assms(1)]]) (simp add: upd_dev_def a)
  moreover have "list_all bridge_inv (host_bridges (upd_dev i f h))"
    using bridge_inv_devs assms(1) by (simp add: machine_ok_def upd_dev_def list_all_iff)
  ultimately show "machine_ok (upd_dev i f h)" by (simp add: machine_ok_def)
qed

section \<open>Events\<close>

lemma machine_ok_map:
  assumes "machine_ok h" "\<And>br. br \<in> set (host_bridges h) \<Longrightarrow> bridge_inv (F br) \<and> bridge_key (F br) = bridge_key br"
  shows "machine_ok (h\<lparr>host_bridges := map F (host_bridges h)\<rparr>)" "port_idx (h\<lparr>host_bridges := map F (host_bridges h)\<rparr>) = port_idx h"
  using assms by (simp_all add: machine_ok_def list_all_iff port_idx_def machine_shape_def cong: map_cong)

lemma key_changeaddr: "bridge_key (br_fdb_changeaddr n a br) = bridge_key br"
proof -
  have "br_dev (changeaddr_from is n a br) = br_dev br \<and> port_list (changeaddr_from is n a br) = port_list br" for "is"
    by (induction "is") (simp_all add: set_chain_def Let_def split: option.split)
  then show ?thesis by (simp add: br_fdb_changeaddr_def bridge_key_def port_nos_def port_devs_def)
qed

lemma device_event_ok:
  assumes "bridge_inv br" "p \<in> set (port_list br)" "dev_br_port (p_dev p) = Port (port_no p)"
  shows "bridge_inv (br_device_event j ev (port_no p) br)"
    "ev \<noteq> NETDEV_UNREGISTER \<Longrightarrow> bridge_key (br_device_event j ev (port_no p) br) = bridge_key br"
    "bridge_key (br_device_event j NETDEV_UNREGISTER (port_no p) br) = bridge_key (without_port (port_no p) br)"
proof -
  have n: "port_no p \<in> set (port_nos br)" using assms(2) by (simp add: port_nos_def)
  have q: "br_get_port br (port_no p) = Some p"
    using find_key_in [of port_no "port_list br" p] bridge_invD(1) [OF assms(1)] assms(2) by (simp add: br_get_port_def port_nos_def)
  note ok = bridge_invD(2) [OF assms(1)]
  show "bridge_inv (br_device_event j ev (port_no p) br)"
    by (rule bridge_inv_device_event [OF assms(1) q]) (use assms(3) n in \<open>simp add: dev_ok_def\<close>)
  show "bridge_key (br_device_event j ev (port_no p) br) = bridge_key br" if "ev \<noteq> NETDEV_UNREGISTER"
    using that key_recalculate [OF bridge_inv_changeaddr [OF assms(1)]] key_changeaddr
      bridge_key_sound [OF sound_stp_disable_port] key_enable_port [OF assms(1)]
    by (cases ev) (simp_all add: br_device_event_def deref_ok [OF q])
  show "bridge_key (br_device_event j NETDEV_UNREGISTER (port_no p) br) = bridge_key (without_port (port_no p) br)"
    using key_recalculate [OF bridge_inv_del_port [OF assms(1) n]] key_del_port [OF assms(1)] assms(3) q
    by (simp add: br_device_event_def deref_ok [OF q] br_del_if_def br_del_if_unlocked_def)
qed

lemma machine_ok_notify:
  assumes "machine_ok h" "dev_br_port dev \<noteq> Dangling_port" "ev \<noteq> NETDEV_UNREGISTER"
  obtains h' where "notify env ev dev h = Some h'" "machine_ok h'" "port_idx h' = port_idx h"
proof (cases "dev_br_port dev")
  case No_port
  then show ?thesis using that assms(1) by (simp add: notify_def)
next
  case (Port n)
  have "bridge_inv (case port_of_dev (ifindex dev) br of Some p \<Rightarrow> br_device_event (he_jiffies env) ev (port_no p) br | None \<Rightarrow> br)
      \<and> bridge_key (case port_of_dev (ifindex dev) br of Some p \<Rightarrow> br_device_event (he_jiffies env) ev (port_no p) br | None \<Rightarrow> br)
        = bridge_key br" if br: "br \<in> set (host_bridges h)" for br
  proof -
    note inv = machine_okD(1) [OF assms(1) br] and pt = machine_bridge(3) [OF assms(1) br]
    show ?thesis
    proof (cases "port_of_dev (ifindex dev) br")
      case (Some p)
      then have "p \<in> set (port_list br)" using port_of_dev_Some by blast
      then show ?thesis using device_event_ok(1,2) [OF inv _ pt] assms(3) Some by simp
    qed (simp add: inv)
  qed
  note ok = machine_ok_map [OF assms(1) this]
  show ?thesis
    by (rule that [OF _ ok]) (simp add: notify_def notifier_call_chain_def Port)
qed (use assms(2) in simp)

section \<open>Opening, closing and requests\<close>

lemma dev_now_ok:
  assumes "machine_ok h" "dev_now i h = Some dev"
  shows "ifindex dev = i" "dev_br_port dev \<noteq> Dangling_port" "dev_br_port dev = No_port \<longleftrightarrow> i \<notin> set (port_idx h)"
proof -
  have "ifindex dev = i \<and> (if i \<in> set (port_idx h) then \<exists>n. dev_br_port dev = Port n else dev_br_port dev = No_port)"
  proof (cases "find (\<lambda>p. ifindex (p_dev p) = i) (all_ports h)")
    case (Some p)
    then have p: "p \<in> set (all_ports h)" "ifindex (p_dev p) = i" by (auto simp: find_Some_iff)
    then obtain br where br: "br \<in> set (host_bridges h)" "p \<in> set (port_list br)" by (auto simp: all_ports_def)
    have "i \<in> set (port_idx h)" using p by (auto simp: port_idx_ports)
    then show ?thesis using assms(2) Some p(2) machine_bridge(3) [OF assms(1) br] by (auto simp: dev_now_def)
  next
    case None
    then have i: "i \<notin> set (port_idx h)" by (auto simp: find_None_iff port_idx_ports)
    have dev: "dev \<in> set (all_devs h)" "ifindex dev = i"
      using assms(2) None by (auto simp: dev_now_def dev_get_by_index_def find_Some_iff)
    have "dev_br_port dev = No_port"
      using dev i machine_bridge(2) [OF assms(1)] shape_okD(4) [OF machine_okD(2) [OF assms(1)], of dev]
      by (auto simp: all_devs_def port_idx_def)
    then show ?thesis using dev(2) i by simp
  qed
  then show "ifindex dev = i" "dev_br_port dev \<noteq> Dangling_port" "dev_br_port dev = No_port \<longleftrightarrow> i \<notin> set (port_idx h)"
    by (auto split: if_splits)
qed

lemma machine_ok_upd_bridge:
  assumes "machine_ok h" "bridge_of_dev i h = Some k" "\<And>br. bridge_inv br \<Longrightarrow> bridge_inv (F br) \<and> bridge_key (F br) = bridge_key br"
  shows "machine_ok (upd_bridge k F h)" "port_idx (upd_bridge k F h) = port_idx h"
proof -
  have k: "k < length (host_bridges h)" using position_Some assms(2) by (fastforce simp: bridge_of_dev_def)
  then have inv: "bridge_inv (host_bridges h ! k)" using machine_okD(1) [OF assms(1)] by simp
  show "machine_ok (upd_bridge k F h)"
    using machine_ok_same_key [OF assms(1) k] assms(3) [OF inv] by (simp add: upd_bridge_def)
  show "port_idx (upd_bridge k F h) = port_idx h"
    using machine_shape_same_key [OF k] assms(3) [OF inv] by (simp add: upd_bridge_def port_idx_def)
qed

lemma dev_open_key: "bridge_inv br \<Longrightarrow> bridge_inv (br_dev_open j br) \<and> bridge_key (br_dev_open j br) = bridge_key br"
  using bridge_inv_open [of br j] keeps_stp_enable_bridge [OF bridge_invD(2), of br j]
  by (auto simp: br_dev_open_def dest: bridge_key_keeps)

lemma dev_stop_key: "bridge_inv br \<Longrightarrow> bridge_inv (br_dev_stop j br) \<and> bridge_key (br_dev_stop j br) = bridge_key br"
proof -
  assume inv: "bridge_inv br"
  let ?b = "br_fdb_cleanup j (br\<lparr>topology_change := False\<rparr>)"
  have "bridge_key (br_dev_stop j br) = bridge_key ?b"
    unfolding br_dev_stop_def by (rule bridge_key_sound [OF sound_stp_disable_bridge [OF bridge_invD(2) [OF inv]]])
  also have "\<dots> = bridge_key br"
    by (simp add: br_fdb_cleanup_def Let_def bridge_key_def port_nos_def port_devs_def sweep_all_def)
  finally show ?thesis using bridge_inv_stop [OF inv] by simp
qed

lemma machine_ok_dev_open:
  assumes "machine_ok h" "dev_br_port dev \<noteq> Dangling_port"
  obtains ret h' where "dev_open env drv dev h = Some (ret, h')" "machine_ok h'" "port_idx h' = port_idx h"
proof -
  define h1 where "h1 = (case bridge_of_dev (ifindex dev) h of Some k \<Rightarrow> upd_bridge k (br_dev_open (he_jiffies env)) h | None \<Rightarrow> h)"
  define h2 where "h2 = upd_dev (ifindex dev) (\<lambda>d. d\<lparr>dev_up := True\<rparr>) h1"
  have 1: "machine_ok h1" "port_idx h1 = port_idx h"
    using assms(1) machine_ok_upd_bridge [OF assms(1) _ dev_open_key] by (simp_all add: h1_def split: option.split)
  have 2: "machine_ok h2" "port_idx h2 = port_idx h1"
    unfolding h2_def by (rule machine_ok_upd_dev [OF 1(1)], simp add: dev_attr_def ident_def)+
  obtain h3 where 3: "notify env NETDEV_UP (dev\<lparr>dev_up := True\<rparr>) h2 = Some h3" "machine_ok h3" "port_idx h3 = port_idx h2"
    by (rule machine_ok_notify [OF 2(1), of "dev\<lparr>dev_up := True\<rparr>" NETDEV_UP env]) (use assms(2) in auto)
  have "dev_open env drv dev h = Some (0, h) \<or> dev_open env drv dev h = Some (0, h3) \<or> (\<exists>ret. dev_open env drv dev h = Some (ret, h))"
    using 3(1) by (auto simp: dev_open_def h2_def h1_def split: option.split)
  then show ?thesis using that 1(2) 2(2) 3(2,3) assms(1) by metis
qed

lemma machine_ok_dev_close:
  assumes "machine_ok h" "dev_br_port dev \<noteq> Dangling_port"
  obtains h' where "dev_close env dev h = Some (0, h')" "machine_ok h'" "port_idx h' = port_idx h"
proof (cases "dev_up dev")
  case False
  then show ?thesis using that assms(1) by (simp add: dev_close_def)
next
  case True
  obtain h0 where 0: "notify env NETDEV_GOING_DOWN dev h = Some h0" "machine_ok h0" "port_idx h0 = port_idx h"
    by (rule machine_ok_notify [OF assms(1,2), of NETDEV_GOING_DOWN env]) auto
  define h1 where "h1 = (case bridge_of_dev (ifindex dev) h0 of Some k \<Rightarrow> upd_bridge k (br_dev_stop (he_jiffies env)) h0 | None \<Rightarrow> h0)"
  define h2 where "h2 = upd_dev (ifindex dev) (\<lambda>d. d\<lparr>dev_up := False\<rparr>) h1"
  have 1: "machine_ok h1" "port_idx h1 = port_idx h0"
    using 0(2) machine_ok_upd_bridge [OF 0(2) _ dev_stop_key] by (simp_all add: h1_def split: option.split)
  have 2: "machine_ok h2" "port_idx h2 = port_idx h1"
    unfolding h2_def by (rule machine_ok_upd_dev [OF 1(1)], simp add: dev_attr_def ident_def)+
  obtain h3 where 3: "notify env NETDEV_DOWN (dev\<lparr>dev_up := False\<rparr>) h2 = Some h3" "machine_ok h3" "port_idx h3 = port_idx h2"
    by (rule machine_ok_notify [OF 2(1), of "dev\<lparr>dev_up := False\<rparr>" NETDEV_DOWN env]) (use assms(2) in auto)
  have "dev_close env dev h = Some (0, h3)"
    using True 0(1) 3(1) by (simp add: dev_close_def Let_def h1_def [symmetric] h2_def [symmetric])
  then show ?thesis using that 0(3) 1(2) 2(2) 3(2,3) by simp
qed

subsection \<open>A new name\<close>

lemma names_ok_rename:
  assumes "names_ok ds" "good_name n" "n \<notin> dev_name ` set ds"
  shows "names_ok (map (upd_if i (\<lambda>d. d\<lparr>dev_name := n\<rparr>)) ds)"
  using assms
proof (induction ds)
  case (Cons d ds)
  let ?g = "upd_if i (\<lambda>d. d\<lparr>dev_name := n\<rparr>)"
  have idx: "ifindex (?g e) = ifindex e" for e by (simp add: upd_if_def)
  have d: "ifindex d \<notin> ifindex ` set ds" "dev_name d \<notin> dev_name ` set ds" "dev_name d \<noteq> n" "n \<notin> dev_name ` set ds"
    using Cons.prems by (auto simp: names_ok_Cons)
  have "dev_name (?g d) \<notin> dev_name ` ?g ` set ds"
  proof
    assume "dev_name (?g d) \<in> dev_name ` ?g ` set ds"
    then obtain e where e: "e \<in> set ds" "dev_name (?g d) = dev_name (?g e)" by auto
    have "ifindex e \<noteq> ifindex d" "dev_name e \<noteq> dev_name d" "dev_name e \<noteq> n"
      using e(1) d by (metis imageI)+
    then show False using e(2) d(3) by (simp add: upd_if_def split: if_splits)
  qed
  moreover have "ifindex d \<notin> ifindex ` ?g ` set ds" using d(1) by (simp add: image_image idx)
  moreover have "names_ok (map ?g ds)" using Cons.IH Cons.prems d(4) by (simp add: names_ok_Cons)
  moreover have "good_name (dev_name (?g d))" "ifindex d \<noteq> 0"
    using Cons.prems(1,2) by (simp_all add: names_ok_Cons upd_if_def)
  ultimately show ?case unfolding list.map names_ok_Cons idx set_map by blast
qed simp

lemma machine_ok_rename:
  assumes "machine_ok h" "good_name n" "dev_get_by_name n h = None"
  shows "machine_ok (upd_dev i (\<lambda>d. d\<lparr>dev_name := n\<rparr>) h)"
proof -
  let ?g = "upd_if i (\<lambda>d. d\<lparr>dev_name := n\<rparr>)"
  let ?k = "\<lambda>(ns, d, es). (ns, ?g d, map ?g es) :: nat list \<times> net_device \<times> net_device list"
  note sh = machine_okD(2) [OF assms(1)]
  have g: "ifindex (?g d) = ifindex d" "dev_br_port (?g d) = dev_br_port d" "dev_listed (?g d) = dev_listed d" for d
    by (simp_all add: upd_if_def)
  have "(?g d)\<lparr>dev_addr := a\<rparr> = ?g (d\<lparr>dev_addr := a\<rparr>)" for d a by (simp add: upd_if_def)
  then have shape: "machine_shape (upd_dev i (\<lambda>d. d\<lparr>dev_name := n\<rparr>) h) = map ?k (machine_shape h)"
    by (simp add: machine_shape_def upd_dev_def bridge_key_def port_devs_def port_nos_def comp_def)
  have "n \<notin> dev_name ` set (key_devs (machine_shape h) @ host_devs h)"
    using machine_dev_names [OF assms] arg_cong [OF all_devs_names [OF assms(1)], of "\<lambda>xs. snd ` set xs"]
    by (simp add: ident_def image_image image_Un)
  then have "names_ok (map ?g (key_devs (machine_shape h) @ host_devs h))"
    by (rule names_ok_rename [OF shape_okD(1) [OF sh] assms(2)])
  moreover have "key_devs (map ?k ks) = map ?g (key_devs ks)" for ks by (simp add: key_devs_def case_prod_beta)
  moreover have "key_idx (map ?k ks) = key_idx ks" for ks
    unfolding key_idx_def by (rule arg_cong [of _ _ concat]) (simp add: case_prod_beta g comp_def)
  moreover have "key_ok (map ?g (host_devs h)) (?k k)" if "key_ok (host_devs h) k" for k
  proof -
    have "ident (?g e) \<in> ident ` ?g ` set (host_devs h)" if e: "ident e \<in> ident ` set (host_devs h)" for e
    proof -
      obtain d where d: "ident e = ident d" "d \<in> set (host_devs h)" using e by (rule imageE)
      then have "ident (?g e) = ident (?g d)" by (simp add: upd_if_def ident_def)
      then show ?thesis using d(2) by simp
    qed
    then show ?thesis using that by (auto simp: key_ok_def case_prod_beta g list.rel_map)
  qed
  ultimately have "shape_ok (map ?k (machine_shape h)) (map ?g (host_devs h))"
    using sh by (auto simp: shape_ok_def list_all_iff g)
  then show ?thesis
    using bridge_inv_devs assms(1) shape by (simp add: machine_ok_def upd_dev_def list_all_iff)
qed

definition request_ok :: "if_request \<Rightarrow> bool" where
  "request_ok req \<longleftrightarrow> (\<forall>n. req = SIOCSIFNAME n \<longrightarrow> good_name n)"

lemma machine_ok_change_flags:
  assumes "machine_ok h" "dev_br_port dev \<noteq> Dangling_port"
  shows "\<exists>ret h'. dev_change_flags env drv up promisc dev h = Some (ret, h') \<and> machine_ok h'"
proof -
  have promisc: "machine_ok (dev_set_promiscuity dev inc (upd_dev (ifindex dev) (\<lambda>d. d\<lparr>dev_gpromisc := \<not> dev_gpromisc d\<rparr>) h1))"
    if "machine_ok h1" for inc h1
    unfolding dev_set_promiscuity_def
    by (rule machine_ok_upd_dev [OF machine_ok_upd_dev(1) [OF that]]) (simp_all add: dev_attr_def ident_def)
  obtain ret h1 where h1: "(if dev_up dev = up then Some (0, h) else if dev_up dev then dev_close env dev h else dev_open env drv dev h) = Some (ret, h1)"
    "machine_ok h1"
  proof -
    obtain r1 ho where "dev_open env drv dev h = Some (r1, ho)" "machine_ok ho" by (rule machine_ok_dev_open [OF assms])
    moreover obtain hc where "dev_close env dev h = Some (0, hc)" "machine_ok hc" by (rule machine_ok_dev_close [OF assms])
    ultimately show thesis using that assms(1) by presburger
  qed
  then show ?thesis using promisc by (simp add: dev_change_flags_def)
qed

theorem machine_ok_if_request:
  assumes "machine_ok h" "request_ok req"
  shows "\<exists>ret ans h'. dev_ioctl env drv name req h = Some (ret, ans, h') \<and> machine_ok h'"
proof -
  have "\<exists>ret ans h'. dev_ifsioc env drv req dev h = Some (ret, ans, h') \<and> machine_ok h'" if "dev_now i h = Some dev" for i dev
  proof -
    note dev = dev_now_ok(2) [OF assms(1) that]
    have addr: "\<exists>h'. notify env NETDEV_CHANGEADDR dev h1 = Some h' \<and> machine_ok h'" if "machine_ok h1" for h1
      by (rule machine_ok_notify [OF that dev, of NETDEV_CHANGEADDR env]) auto
    have upd: "machine_ok (upd_dev (ifindex dev) f h)" if "\<And>d. dev_attr (f d) = dev_attr d" for f
      by (rule machine_ok_upd_dev [OF assms(1) that])
    show ?thesis
    proof (cases req)
      case (SIOCSIFFLAGS up promisc)
      then show ?thesis using machine_ok_change_flags [OF assms(1) dev, of env drv up promisc] by auto
    next
      case (SIOCSIFHWADDR family_ok a)
      then show ?thesis using addr upd [of "\<lambda>d. d\<lparr>dev_addr := a\<rparr>"] assms(1) by (fastforce simp: Let_def dev_attr_def ident_def)
    next
      case (SIOCSIFMTU mtu)
      then show ?thesis using upd [of "\<lambda>d. d\<lparr>dev_mtu := mtu\<rparr>"] assms(1) by (simp add: Let_def dev_attr_def ident_def)
    next
      case (SIOCSIFTXQLEN qlen)
      then show ?thesis using upd [of "\<lambda>d. d\<lparr>tx_queue_len := qlen\<rparr>"] assms(1) by (simp add: dev_attr_def ident_def)
    next
      case (SIOCSIFASYMMTU mtu)
      then show ?thesis using upd [of "\<lambda>d. d\<lparr>unused_alignment_fixer := ucast mtu\<rparr>"] assms(1) by (simp add: dev_attr_def ident_def)
    next
      case (SIOCSIFHWBROADCAST family_ok)
      then show ?thesis using addr [OF assms(1)] assms(1) by auto
    next
      case (SIOCSIFNAME n)
      then have n: "good_name n" using assms(2) by (simp add: request_ok_def)
      then show ?thesis
        using SIOCSIFNAME assms(1) machine_ok_rename [OF assms(1) n] by (auto simp del: One_nat_def)
    qed (use assms(1) in simp_all)
  qed
  then show ?thesis using assms(1) by (auto simp: dev_ioctl_def split: option.split)
qed

section \<open>Devices come and go\<close>

lemma machine_ok_register:
  assumes "machine_ok h" "driver_registers env dev h = (ret, h')" "good_name (dev_name dev)" "plain_name (dev_name dev)"
    "dev_br_port dev = No_port" "next_ifindex h c = Some (he_new_ifindex env)"
  shows "machine_ok h'"
proof (cases "dev_get_by_name (dev_name dev) h = None")
  case True
  let ?d = "dev\<lparr>unused_alignment_fixer := ucast (dev_mtu dev), ifindex := he_new_ifindex env, dev_listed := True, dev_refcnt := dev_refcnt dev + 1\<rparr>"
  note sh = machine_okD(2) [OF assms(1)]
  have h': "h' = h\<lparr>host_devs := host_devs h @ [?d]\<rparr>"
    using assms(2,4) True by (auto simp: driver_registers_def register_plain register_netdevice_def Let_def)
  have "names_ok (?d # key_devs (machine_shape h) @ host_devs h)"
    by (rule names_ok_new [OF assms(1), where c = c]) (use assms(3,6) True in simp_all)
  then have "names_ok (key_devs (machine_shape h) @ host_devs h @ [?d])" by (auto simp: names_ok_def)
  moreover have "key_ok (host_devs h @ [?d]) k" if "key_ok (host_devs h) k" for k
    using that by (auto simp: key_ok_def)
  ultimately have "shape_ok (machine_shape h) (host_devs h @ [?d])"
    using sh assms(5) by (auto simp: shape_ok_def list_all_iff)
  then show ?thesis using assms(1) by (simp add: h' machine_ok_def machine_shape_def)
next
  case False
  then show ?thesis
    using assms(1,2,4) by (auto simp: driver_registers_def register_plain register_netdevice_def Let_def EEXIST_def)
qed

lemma without_port_dev:
  assumes "machine_ok h" "br \<in> set (host_bridges h)" "port_of_dev i br = Some p"
  shows "without_port (port_no p) br = br\<lparr>port_list := filter (\<lambda>q. ifindex (p_dev q) \<noteq> i) (port_list br)\<rparr>"
proof -
  have p: "p \<in> set (port_list br)" "ifindex (p_dev p) = i" using port_of_dev_Some [OF assms(3)] by auto
  have nos: "distinct (map port_no (port_list br))" using bridge_invD(1) [OF machine_okD(1) [OF assms(1,2)]] by (simp add: port_nos_def)
  have "distinct (map (\<lambda>p. ifindex (p_dev p)) (all_ports h))"
    using shape_okD(3) [OF machine_okD(2) [OF assms(1)]] by (simp add: key_idx_shape)
  then have idx: "distinct (map (\<lambda>p. ifindex (p_dev p)) (port_list br))"
    using assms(2) by (auto simp: all_ports_def map_concat distinct_concat_iff comp_def)
  have "port_no q = port_no p \<longleftrightarrow> ifindex (p_dev q) = i" if "q \<in> set (port_list br)" for q
    using inj_onD [OF distinct_map [THEN iffD1, OF nos, THEN conjunct2]] inj_onD [OF distinct_map [THEN iffD1, OF idx, THEN conjunct2]] p that
    by metis
  then have "filter (\<lambda>q. port_no q \<noteq> port_no p) (port_list br) = filter (\<lambda>q. ifindex (p_dev q) \<noteq> i) (port_list br)"
    by (intro filter_cong) simp_all
  then show ?thesis by simp
qed

text \<open>A device leaves: the bridge that has it on a port forgets the port, and the list forgets the device.\<close>

lemma machine_ok_forget:
  fixes j i defines "F \<equiv> \<lambda>br. case port_of_dev i br of Some p \<Rightarrow> br_device_event j NETDEV_UNREGISTER (port_no p) br | None \<Rightarrow> br"
  assumes "machine_ok h"
  defines "h' \<equiv> h\<lparr>host_bridges := map F (host_bridges h), host_devs := filter (\<lambda>d. ifindex d \<noteq> i) (host_devs h)\<rparr>"
  shows "machine_ok h'" "i \<notin> set (port_idx h')"
proof -
  let ?w = "\<lambda>br. br\<lparr>port_list := filter (\<lambda>q. ifindex (p_dev q) \<noteq> i) (port_list br)\<rparr>"
  let ?ds = "filter (\<lambda>d. ifindex d \<noteq> i) (host_devs h)"
  note sh = machine_okD(2) [OF assms(2)]
  have F: "bridge_inv (F br) \<and> bridge_key (F br) = bridge_key (?w br)" if "br \<in> set (host_bridges h)" for br
  proof (cases "port_of_dev i br")
    case None
    then have "filter (\<lambda>q. ifindex (p_dev q) \<noteq> i) (port_list br) = port_list br"
      by (auto simp: port_of_dev_None intro!: filter_True)
    then show ?thesis using machine_okD(1) [OF assms(2) that] None by (simp add: F_def)
  next
    case (Some p)
    then have "p \<in> set (port_list br)" using port_of_dev_Some by blast
    then show ?thesis
      using device_event_ok(1,3) [OF machine_okD(1) [OF assms(2) that] _ machine_bridge(3) [OF assms(2) that]]
        without_port_dev [OF assms(2) that Some] Some by (simp add: F_def)
  qed
  have shape: "machine_shape h' = map (\<lambda>br. bridge_key (?w br)) (host_bridges h)"
    using F by (simp add: h'_def machine_shape_def cong: map_cong)
  have idx: "port_idx h' = filter (\<lambda>m. m \<noteq> i) (port_idx h)"
    unfolding port_idx_def shape machine_shape_def [of h]
    by (simp add: key_idx_def bridge_key_def port_devs_def filter_concat comp_def filter_map)
  then show "i \<notin> set (port_idx h')" by simp
  have "key_devs (machine_shape h') = key_devs (machine_shape h)"
    unfolding shape machine_shape_def [of h] by (simp add: key_devs_def bridge_key_def port_devs_def)
  then have "names_ok (key_devs (machine_shape h') @ ?ds)"
    using shape_okD(1) [OF sh] by (auto simp: names_ok_def distinct_map_filter)
  moreover have "list_all (key_ok ?ds) (machine_shape h')"
  proof -
    have "ident (p_dev p) \<in> ident ` set ?ds" if "br \<in> set (host_bridges h)" "p \<in> set (port_list br)" "ifindex (p_dev p) \<noteq> i" for br p
      using machine_bridge(4) [OF assms(2) that(1,2)] that(3) by (auto simp: ident_def)
    then show ?thesis
      using machine_bridge [OF assms(2)] by (simp add: shape list_all_iff key_ok_bridge)
  qed
  moreover have "distinct (key_idx (machine_shape h'))" using idx shape_okD(3) [OF sh] by (simp add: port_idx_def)
  moreover have "dev_br_port d = No_port" if "d \<in> set ?ds" "ifindex d \<notin> set (key_idx (machine_shape h'))" for d
    using that shape_okD(4) [OF sh, of d] idx by (simp add: port_idx_def)
  ultimately have "shape_ok (machine_shape h') (host_devs h')" by (simp add: shape_ok_def h'_def)
  moreover have "list_all bridge_inv (host_bridges h')" using F by (simp add: h'_def list_all_iff)
  ultimately show "machine_ok h'" by (simp add: machine_ok_def)
qed

theorem machine_ok_unregister:
  assumes "machine_ok h" "dev_now i h = Some dev"
  shows "\<exists>h'. unregister_netdevice env dev h = Some (0, h') \<and> machine_ok h' \<and> i \<notin> set (port_idx h')
    \<and> (\<forall>d\<in>set (host_devs h'). ifindex d \<noteq> i)"
proof -
  note dev = dev_now_ok [OF assms]
  obtain h1 where 1: "dev_close env dev h = Some (0, h1)" "machine_ok h1" "port_idx h1 = port_idx h"
    by (rule machine_ok_dev_close [OF assms(1) dev(2), of env])
  let ?h = "h1\<lparr>host_bridges := notifier_call_chain (he_jiffies env) NETDEV_UNREGISTER i (host_bridges h1),
    host_devs := filter (\<lambda>d. ifindex d \<noteq> i) (host_devs h1)\<rparr>"
  have ok: "machine_ok ?h" "i \<notin> set (port_idx ?h)"
    using machine_ok_forget [OF 1(2), of i "he_jiffies env"] by (simp_all add: notifier_call_chain_def)
  have "unregister_netdevice env dev h = Some (0, ?h)"
  proof (cases "dev_br_port dev")
    case No_port
    then have i: "i \<notin> set (port_idx h1)" using dev(3) 1(3) by simp
    have "port_of_dev i br = None" if "br \<in> set (host_bridges h1)" for br
      using i that by (auto simp: port_idx_ports port_of_dev_None all_ports_def)
    then have "notifier_call_chain (he_jiffies env) NETDEV_UNREGISTER i (host_bridges h1) = host_bridges h1"
      by (simp add: notifier_call_chain_def map_idI)
    then show ?thesis using No_port 1(1) dev(1) by (simp add: unregister_netdevice_def notify_def)
  next
    case (Port n)
    then show ?thesis using 1(1) dev(1) by (simp add: unregister_netdevice_def notify_def)
  qed (use dev(2) in simp)
  then show ?thesis using ok by simp
qed

section \<open>Steps of the machine\<close>

text \<open>
  Frames from a port and from the local stack, the tick and protocol messages happen to one bridge; the rest to
  the machine. The tables of the module are the first part of the state. The tick is as in the steps of a
  single bridge.
\<close>

inductive machine_step :: "br_globals \<times> br_host \<Rightarrow> br_globals \<times> br_host \<Rightarrow> bool" where
  ms_receive: "i < length (host_bridges h) \<Longrightarrow> br_get_port (host_bridges h ! i) n = Some p \<Longrightarrow>
    handle_frame j n skb (g, host_bridges h ! i) = (g', br) \<Longrightarrow> machine_step (g, h) (g', h\<lparr>host_bridges := (host_bridges h)[i := br]\<rparr>)"
| ms_transmit: "i < length (host_bridges h) \<Longrightarrow>
    br_dev_xmit j skb (g, host_bridges h ! i) = (g', br) \<Longrightarrow> machine_step (g, h) (g', h\<lparr>host_bridges := (host_bridges h)[i := br]\<rparr>)"
| ms_tick: "i < length (host_bridges h) \<Longrightarrow> tcn_safe j (host_bridges h ! i) \<Longrightarrow>
    machine_step (g, h) (g, upd_bridge i (br_tick j) h)"
| ms_bpdu: "i < length (host_bridges h) \<Longrightarrow> br_get_port (host_bridges h ! i) n = Some p \<Longrightarrow>
    machine_step (g, h) (g, upd_bridge i (br_stp_handle_bpdu j n k buf) h)"
| ms_bridge_call: "sys_dev_ioctl env name cmd a0 a1 a2 f h = (ret, res, h') \<Longrightarrow>
    (\<And>br. ctl_bridge env name h = Some br \<Longrightarrow> port_request_ok cmd (unat a0) br h) \<Longrightarrow> machine_step (g, h) (g, h')"
| ms_module_call: "sys_br_ioctl env cmd a0 a1 name h = (ret, res, h') \<Longrightarrow> bridge_name_ok cmd name \<Longrightarrow>
    (cmd = BRCTL_ADD_BRIDGE \<Longrightarrow> next_ifindex h c = Some (he_new_ifindex env)) \<Longrightarrow> machine_step (g, h) (g, h')"
| ms_if_request: "dev_ioctl env drv name req h = Some (ret, ans, h') \<Longrightarrow> request_ok req \<Longrightarrow> machine_step (g, h) (g, h')"
| ms_register: "driver_registers env dev h = (ret, h') \<Longrightarrow> good_name (dev_name dev) \<Longrightarrow> plain_name (dev_name dev) \<Longrightarrow>
    dev_br_port dev = No_port \<Longrightarrow> next_ifindex h c = Some (he_new_ifindex env) \<Longrightarrow> machine_step (g, h) (g, h')"
| ms_unregister: "dev_now i h = Some dev \<Longrightarrow> bridge_of_dev i h = None \<Longrightarrow>
    unregister_netdevice env dev h = Some (ret, h') \<Longrightarrow> machine_step (g, h) (g, h')"
| ms_filter_proc: "machine_step (g, h) (snd (br_filter_write_proc buf g), h)"
| ms_trigger_proc: "machine_step (g, h) (snd (br_trigger_write_proc junk buf g), h)"

inductive_cases machine_stepE: "machine_step s t"

lemma handle_frame_key:
  assumes "bridge_inv br" "br_get_port br n = Some p" "handle_frame j n skb (g, br) = (g', br')"
  shows "bridge_inv br'" "bridge_key br' = bridge_key br"
proof -
  show "bridge_inv br'" using bridge_inv_handle_frame [of "(g, br)" n p j skb] assms by simp
  have "bridge_key br' = bridge_key (learn_source j n skb br)"
    using bridge_key_keeps [OF keeps_handle_frame [of "(g, br)" n p j skb]] bridge_invD(3,4) [OF assms(1)] assms(2,3) by simp
  also have "\<dots> = bridge_key br" by (simp add: learn_source_def key_fdb_insert split: option.split)
  finally show "bridge_key br' = bridge_key br" .
qed

lemma tick_key:
  assumes "bridge_inv br" "tcn_safe j br"
  shows "bridge_key (br_tick j br) = bridge_key br"
proof -
  have "bridge_key (br_tick j br) = bridge_key (br_check_timers j br)"
    unfolding br_tick_def by (rule bridge_key_keeps) simp
  also have "\<dots> = bridge_key (check_gc_timer j br)"
    by (rule bridge_key_sound [OF sound_check_timers [OF bridge_invD(2) [OF assms(1)] assms(2)]])
  also have "\<dots> = bridge_key br"
    by (simp add: check_gc_timer_def br_fdb_cleanup_def Let_def bridge_key_def port_nos_def port_devs_def sweep_all_def)
  finally show ?thesis .
qed

lemma machine_ok_step:
  assumes "machine_step s t" "machine_ok (snd s)"
  shows "machine_ok (snd t)"
  using assms
proof (induction rule: machine_step.induct)
  case (ms_receive i h n p j skb g g' br)
  then have ok: "machine_ok h" and inv: "bridge_inv (host_bridges h ! i)" using machine_okD(1) by simp_all
  show ?case
    using machine_ok_same_key [OF ok ms_receive(1)] handle_frame_key [OF inv ms_receive(2,3)] by simp
next
  case (ms_transmit i h j skb g g' br)
  then have ok: "machine_ok h" and inv: "bridge_inv (host_bridges h ! i)" using machine_okD(1) by simp_all
  have "keeps (host_bridges h ! i) br"
    using keeps_dev_xmit [of "(g, host_bridges h ! i)" j skb] bridge_invD(3,4) [OF inv] ms_transmit(2) by simp
  then show ?case
    using machine_ok_same_key [OF ok ms_transmit(1)] bridge_inv_keeps [OF inv] bridge_key_keeps by simp
next
  case (ms_tick i h j g)
  then have ok: "machine_ok h" and inv: "bridge_inv (host_bridges h ! i)" using machine_okD(1) by simp_all
  show ?case
    using machine_ok_same_key [OF ok ms_tick(1)] bridge_inv_tick [OF inv ms_tick(2)] tick_key [OF inv ms_tick(2)]
    by (simp add: upd_bridge_def)
next
  case (ms_bpdu i h n p g j k buf)
  then have ok: "machine_ok h" and inv: "bridge_inv (host_bridges h ! i)" using machine_okD(1) by simp_all
  have "n \<in> set (port_nos (host_bridges h ! i))" using ms_bpdu(2) br_get_port_ex_iff [of "host_bridges h ! i" n] by blast
  then have "sound (host_bridges h ! i) (br_stp_handle_bpdu j n k buf (host_bridges h ! i))"
    by (rule sound_stp_handle_bpdu [OF bridge_invD(2) [OF inv]])
  then show ?case
    using machine_ok_same_key [OF ok ms_bpdu(1)] bridge_inv_sound [OF inv] bridge_key_sound by (simp add: upd_bridge_def)
next
  case (ms_bridge_call env name cmd a0 a1 a2 f h ret res h' g)
  then show ?case using machine_ok_dev_ioctl [OF _ ms_bridge_call(1,2)] by simp
next
  case (ms_module_call env cmd a0 a1 name h ret res h' c g)
  then show ?case using machine_ok_br_ioctl [OF _ ms_module_call(1-3)] by simp
next
  case (ms_if_request env drv name req h ret ans h' g)
  then show ?case using machine_ok_if_request [of h req env drv name] by simp
next
  case (ms_register env dev h ret h' c g)
  then show ?case using machine_ok_register [OF _ ms_register(1-5)] by simp
next
  case (ms_unregister i h dev env ret h' g)
  then show ?case using machine_ok_unregister [of h i dev env] by simp
qed simp_all

text \<open>A machine after the start: devices with names and indices, on no bridge.\<close>

definition boot_ok :: "br_host \<Rightarrow> bool" where
  "boot_ok h \<longleftrightarrow> host_bridges h = [] \<and> names_ok (host_devs h) \<and> list_all (\<lambda>d. dev_br_port d = No_port) (host_devs h)"

lemma machine_ok_boot: "boot_ok h \<Longrightarrow> machine_ok h"
  by (simp add: boot_ok_def machine_ok_def machine_shape_def shape_ok_def key_devs_def key_idx_def list_all_iff)

lemma machine_ok_reachable:
  assumes "machine_step\<^sup>*\<^sup>* s t" "machine_ok (snd s)"
  shows "machine_ok (snd t)"
  using assms by (induction rule: rtranclp_induct) (auto intro: machine_ok_step)

end
