(* ===== verification/Br_Stp_Off.thy ===== *)
theory Br_Stp_Off
  imports Br_Stp_If
begin

text \<open>
  A port that has been disabled stays disabled: of everything the spanning tree protocol does, only
  \<^verbatim>\<open>br_stp_enable_port\<close> on the port itself takes it out of that state.
\<close>

definition port_off :: "nat \<Rightarrow> net_bridge \<Rightarrow> bool" where
  "port_off n br \<longleftrightarrow> (\<forall>p\<in>set (port_list br). port_no p = n \<longrightarrow> p_state p = BR_STATE_DISABLED)"

lemma port_off_cong: "port_list a = port_list b \<Longrightarrow> port_off n a \<longleftrightarrow> port_off n b"
  by (simp add: port_off_def)

lemma port_off_set [simp]:
  "port_off n (br\<lparr>max_age := v\<rparr>) = port_off n br" "port_off n (br\<lparr>hello_time := v\<rparr>) = port_off n br"
  "port_off n (br\<lparr>forward_delay := v\<rparr>) = port_off n br" "port_off n (br\<lparr>topology_change := b\<rparr>) = port_off n br"
  "port_off n (br\<lparr>topology_change_detected := b\<rparr>) = port_off n br" "port_off n (br\<lparr>hello_timer := t\<rparr>) = port_off n br"
  "port_off n (br\<lparr>tcn_timer := t\<rparr>) = port_off n br" "port_off n (br\<lparr>topology_change_timer := t\<rparr>) = port_off n br"
  "port_off n (br\<lparr>root_port := k\<rparr>) = port_off n br" "port_off n (br\<lparr>designated_root := r\<rparr>) = port_off n br"
  "port_off n (br\<lparr>root_path_cost := c\<rparr>) = port_off n br" "port_off n (fault br) = port_off n br"
  "port_off n (emit e br) = port_off n br"
  by (simp_all add: port_off_def fault_def emit_def)

lemma port_off_upd:
  assumes "port_off n br" "\<And>p. port_no (f p) = port_no p" "m \<noteq> n \<or> (\<forall>p. p_state (f p) = p_state p)"
  shows "port_off n (upd_port m f br)"
  using assms by (auto simp: port_off_def upd_port_def)

text \<open>A port that is found and not disabled is another one.\<close>

lemma port_off_other:
  "port_off n br \<Longrightarrow> br_get_port br m = Some p \<Longrightarrow> p_state p \<noteq> BR_STATE_DISABLED \<Longrightarrow> m \<noteq> n"
  by (auto simp: port_off_def br_get_port_def find_Some_iff)

lemma port_off_deref:
  assumes "port_off n br" "\<And>p. port_off n br \<Longrightarrow> br_get_port br m = Some p \<Longrightarrow> port_off n (f p br)"
  shows "port_off n (deref m f br)"
  using assms by (simp add: deref_def split: option.split)

lemma port_off_for_each_port:
  assumes "port_off n br" "\<And>b m p. port_off n b \<Longrightarrow> br_get_port b m = Some p \<Longrightarrow> port_no p = m \<Longrightarrow> port_off n (f p b)"
  shows "port_off n (for_each_port f br)"
proof -
  have "port_off n (fold (\<lambda>m. deref m f) ms b)" if "port_off n b" for ms b
    using that
  proof (induction ms arbitrary: b)
    case (Cons m ms)
    then have "port_off n (deref m f b)" using assms(2) by (intro port_off_deref) (auto simp: br_get_port_port_no)
    then show ?case using Cons by simp
  qed simp
  then show ?thesis using assms(1) by (simp add: for_each_port_def)
qed

lemma port_off_alloc [simp]: "port_off n (snd (alloc br)) = port_off n br"
  by (simp add: alloc_def port_off_def split: list.split)

lemma port_off_send_bpdu: "port_off n br \<Longrightarrow> port_off n (br_send_bpdu m data br)"
  unfolding br_send_bpdu_def by (erule port_off_deref) (simp add: Let_def case_prod_beta)

lemma port_off_transmit_tcn: "port_off n br \<Longrightarrow> port_off n (br_transmit_tcn br)"
  by (simp add: br_transmit_tcn_def br_send_tcn_bpdu_def port_off_send_bpdu)

lemma port_off_transmit_config: "port_off n br \<Longrightarrow> port_off n (br_transmit_config jiffies m br)"
  unfolding br_transmit_config_def br_send_config_bpdu_def
  by (erule port_off_deref) (auto intro!: port_off_upd port_off_send_bpdu split: option.split)

lemma port_off_topology_change_detection: "port_off n br \<Longrightarrow> port_off n (br_topology_change_detection jiffies br)"
  by (simp add: br_topology_change_detection_def Let_def port_off_transmit_tcn)

lemma port_off_make_forwarding: "port_off n br \<Longrightarrow> port_off n (br_make_forwarding jiffies m br)"
  unfolding br_make_forwarding_def
proof (erule port_off_deref, goal_cases)
  case (1 p)
  then show ?case using port_off_other [of n br m p] by (auto intro!: port_off_upd)
qed

lemma port_off_make_blocking: "port_off n br \<Longrightarrow> port_off n (br_make_blocking jiffies m br)"
  unfolding br_make_blocking_def Let_def
proof (erule port_off_deref, goal_cases)
  case (1 p)
  then show ?case
    using port_off_other [of n br m p] by (auto intro!: port_off_upd port_off_topology_change_detection)
qed

lemma port_off_port_state_selection: "port_off n br \<Longrightarrow> port_off n (br_port_state_selection jiffies br)"
  unfolding br_port_state_selection_def Let_def
  by (erule port_off_for_each_port) (auto intro!: port_off_make_forwarding port_off_make_blocking port_off_upd)

lemma port_off_root_selection: "port_off n br \<Longrightarrow> port_off n (br_root_selection br)"
  by (simp add: br_root_selection_def Let_def split: option.split)

lemma port_off_designated_port_selection: "port_off n br \<Longrightarrow> port_off n (br_designated_port_selection br)"
  unfolding br_designated_port_selection_def
  by (erule port_off_for_each_port) (auto intro!: port_off_upd simp: br_become_designated_port_def)

lemma port_off_configuration_update: "port_off n br \<Longrightarrow> port_off n (br_configuration_update br)"
  by (simp add: br_configuration_update_def port_off_designated_port_selection port_off_root_selection)

lemma port_off_config_bpdu_generation: "port_off n br \<Longrightarrow> port_off n (br_config_bpdu_generation jiffies br)"
  unfolding br_config_bpdu_generation_def
  by (erule port_off_for_each_port) (simp add: port_off_transmit_config)

lemma port_off_become_root_bridge: "port_off n br \<Longrightarrow> port_off n (br_become_root_bridge jiffies br)"
  by (simp add: br_become_root_bridge_def Let_def port_off_config_bpdu_generation port_off_topology_change_detection)

lemma port_off_become_root_if_new: "port_off n br \<Longrightarrow> port_off n (become_root_if_new jiffies was br)"
  by (simp add: become_root_if_new_def port_off_become_root_bridge)

text \<open>Disabling a port, and what a message or a tick does to the others.\<close>

lemma port_off_upd_self:
  "(\<And>p. port_no (f p) = port_no p) \<Longrightarrow> (\<And>p. p_state (f p) = BR_STATE_DISABLED) \<Longrightarrow> port_off n (upd_port n f br)"
  by (auto simp: port_off_def upd_port_def)

lemma port_off_disable_port: "port_off n (br_stp_disable_port jiffies n br)"
  unfolding br_stp_disable_port_def
  by (intro port_off_become_root_if_new port_off_port_state_selection port_off_configuration_update port_off_upd_self)
     (simp_all add: br_become_designated_port_def)

lemma port_off_received_tcn_bpdu: "port_off n br \<Longrightarrow> port_off n (br_received_tcn_bpdu jiffies m br)"
  unfolding br_received_tcn_bpdu_def br_topology_change_acknowledge_def
  by (erule port_off_deref) (auto intro!: port_off_transmit_config port_off_upd port_off_topology_change_detection)

lemma port_off_received_config_bpdu: "port_off n br \<Longrightarrow> port_off n (br_received_config_bpdu jiffies m bpdu br)"
proof -
  assume off: "port_off n br"
  have sel: "port_off n (br_port_state_selection jiffies (br_configuration_update (br_record_config_information jiffies m bpdu br)))"
    unfolding br_record_config_information_def
    by (intro port_off_port_state_selection port_off_configuration_update port_off_upd off) simp_all
  have gen: "port_off n b \<Longrightarrow> port_off n (br_config_bpdu_generation jiffies (br_record_config_timeout_values bpdu b))" for b
    by (intro port_off_config_bpdu_generation) (simp add: br_record_config_timeout_values_def)
  show ?thesis
    unfolding br_received_config_bpdu_def Let_def br_reply_def br_topology_change_acknowledged_def
    by (rule port_off_deref [OF off]) (simp add: sel gen off port_off_transmit_config port_off_transmit_tcn)
qed

lemma port_off_stp_handle_bpdu: "port_off n br \<Longrightarrow> port_off n (br_stp_handle_bpdu jiffies m i buf br)"
  by (simp add: br_stp_handle_bpdu_def port_off_received_config_bpdu port_off_received_tcn_bpdu)

section \<open>Timers and other ports\<close>

lemma port_off_disable_other: "port_off n br \<Longrightarrow> port_off n (br_stp_disable_port jiffies m br)"
  unfolding br_stp_disable_port_def
  by (intro port_off_become_root_if_new port_off_port_state_selection port_off_configuration_update)
     (auto simp: port_off_def upd_port_def br_become_designated_port_def)

lemma port_off_enable_other: "port_off n br \<Longrightarrow> m \<noteq> n \<Longrightarrow> port_off n (br_stp_enable_port jiffies m br)"
  unfolding br_stp_enable_port_def br_init_port_def
  by (intro port_off_port_state_selection port_off_upd) (simp_all add: init_port_def br_become_designated_port_def)

lemma port_off_message_age: "port_off n br \<Longrightarrow> port_off n (br_message_age_timer_expired jiffies m br)"
  unfolding br_message_age_timer_expired_def
  by (intro port_off_become_root_if_new port_off_port_state_selection port_off_configuration_update port_off_upd)
     (simp_all add: br_become_designated_port_def)

lemma port_off_forward_delay: "port_off n br \<Longrightarrow> port_off n (br_forward_delay_timer_expired jiffies m br)"
  unfolding br_forward_delay_timer_expired_def
proof (erule port_off_deref, goal_cases)
  case (1 p)
  then show ?case
    using port_off_other [of n br m p] by (auto simp: Let_def intro!: port_off_upd port_off_topology_change_detection)
qed

lemma port_off_hold: "port_off n br \<Longrightarrow> port_off n (br_hold_timer_expired jiffies m br)"
  unfolding br_hold_timer_expired_def by (erule port_off_deref) (simp add: port_off_transmit_config)

lemma port_off_check_port_timers: "port_off n br \<Longrightarrow> port_off n (br_check_port_timers jiffies m br)"
  unfolding br_check_port_timers_def Let_def
  by (intro port_off_deref) (auto intro!: port_off_message_age port_off_forward_delay port_off_hold port_off_upd)

lemma port_off_tick: "port_off n br \<Longrightarrow> port_off n (br_tick jiffies br)"
proof -
  assume off: "port_off n br"
  have "port_off n (check_gc_timer jiffies br)"
    using off by (simp add: check_gc_timer_def br_fdb_cleanup_def sweep_all_def Let_def port_off_def)
  then have "port_off n (check_topology_change_timer jiffies (check_tcn_timer jiffies (check_hello_timer jiffies (check_gc_timer jiffies br))))"
    by (simp add: check_topology_change_timer_def br_topology_change_timer_expired_def check_tcn_timer_def br_tcn_timer_expired_def
        check_hello_timer_def br_hello_timer_expired_def Let_def port_off_transmit_tcn port_off_config_bpdu_generation)
  then have "port_off n (br_check_timers jiffies br)"
    unfolding br_check_timers_def by (rule port_off_for_each_port) (simp add: port_off_check_port_timers)
  then show ?thesis by (simp add: br_tick_def port_off_def)
qed

text \<open>What happens to a bridge's ports while the device of port \<open>n\<close> stays down.\<close>

inductive stp_event :: "nat \<Rightarrow> net_bridge \<Rightarrow> net_bridge \<Rightarrow> bool" for n where
  ev_tick: "stp_event n br (br_tick j br)"
| ev_bpdu: "stp_event n br (br_stp_handle_bpdu j m i buf br)"
| ev_up: "m \<noteq> n \<Longrightarrow> stp_event n br (br_stp_enable_port j m br)"
| ev_down: "stp_event n br (br_stp_disable_port j m br)"

lemma port_off_event: "stp_event n a b \<Longrightarrow> port_off n a \<Longrightarrow> port_off n b"
  by (induction rule: stp_event.induct) (simp_all add: port_off_tick port_off_stp_handle_bpdu port_off_enable_other port_off_disable_other)

lemma port_off_events: "(stp_event n)\<^sup>*\<^sup>* a b \<Longrightarrow> port_off n a \<Longrightarrow> port_off n b"
  by (induction rule: rtranclp_induct) (auto intro: port_off_event)

end
