(* ===== verification/Br_Machine_Props.thy ===== *)
theory Br_Machine_Props
  imports Br_Machine_Steps Br_Ctl_Props Br_Stp_Off
begin

text \<open>
  The properties of the machine as a whole: bridges, devices, drivers and the control utility together. A
  run of the utility is at most one step of the machine, every step keeps the machine well formed, devices
  that leave are gone from every bridge, and the registration of devices gives names and indices that are free.
\<close>

section \<open>The control utility as a part of the machine\<close>

lemma strncmp_c_str:
  "strncmp s t n = 0 \<Longrightarrow> length s < n \<Longrightarrow> length t < n \<Longrightarrow> c_str s = c_str t"
proof (induction s t n rule: strncmp.induct)
  case (2 s t n)
  show ?case
  proof (cases s; cases t)
    fix a s' b t' assume st: "s = a # s'" "t = b # t'"
    then have "a = b" using 2(2) by (auto split: if_splits)
    then show ?thesis using 2 st by (auto simp: c_str_def of_char_eq_0_iff split: if_splits)
  qed (use 2 in \<open>auto simp: c_str_def of_char_eq_0_iff split: if_splits\<close>)
qed simp

lemma strcmp_c_str: "strcmp s t = 0 \<Longrightarrow> c_str s = c_str t"
  unfolding strcmp_def by (erule strncmp_c_str) simp_all

lemma c_str_take: "c_str (take n s) = take n (c_str s)"
  unfolding c_str_def by (induction s arbitrary: n) (simp_all add: take_Cons' )

text \<open>The bridge a command finds by its name is the one the kernel finds.\<close>

lemma found_bridge_ctl:
  assumes "br_find_bridge name bl = Some lb"
  shows "ctl_bridge env (take IFNAMSIZ (lb_ifname lb)) h = ctl_bridge env name h"
proof -
  have "c_str (lb_ifname lb) = c_str name" using assms by (intro strcmp_c_str) (auto simp: br_find_bridge_def find_Some_iff)
  then have "ifr_name (take IFNAMSIZ (lb_ifname lb)) = ifr_name name"
    by (simp add: ifr_name_def c_str_take IFNAMSIZ_def min_def)
  then show ?thesis by (simp add: ctl_bridge_def)
qed

lemma bridge_call_step:
  assumes "\<And>br. ctl_bridge env name h = Some br \<Longrightarrow> port_request_ok cmd (unat a0) br h"
  shows "machine_step (g, h) (g, snd (snd (sys_dev_ioctl env name cmd a0 a1 a2 f h)))"
  using ms_bridge_call [OF _ assms, where f = f] by (metis prod.collapse)

lemma module_call_step:
  assumes "bridge_name_ok cmd name" "cmd = BRCTL_ADD_BRIDGE \<Longrightarrow> next_ifindex h c = Some (he_new_ifindex env)"
  shows "machine_step (g, h) (g, snd (snd (sys_br_ioctl env cmd a0 a1 name h)))"
  using ms_module_call [OF _ assms] by (metis prod.collapse)

lemma snd_request: "snd (request r) = snd (snd r)"
  by (simp add: request_def case_prod_beta)

text \<open>
  What the user has to respect: the name of a new bridge is neither a pattern nor empty and is
  left as it is, a bridge is not made a port, no port is added on a machine with 255 devices, and a device is removed
  from its own bridge.
\<close>

definition command_guard :: "s32 \<Rightarrow> ctl_env \<Rightarrow> string \<Rightarrow> string list \<Rightarrow> br_host \<Rightarrow> bool" where
  "command_guard counter e cmd args h \<longleftrightarrow>
     (\<forall>n. cmd = ''addbr'' \<and> args = [n] \<longrightarrow>
        bridge_name_ok BRCTL_ADD_BRIDGE (Some n) \<and> next_ifindex h counter = Some (he_new_ifindex (ce_host e)))
     \<and> (\<forall>b d br. cmd = ''addif'' \<and> args = [b, d] \<and> ctl_bridge (ce_host e) b h = Some br \<longrightarrow>
          port_request_ok BRCTL_ADD_IF (unat (of_nat (if_nametoindex d h) :: u32)) br h)
     \<and> (\<forall>b d br. cmd = ''delif'' \<and> args = [b, d] \<and> ctl_bridge (ce_host e) b h = Some br \<longrightarrow>
          port_request_ok BRCTL_DEL_IF (unat (of_nat (if_nametoindex d h) :: u32)) br h)"

text \<open>The calls of the library that a command may end in.\<close>

definition at_most_a_step :: "br_host \<Rightarrow> br_host \<Rightarrow> bool" where
  "at_most_a_step h h' \<longleftrightarrow> h' = h \<or> (\<forall>g. machine_step (g, h) (g, h'))"

lemma at_most_refl [simp]: "at_most_a_step h h"
  by (simp add: at_most_a_step_def)

lemma at_most_device:
  "cmd \<noteq> BRCTL_ADD_IF \<Longrightarrow> cmd \<noteq> BRCTL_DEL_IF \<Longrightarrow>
     at_most_a_step h (snd (request (br_device_ioctl env lb cmd a0 a1 a2 f h)))"
  by (simp add: at_most_a_step_def snd_request br_device_ioctl_def bridge_call_step port_request_ok_def)

lemma at_most_port:
  assumes "br_find_bridge name bl = Some lb" "\<And>br. ctl_bridge env name h = Some br \<Longrightarrow> port_request_ok cmd (unat (of_nat i :: u32)) br h"
  shows "at_most_a_step h (snd (request (br_device_ioctl env lb cmd (of_nat i) 0 0 None h)))"
  unfolding at_most_a_step_def snd_request br_device_ioctl_def
  by (intro disjI2 allI bridge_call_step) (use assms(2) found_bridge_ctl [OF assms(1)] in simp)

lemma at_most_add_bridge:
  assumes "bridge_name_ok BRCTL_ADD_BRIDGE (Some n)" "next_ifindex h counter = Some (he_new_ifindex env)"
  shows "at_most_a_step h (snd (lib_br_add_bridge env n h))"
proof -
  have "bridge_name_ok BRCTL_ADD_BRIDGE (Some (take IFNAMSIZ n))"
    using assms(1) by (simp add: bridge_name_ok_def min_def del: One_nat_def)
  then show ?thesis
    using module_call_step [OF _ assms(2)] by (simp add: at_most_a_step_def lib_br_add_bridge_def lib_br_ioctl_def snd_request)
qed

lemma at_most_del_bridge: "at_most_a_step h (snd (lib_br_del_bridge env n h))"
  using module_call_step [of BRCTL_DEL_BRIDGE]
  by (simp add: at_most_a_step_def lib_br_del_bridge_def lib_br_ioctl_def snd_request bridge_name_ok_def)

lemma at_most_finish:
  assumes "at_most_a_step (kern p) (snd r)" "\<And>err p. kern (report err p) = kern p"
  shows "at_most_a_step (kern p) (kern (snd (finish r report p)))"
  using assms by (cases r) (auto simp: finish_def)

lemma at_most_ignore: "at_most_a_step (kern p) (snd r) \<Longrightarrow> at_most_a_step (kern p) (kern (snd (ignore r p)))"
  by (simp add: ignore_def)

lemma at_most_fill_filter:
  assumes "\<And>m. at_most_a_step (kern p) (snd (final m))"
  shows "at_most_a_step (kern p) (kern (snd (fill_filter e a0 a1 a2 a3 final p)))"
  using assms by (simp add: fill_filter_def Let_def case_prod_beta split: filter_parse.split)

lemmas set_defs = br_set_ageing_time_def br_set_bridge_priority_def br_set_bridge_forward_delay_def br_set_gc_interval_def
  br_set_bridge_hello_time_def br_set_bridge_max_age_def br_set_path_cost_def br_set_port_priority_def br_set_stp_state_def
  br_set_filter_state_def br_set_filter_entry_def lib_br_del_filter_entry_def lib_br_flush_filter_def

lemma at_most_set_commands:
  "at_most_a_step (kern p) (kern (snd (br_cmd_setageing e lb a p)))"
  "at_most_a_step (kern p) (kern (snd (br_cmd_setbridgeprio e lb a p)))"
  "at_most_a_step (kern p) (kern (snd (br_cmd_setfd e lb a p)))"
  "at_most_a_step (kern p) (kern (snd (br_cmd_setgcint e lb a p)))"
  "at_most_a_step (kern p) (kern (snd (br_cmd_sethello e lb a p)))"
  "at_most_a_step (kern p) (kern (snd (br_cmd_setmaxage e lb a p)))"
  "at_most_a_step (kern p) (kern (snd (br_cmd_setpathcost e lb a b p)))"
  "at_most_a_step (kern p) (kern (snd (br_cmd_setportprio e lb a b p)))"
  "at_most_a_step (kern p) (kern (snd (br_cmd_stp e lb a p)))"
  "at_most_a_step (kern p) (kern (snd (br_cmd_setfilter e lb a p)))"
  unfolding br_cmd_setageing_def br_cmd_setbridgeprio_def br_cmd_setfd_def br_cmd_setgcint_def br_cmd_sethello_def
    br_cmd_setmaxage_def br_cmd_setpathcost_def br_cmd_setportprio_def br_cmd_stp_def br_cmd_setfilter_def set_defs
  by (auto intro!: at_most_ignore at_most_device split: option.split)

lemma at_most_filter_commands:
  "at_most_a_step (kern p) (kern (snd (br_cmd_addfilter e lb a b c d p)))"
  "at_most_a_step (kern p) (kern (snd (br_cmd_delfilter e lb a b c d p)))"
  "at_most_a_step (kern p) (kern (snd (br_cmd_flushfilter e lb p)))"
  "at_most_a_step (kern p) (kern (snd (br_cmd_showfilter e lb p)))"
proof -
  show "at_most_a_step (kern p) (kern (snd (br_cmd_addfilter e lb a b c d p)))"
    "at_most_a_step (kern p) (kern (snd (br_cmd_delfilter e lb a b c d p)))"
    unfolding br_cmd_addfilter_def br_cmd_delfilter_def set_defs by (rule at_most_fill_filter, rule at_most_device, simp_all)+
  show "at_most_a_step (kern p) (kern (snd (br_cmd_flushfilter e lb p)))"
    using at_most_device [of BRCTL_FLUSH_FILTER_ENTERIES "kern p" "ce_host e" lb 0 0 0 None]
    by (simp add: br_cmd_flushfilter_def set_defs case_prod_beta)
  show "at_most_a_step (kern p) (kern (snd (br_cmd_showfilter e lb p)))"
    using at_most_device [of BRCTL_SHOW_FILTER_ENTERIES "kern p" "ce_host e" lb 0 20 0 None]
    by (simp add: br_cmd_showfilter_def br_show_filter_def Let_def case_prod_beta snd_request)
qed

lemma at_most_bridge_commands:
  "command_guard counter e ''addbr'' [n] (kern p) \<Longrightarrow> at_most_a_step (kern p) (kern (snd (br_cmd_addbr e n p)))"
  "at_most_a_step (kern p) (kern (snd (br_cmd_delbr e n p)))"
  unfolding br_cmd_addbr_def br_cmd_delbr_def
  by (auto intro!: at_most_finish at_most_add_bridge at_most_del_bridge simp: command_guard_def)

lemma at_most_port_commands:
  assumes "br_find_bridge b bl = Some lb"
  shows "command_guard counter e ''addif'' [b, d] (kern p) \<Longrightarrow> at_most_a_step (kern p) (kern (snd (br_cmd_addif e lb d p)))"
    "command_guard counter e ''delif'' [b, d] (kern p) \<Longrightarrow> at_most_a_step (kern p) (kern (snd (br_cmd_delif e lb d p)))"
  unfolding br_cmd_addif_def br_cmd_delif_def br_add_interface_def br_del_interface_def
  by (auto intro!: at_most_finish at_most_port [OF assms] simp: command_guard_def Let_def)

text \<open>How a command is run: not at all, or with as many arguments as it takes.\<close>

lemma run_command_cases:
  assumes "run_command e c args p = Some (r, p')"
  obtains (refused) "kern p' = kern p"
    | (plain) f where "func c = No_bridge f" "length args = num_string_arguments c" "p' = snd (f e args p)"
    | (bridge) f b args' lb where "func c = On_bridge f" "args = b # args'" "length args' = num_string_arguments c"
        "br_find_bridge b (bridge_list p) = Some lb" "p' = snd (f e lb args' p)"
    | (loop) f lb where "func c = On_bridge_loop f" "f e lb p = Some (r, p')"
  using assms
  by (cases "func c") (auto simp: run_command_def Let_def split: list.splits option.splits if_splits)

lemma at_most_run:
  assumes "c \<in> set commands" "command_guard counter e (command_name c) args (kern p)" "run_command e c args p = Some (r, p')"
  shows "at_most_a_step (kern p) (kern p')"
proof (cases rule: run_command_cases [OF assms(3)])
  case 1
  then show ?thesis by simp
next
  case (2 f)
  have "(f = (\<lambda>e a. br_cmd_addbr e (a ! 0)) \<and> command_name c = ''addbr'' \<and> num_string_arguments c = 1)
    \<or> f = (\<lambda>e a. br_cmd_delbr e (a ! 0)) \<or> f = (\<lambda>e a. br_cmd_show)"
    using assms(1) 2(1) unfolding commands_def by (auto simp: command_entry_def)
  then show ?thesis
  proof (elim disjE conjE)
    assume f: "f = (\<lambda>e a. br_cmd_addbr e (a ! 0))" "command_name c = ''addbr''" "num_string_arguments c = 1"
    then have "args = [args ! 0]" using 2(2) by (cases args) simp_all
    then show ?thesis using at_most_bridge_commands(1) [of counter e "args ! 0" p] assms(2) 2(3) f(1,2) by simp
  qed (use 2(3) at_most_bridge_commands(2) in \<open>simp_all add: br_cmd_show_def\<close>)
next
  case (3 f b args' lb)
  note ifs = at_most_port_commands [OF 3(4)]
  from assms(1) 3(1) consider (add) "f = (\<lambda>e br a. br_cmd_addif e br (a ! 0))" "command_name c = ''addif''" "num_string_arguments c = 1"
    | (del) "f = (\<lambda>e br a. br_cmd_delif e br (a ! 0))" "command_name c = ''delif''" "num_string_arguments c = 1"
    | (other) "at_most_a_step (kern p) (kern (snd (f e lb args' p)))"
    unfolding commands_def
    by (auto simp: command_entry_def at_most_set_commands at_most_filter_commands br_cmd_showstp_def)
  then show ?thesis
  proof cases
    case add
    then have "args' = [args' ! 0]" using 3(3) by (cases args') simp_all
    then show ?thesis using ifs(1) [of counter e "args' ! 0" p] assms(2) 3(2,5) add(1,2) by metis
  next
    case del
    then have "args' = [args' ! 0]" using 3(3) by (cases args') simp_all
    then show ?thesis using ifs(2) [of counter e "args' ! 0" p] assms(2) 3(2,5) del(1,2) by metis
  qed (use 3(5) in simp)
next
  case (4 f lb)
  then have "f = br_cmd_showmacs" using assms(1) unfolding commands_def by (auto simp: command_entry_def)
  then have "kern p' = kern p" using 4(2) showmacs_loop_reads by (auto simp: br_cmd_showmacs_def)
  then show ?thesis by simp
qed


section \<open>The machine stays well formed\<close>

definition demo_boot :: br_host where
  "demo_boot = \<lparr>host_bridges = [], host_devs = [(demo_dev 2)\<lparr>dev_br_port := No_port\<rparr>]\<rparr>"

lemma demo_boot_ok: "boot_ok demo_boot"
  by (simp add: boot_ok_def demo_boot_def names_ok_def demo_dev_def good_name_def IFNAMSIZ_def)

lemma demo_boot_index: "next_ifindex demo_boot 8 = Some (he_new_ifindex demo_env)"
  by (simp add: next_ifindex_def dev_new_index.simps [of _ 8] dev_get_by_index_def all_devs_def demo_boot_def demo_dev_def demo_env_def)

lemma machine_ok_expand:
  assumes "machine_ok h"
  shows "(\<forall>br\<in>set (host_bridges h). \<not> oopsed br \<and> distinct (port_nos br) \<and> fdb_ports br \<and> root_ok br
      \<and> (\<forall>p\<in>set (port_list br). dev_br_port (p_dev p) = Port (port_no p) \<and> dev_get_by_index (ifindex (p_dev p)) h \<noteq> None))
    \<and> distinct (map (\<lambda>p. ifindex (p_dev p)) (all_ports h))
    \<and> distinct (map ifindex (all_devs h)) \<and> distinct (map dev_name (all_devs h))"
proof (intro conjI ballI)
  note ok = machine_host_ok [OF assms]
  show "distinct (map (\<lambda>p. ifindex (p_dev p)) (all_ports h))"
    using shape_okD(3) [OF machine_okD(2) [OF assms]] by (simp add: key_idx_shape)
  show "distinct (map ifindex (all_devs h))" "distinct (map dev_name (all_devs h))" using ok by (simp_all add: host_ok_def)
  fix br assume br: "br \<in> set (host_bridges h)"
  show "\<not> oopsed br" "distinct (port_nos br)" "fdb_ports br" "root_ok br" using bridge_invD [OF machine_okD(1) [OF assms br]] by simp_all
  fix p assume p: "p \<in> set (port_list br)"
  show "dev_br_port (p_dev p) = Port (port_no p)" by (rule machine_bridge(3) [OF assms br p])
  have "ifindex (p_dev p) \<in> ifindex ` set (all_devs h)" using ok br p by (simp add: host_ok_def)
  then show "dev_get_by_index (ifindex (p_dev p)) h \<noteq> None" by (auto simp: dev_get_by_index_def find_None_iff)
qed

text \<open>C2: From a start with uniquely named devices and no bridges, whatever happens to the machine (frames received
and sent, ticks, protocol messages, control calls on bridges and on the module, requests on
devices, devices that come and go, and writes to the module's files), no bad pointer is followed in any bridge, every port's device
points back to the port and is on the list of devices, no device is on two ports, every bridge keeps its own invariants,
and the names and indices of devices stay unique. The steps leave out bridges as ports, ports added
on a machine with 255 devices, devices removed from a bridge they are not on, names that are patterns or
have a colon, and the tick at which a notification is due on the root bridge.\<close>

theorem machine_stays_well_formed:
  assumes "boot_ok h0" "machine_step\<^sup>*\<^sup>* (g0, h0) (g, h)"
  shows "(\<forall>br\<in>set (host_bridges h). \<not> oopsed br \<and> distinct (port_nos br) \<and> fdb_ports br \<and> root_ok br
      \<and> (\<forall>p\<in>set (port_list br). dev_br_port (p_dev p) = Port (port_no p) \<and> dev_get_by_index (ifindex (p_dev p)) h \<noteq> None))
    \<and> distinct (map (\<lambda>p. ifindex (p_dev p)) (all_ports h))
    \<and> distinct (map ifindex (all_devs h)) \<and> distinct (map dev_name (all_devs h))"
  by (rule machine_ok_expand) (use machine_ok_reachable [OF assms(2)] machine_ok_boot [OF assms(1)] in simp)

theorem machine_stays_well_formed_witness:
  "distinct (map dev_name (all_devs (snd (snd (sys_br_ioctl demo_env BRCTL_ADD_BRIDGE 0 0 (Some ''br0'') demo_boot)))))"
proof -
  have "machine_step (demo_empty_globals, demo_boot)
      (demo_empty_globals, snd (snd (sys_br_ioctl demo_env BRCTL_ADD_BRIDGE 0 0 (Some ''br0'') demo_boot)))"
    by (rule module_call_step [OF _ demo_boot_index]) (simp add: bridge_name_ok_def good_name_def plain_name_def IFNAMSIZ_def)
  from machine_stays_well_formed [OF demo_boot_ok r_into_rtranclp, OF this] show ?thesis by blast
qed

section \<open>Runs of the control utility\<close>

text \<open>C3: A run of brctl is at most one step of the machine: it leaves the machine as it is or does one control call, so
that a well formed machine stays well formed, whatever the arguments. For addbr, addif and delif the
user has to respect what the steps of the machine leave out.\<close>

theorem brctl_run_is_step:
  assumes "machine_ok h" "brctl_main e argv h = Some (r, p)"
    "\<And>c. 2 \<le> length argv \<Longrightarrow> br_command_lookup (argv ! 1) = Some c \<Longrightarrow> command_guard counter e (command_name c) (drop 2 argv) h"
  shows "(kern p = h \<or> machine_step (g, h) (g, kern p)) \<and> machine_ok (kern p)"
proof -
  have in_table: "c \<in> set commands" if "br_command_lookup (argv ! 1) = Some c" for c
    using that by (auto simp: br_command_lookup_def find_Some_iff)
  have "at_most_a_step h (kern p)"
  proof (cases "br_init (ce_stack e) (ce_host e) h")
    case None
    then show ?thesis using assms(2) by (auto simp: brctl_main_def)
  next
    case (Some i)
    then obtain err bl where i: "br_init (ce_stack e) (ce_host e) h = Some (err, bl, h)"
      using br_init_reads by (cases i) blast
    define q where "q = \<lparr>out_text = [], err_text = [], bridge_list = (case bl of Some bl \<Rightarrow> bl | None \<Rightarrow> []), kern = h\<rparr>"
    show ?thesis
    proof (cases "2 \<le> length argv \<and> br_command_lookup (argv ! 1) \<noteq> None")
      case True
      then obtain c where c: "br_command_lookup (argv ! 1) = Some c" by blast
      then have "run_command e c (drop 2 argv) q = Some (r, p)"
        using assms(2) i True by (simp add: brctl_main_def q_def)
      then show ?thesis
        using at_most_run [OF in_table [OF c], of counter e "drop 2 argv" q] assms(3) [OF _ c] True by (simp add: q_def)
    next
      case False
      then have "kern p = h" using assms(2) i
        by (auto simp: brctl_main_def brctl_help_def Let_def not_le simp del: One_nat_def split: if_splits)
      then show ?thesis by simp
    qed
  qed
  then show ?thesis using assms(1) machine_ok_step [of "(g, h)" "(g, kern p)"] by (auto simp: at_most_a_step_def)
qed


theorem brctl_run_is_step_witness:
  "\<exists>r p. brctl_main demo_ctl [''brctl'', ''addbr'', ''br0''] demo_boot = Some (r, p) \<and> machine_ok (kern p)"
proof -
  have ok: "machine_ok demo_boot" by (rule machine_ok_boot [OF demo_boot_ok])
  have "brctl_main demo_ctl [''brctl'', ''addbr'', ''br0''] demo_boot = Some (br_cmd_addbr demo_ctl ''br0'' (started demo_env demo_boot))"
    using brctl_no_bridge [OF machine_host_ok [OF ok] _ _ add_in_table(1), of demo_ctl "\<lambda>e a. br_cmd_addbr e (a ! 0)" "[''br0'']" "''brctl''"]
    by (simp add: command_entry_def demo_boot_def)
  then obtain r p where run: "brctl_main demo_ctl [''brctl'', ''addbr'', ''br0''] demo_boot = Some (r, p)" by (metis prod.collapse)
  have "command_guard 8 demo_ctl (command_name c) (drop 2 [''brctl'', ''addbr'', ''br0'']) demo_boot"
    if "br_command_lookup ([''brctl'', ''addbr'', ''br0''] ! 1) = Some c" for c
    using lookup_command [OF add_in_table(1)] that demo_boot_index
    by (simp add: command_entry_def command_guard_def bridge_name_ok_def good_name_def plain_name_def IFNAMSIZ_def)
  then show ?thesis using brctl_run_is_step [OF ok run, where counter = 8] run by blast
qed

section \<open>Requests on devices\<close>

text \<open>C6: On a well formed machine no request on a device follows a dangling pointer: the
request returns, with the machine still well formed.\<close>

theorem device_requests_safe:
  assumes "machine_ok h" "request_ok req"
  shows "\<exists>ret ans h'. dev_ioctl env drv name req h = Some (ret, ans, h') \<and> machine_ok h'"
  by (rule machine_ok_if_request [OF assms])

definition demo_drivers :: drivers where
  "demo_drivers = \<lparr>drv_open = (\<lambda>_. 0), drv_set_mac = (\<lambda>_ _. 0), drv_change_mtu = (\<lambda>_ _. 0)\<rparr>"

theorem device_requests_safe_witness:
  "\<exists>ret ans h'. dev_ioctl demo_env demo_drivers ''eth'' (SIOCSIFFLAGS False False) demo_boot = Some (ret, ans, h') \<and> machine_ok h'"
  by (rule device_requests_safe [OF machine_ok_boot [OF demo_boot_ok]]) (simp add: request_ok_def)

text \<open>C5: A device that is unregistered is gone from the machine: the call returns 0, no bridge has a port with it any
more, the list of devices does not have it, and the machine is still well formed.\<close>

theorem unregistered_device_gone:
  assumes "machine_ok h" "dev_now i h = Some dev" "bridge_of_dev i h = None"
  shows "\<exists>h'. unregister_netdevice env dev h = Some (0, h') \<and> machine_ok h'
    \<and> (\<forall>br\<in>set (host_bridges h'). port_of_dev i br = None) \<and> (\<forall>d\<in>set (host_devs h'). ifindex d \<noteq> i)"
proof -
  obtain h' where "unregister_netdevice env dev h = Some (0, h')" "machine_ok h'" "i \<notin> set (port_idx h')"
    "\<forall>d\<in>set (host_devs h'). ifindex d \<noteq> i"
    using machine_ok_unregister [OF assms(1,2)] by blast
  then show ?thesis by (auto simp: port_idx_ports port_of_dev_None all_ports_def)
qed


definition demo_machine :: br_host where
  "demo_machine =
     demo_host\<lparr>host_devs := [demo_dev 2, (demo_dev 3)\<lparr>dev_name := ''eth1'', dev_br_port := No_port\<rparr>]\<rparr>"

lemma demo_machine_ok: "machine_ok demo_machine"
proof -
  have "bridge_inv (host_bridges demo_machine ! 0)"
    by (simp add: bridge_inv_def demo_machine_def demo_host_def demo_defs root_ok_def fdb_hashed_def fdb_ports_def fdb_all_def empty_mfd_def)
  moreover have "host_bridges demo_machine = [host_bridges demo_machine ! 0]" by (simp add: demo_machine_def demo_host_def)
  ultimately have "list_all bridge_inv (host_bridges demo_machine)" by (metis list.pred_inject)
  moreover have "shape_ok (machine_shape demo_machine) (host_devs demo_machine)"
    by (simp add: machine_shape_def demo_machine_def demo_host_def shape_ok_def names_ok_def key_devs_def bridge_key_def
        port_devs_def key_ok_def key_idx_def ident_def good_name_def demo_defs IFNAMSIZ_def)
  ultimately show ?thesis by (simp add: machine_ok_def)
qed

theorem unregistered_device_gone_witness:
  "\<exists>h'. unregister_netdevice demo_env (demo_dev 2) demo_machine = Some (0, h')
    \<and> (\<forall>br\<in>set (host_bridges h'). port_of_dev 2 br = None)"
proof -
  have "dev_now 2 demo_machine = Some (demo_dev 2)" "bridge_of_dev 2 demo_machine = None"
    by (simp_all add: dev_now_def all_ports_def bridge_of_dev_def demo_machine_def demo_host_def demo_defs)
  from unregistered_device_gone [OF demo_machine_ok this, of demo_env] show ?thesis by blast
qed

section \<open>Names and indices\<close>

text \<open>C31: The search for the index of a new device ends whenever a positive index is free, from any value of the
counter and across its wrap, with a positive index that no device has.\<close>

theorem new_index_found:
  assumes "\<not> used j" "0 < j" "j < 2 ^ 31"
  shows "\<exists>i. dev_new_index used counter = Some i \<and> 0 < sint i \<and> \<not> used (unat i)"
  using dev_new_index_returns [of used j counter, OF assms] dev_new_index_fresh [of used counter] by blast

theorem new_index_found_witness:
  "\<exists>i. dev_new_index (\<lambda>i. i = 1) 0x7FFFFFFF = Some i \<and> 0 < sint i \<and> unat i \<noteq> 1"
  using new_index_found [of "\<lambda>i. i = 1" 2 "0x7FFFFFFF"] by simp

text \<open>C32: A pattern with one %d, of at most 15 characters, is turned into the name with the least number below 100 that no
device has, which fits the field of the name; when all are taken the call fails with
-ENFILE and the device keeps its name.\<close>

theorem pattern_first_free_name:
  assumes "name = pre @ ''%d'' @ post" "CHR ''%'' \<notin> set pre" "CHR ''%'' \<notin> set post" "length name < IFNAMSIZ"
  shows "if \<forall>i<100. taken (pre @ fmt_i 0 1 (int i) @ post) then dev_alloc_name taken name dev = (- ENFILE, dev)
    else \<exists>i<100. \<not> taken (pre @ fmt_i 0 1 (int i) @ post) \<and> (\<forall>j<i. taken (pre @ fmt_i 0 1 (int j) @ post))
      \<and> dev_alloc_name taken name dev = (int i, dev\<lparr>dev_name := pre @ fmt_i 0 1 (int i) @ post\<rparr>)
      \<and> length (pre @ fmt_i 0 1 (int i) @ post) < IFNAMSIZ"
proof -
  have plain: "expand_d i s = s" if "CHR ''%'' \<notin> set s" for i s using that by (induction s) auto
  have "expand_d i (pre @ ''%d'' @ post) = pre @ fmt_i 0 1 (int i) @ post" for i
    using assms(2) by (induction pre) (auto simp: plain [OF assms(3)])
  then have eq: "expand_d i name = pre @ fmt_i 0 1 (int i) @ post" for i using assms(1) by simp
  have len: "length (pre @ fmt_i 0 1 (int i) @ post) < IFNAMSIZ" if "i < 100" for i
    using length_expand_d [OF that, of name] assms(4) eq by simp
  have sn: "snprintf_d 32 name i = pre @ fmt_i 0 1 (int i) @ post" if "i < 100" for i
    using len [OF that] eq by (simp add: snprintf_d_def IFNAMSIZ_def)
  have find: "find (\<lambda>i. \<not> taken (snprintf_d 32 name i)) [0..<100] = find (\<lambda>i. \<not> taken (pre @ fmt_i 0 1 (int i) @ post)) [0..<100]"
    by (rule find_cong) (simp_all add: sn)
  have "dropWhile (\<lambda>c. c \<noteq> CHR ''%'') name = ''%d'' @ post"
    using assms(1,2) by (simp add: dropWhile_append)
  then have "dev_alloc_name taken name dev = (case find (\<lambda>i. \<not> taken (pre @ fmt_i 0 1 (int i) @ post)) [0..<100] of
      Some i \<Rightarrow> (int i, dev\<lparr>dev_name := snprintf_d 32 name i\<rparr>) | None \<Rightarrow> (- ENFILE, dev))"
    using assms(3) by (simp add: dev_alloc_name_def Let_def find)
  note alloc = this
  show ?thesis
  proof (cases "find (\<lambda>i. \<not> taken (pre @ fmt_i 0 1 (int i) @ post)) [0..<100]")
    case None
    then have "\<forall>i<100. taken (pre @ fmt_i 0 1 (int i) @ post)" by (simp add: find_None_iff)
    then show ?thesis using alloc None by simp
  next
    case (Some i)
    then have i: "i < 100" "\<not> taken (pre @ fmt_i 0 1 (int i) @ post)" "\<forall>j<i. taken (pre @ fmt_i 0 1 (int j) @ post)"
      by (auto simp: find_Some_iff)
    have "dev_alloc_name taken name dev = (int i, dev\<lparr>dev_name := pre @ fmt_i 0 1 (int i) @ post\<rparr>)"
      unfolding alloc Some by (simp add: sn [OF i(1)])
    then show ?thesis using i len [OF i(1)] by auto
  qed
qed

theorem pattern_first_free_name_witness:
  "dev_alloc_name (\<lambda>s. s = ''br0'') ''br%d'' (demo_dev 2) = (1, (demo_dev 2)\<lparr>dev_name := ''br1''\<rparr>)"
proof -
  have n: "fmt_i 0 1 0 = ''0''" "fmt_i 0 1 1 = ''1''" by code_simp+
  then have free: "\<not> (\<forall>i<100. ''br'' @ fmt_i 0 1 (int i) @ [] = ''br0'')" by (auto intro!: exI [of _ 1])
  then obtain i where i: "''br'' @ fmt_i 0 1 (int i) @ [] \<noteq> ''br0''" "\<forall>j<i. ''br'' @ fmt_i 0 1 (int j) @ [] = ''br0''"
    "dev_alloc_name (\<lambda>s. s = ''br0'') ''br%d'' (demo_dev 2) = (int i, (demo_dev 2)\<lparr>dev_name := ''br'' @ fmt_i 0 1 (int i) @ []\<rparr>)"
    using pattern_first_free_name [of "''br%d''" "''br''" "[]" "\<lambda>s. s = ''br0''" "demo_dev 2"]
    unfolding if_not_P [OF free] by (auto simp: IFNAMSIZ_def)
  have "i \<noteq> 0" using i(1) n(1) by (cases i) simp_all
  moreover have "\<not> 1 < i" using i(2) n(2) by (auto dest!: spec [of _ 1])
  ultimately have "i = 1" by simp
  then show ?thesis using i(3) n(2) by simp
qed

text \<open>C33: The result of the registration of a new bridge's device is ignored: addbr with a name that has a percent
sign not followed by d exits with 0 and prints nothing, and the machine has one more bridge, but the list of
devices is as before and every request on the bridge of that name is answered with -ENODEV.\<close>

theorem addbr_without_device:
  assumes "host_ok h" "he_capable (ce_host e)" "he_mem_ok (ce_host e)" "length (host_bridges h) \<le> 32" "good_name n"
    "n \<notin> dev_name ` set (all_devs h)" "n = pre @ CHR ''%'' # rest" "CHR ''%'' \<notin> set pre" "rest = [] \<or> hd rest \<noteq> CHR ''d''"
  shows "\<exists>p br. brctl_main e [prog, ''addbr'', n] h = Some (Exit 0, p) \<and> out_text p = [] \<and> err_text p = []
    \<and> host_bridges (kern p) = br # host_bridges h \<and> dev_name (br_dev br) = n
    \<and> all_devs (kern p) = all_devs h \<and> fst (sys_dev_ioctl env n cmd a0 a1 a2 f (kern p)) = - ENODEV"
proof -
  let ?ex = "\<lambda>nm. dev_get_by_name nm h \<noteq> None"
  define nb where "nb = new_nb n (he_mem_later (ce_host e)) 0"
  define h' where "h' = h\<lparr>host_bridges := nb # host_bridges h\<rparr>"
  have dev: "dev_name (br_dev nb) = n" "\<not> dev_listed (br_dev nb)"
    using assms(5) by (simp_all add: nb_def new_nb_def Let_def br_mfd_init_def)
  have "dropWhile (\<lambda>c. c \<noteq> CHR ''%'') n = CHR ''%'' # rest"
    using assms(7,8) by (simp add: dropWhile_append)
  then have "dev_alloc_name ?ex n (br_dev nb) = (- EINVAL, br_dev nb)"
    using assms(9) by (cases rest) (auto simp: dev_alloc_name_def Let_def)
  then have "register_netdev ?ex (he_new_ifindex (ce_host e)) (br_dev nb) = (- EINVAL, br_dev nb)"
    using assms(7) dev(1) by (simp add: register_netdev_def EINVAL_def)
  then have "br_add_bridge ?ex True (he_mem_later (ce_host e)) (he_new_ifindex (ce_host e)) n (host_bridges h) = (0, nb # host_bridges h)"
    using dev_get_by_name_None [OF assms(1,5,6)] by (simp add: br_add_bridge_def Let_def nb_def)
  then have lib: "lib_br_add_bridge (ce_host e) n h = (0, h')"
    using assms(2,3,5) nobody_gone [OF gone_more [of nb h]]
    by (simp add: lib_br_add_bridge_def lib_br_ioctl_def sys_br_ioctl_def br_ioctl_deviceless_stub_def io_env_def request_def
        h'_def del: One_nat_def)
  have "brctl_main e [prog, ''addbr'', n] h = Some (br_cmd_addbr e n (started (ce_host e) h))"
    using brctl_no_bridge [OF assms(1,2,4) add_in_table(1), of "\<lambda>e a. br_cmd_addbr e (a ! 0)" "[n]" prog] by (simp add: command_entry_def)
  moreover have "br_cmd_addbr e n (started (ce_host e) h) = (Exit 0, (started (ce_host e) h)\<lparr>kern := h'\<rparr>)"
    using lib by (simp add: br_cmd_addbr_def finish_def started_def)
  moreover have devs: "all_devs h' = all_devs h" using dev(2) by (simp add: all_devs_def h'_def)
  moreover have "fst (sys_dev_ioctl env n cmd a0 a1 a2 f h') = - ENODEV"
  proof -
    have none: "strncmp (dev_name d) n IFNAMSIZ \<noteq> 0" if "d \<in> set (all_devs h)" for d
      using dev_get_by_name_None [OF assms(1,5,6)] that by (auto simp: dev_get_by_name_def find_None_iff)
    have "position (br_listed (ifr_name n)) (host_bridges h') = None"
      using assms(5,6) dev(2) host_dev(1) [OF assms(1)] bridge_dev [OF assms(1)]
      by (auto simp: position_None h'_def br_listed_def br_named_def)
    moreover have "find (\<lambda>d. strncmp (dev_name d) (ifr_name n) IFNAMSIZ = 0) (host_devs h') = None"
      using none assms(5) by (auto simp: find_None_iff h'_def all_devs_def)
    ultimately show ?thesis by (simp add: sys_dev_ioctl_def)
  qed
  ultimately show ?thesis using dev(1) by (simp add: started_def h'_def)
qed

theorem addbr_without_device_witness:
  "\<exists>p br. brctl_main demo_ctl [''brctl'', ''addbr'', ''br%''] demo_boot = Some (Exit 0, p)
    \<and> host_bridges (kern p) = [br] \<and> all_devs (kern p) = all_devs demo_boot"
proof -
  have prems: "host_ok demo_boot" "he_capable (ce_host demo_ctl)" "he_mem_ok (ce_host demo_ctl)"
    "length (host_bridges demo_boot) \<le> 32" "good_name ''br%''" "''br%'' \<notin> dev_name ` set (all_devs demo_boot)"
    by (simp_all add: machine_host_ok [OF machine_ok_boot [OF demo_boot_ok]])
       (simp_all add: demo_env_def demo_boot_def good_name_def IFNAMSIZ_def all_devs_def demo_dev_def)
  have "host_bridges demo_boot = []" by (simp add: demo_boot_def)
  moreover have "''br%'' = ''br'' @ CHR ''%'' # []" "CHR ''%'' \<notin> set ''br''" by simp_all
  ultimately show ?thesis
    using addbr_without_device [OF prems, of "''br''" "[]" "''brctl''"] by metis
qed


section \<open>A full bridge\<close>

lemma full_bridge_refuses:
  assumes "{1..<255} \<subseteq> set (port_nos br)" "mem br = []" "dev_br_port dev = No_port" "\<not> dev_loopback dev" "dev_ether dev"
  shows "br_add_if j dev br = (- EXFULL, dev\<lparr>dev_br_port := Dangling_port\<rparr>, br)"
proof -
  have "free_port_no br = None" using assms(1) by (simp add: free_port_no_None)
  then show ?thesis using assms(2-) by (simp add: br_add_if_def new_nbp_def Let_def alloc_frame(5))
qed

lemma find_map: "find P (map f xs) = map_option f (find (\<lambda>x. P (f x)) xs)"
  by (induction xs) simp_all

lemma put_dev_all_devs:
  assumes "bridge_of_dev (ifindex dev) h = None"
  shows "all_devs (put_dev dev h) = map (\<lambda>d. if ifindex d = ifindex dev then dev else d) (all_devs h)"
proof -
  let ?g = "\<lambda>br. if ifindex (br_dev br) = ifindex dev then br\<lparr>br_dev := port_fields dev (br_dev br)\<rparr> else br"
  have other: "ifindex (br_dev br) \<noteq> ifindex dev" if "br \<in> set (host_bridges h)" "dev_listed (br_dev br)" for br
    using assms that by (auto simp: bridge_of_dev_def position_None)
  have "filter (\<lambda>br. dev_listed (br_dev (?g br))) (host_bridges h) = filter (\<lambda>br. dev_listed (br_dev br)) (host_bridges h)"
    by (rule filter_cong) (simp_all add: port_fields_def)
  then have "filter (\<lambda>br. dev_listed (br_dev br)) (map ?g (host_bridges h)) = map ?g (filter (\<lambda>br. dev_listed (br_dev br)) (host_bridges h))"
    by (simp only: filter_map comp_def)
  also have "\<dots> = filter (\<lambda>br. dev_listed (br_dev br)) (host_bridges h)" using other by (auto intro!: map_idI)
  finally show ?thesis using other by (auto simp: all_devs_def put_dev_def)
qed

text \<open>The device after it has been put back, for a device that is found by its name and on no port.\<close>

lemma dangling_device_request:
  assumes "dev_get_by_name (ifr_name m) h = Some dev" "\<And>d. d \<in> set (all_devs h) \<Longrightarrow> ifindex d = ifindex dev \<Longrightarrow> d = dev"
    "bridge_of_dev (ifindex dev) h = None" "\<And>p. p \<in> set (all_ports h) \<Longrightarrow> ifindex (p_dev p) \<noteq> ifindex dev" "dev_up dev" "he_capable env"
  shows "dev_ioctl env drv m (SIOCSIFFLAGS False False) (put_dev (dev\<lparr>dev_br_port := Dangling_port\<rparr>) h) = None"
proof -
  let ?dev = "dev\<lparr>dev_br_port := Dangling_port\<rparr>" and ?f = "\<lambda>d. if ifindex d = ifindex dev then dev\<lparr>dev_br_port := Dangling_port\<rparr> else d"
  let ?h = "put_dev ?dev h"
  have dev: "dev \<in> set (all_devs h)" using assms(1) by (auto simp: dev_get_by_name_def find_Some_iff)
  have all: "all_devs ?h = map ?f (all_devs h)" using put_dev_all_devs [of ?dev h] assms(3) by simp
  have "find (\<lambda>d. strncmp (dev_name (?f d)) (ifr_name m) IFNAMSIZ = 0) (all_devs h) = Some dev"
    using assms(1,2) unfolding dev_get_by_name_def by (subst find_cong [OF refl, of "all_devs h"]) auto
  then have name: "dev_get_by_name (ifr_name m) ?h = Some ?dev" unfolding dev_get_by_name_def all find_map by simp
  have "find (\<lambda>d. ifindex (?f d) = ifindex dev) (all_devs h) = Some dev"
  proof (cases "find (\<lambda>d. ifindex (?f d) = ifindex dev) (all_devs h)")
    case (Some d)
    then have "d \<in> set (all_devs h)" "ifindex d = ifindex dev" by (auto simp: find_Some_iff split: if_splits)
    then show ?thesis using assms(2) Some by simp
  qed (use dev in \<open>auto simp: find_None_iff\<close>)
  then have idx: "dev_get_by_index (ifindex dev) ?h = Some ?dev" unfolding dev_get_by_index_def all find_map by simp
  have "all_ports ?h = all_ports h" by (simp add: all_ports_def put_dev_def comp_def if_distrib cong: if_cong)
  then have "find (\<lambda>p. ifindex (p_dev p) = ifindex dev) (all_ports ?h) = None" using assms(4) by (auto simp: find_None_iff)
  then have "dev_now (ifindex dev) ?h = Some ?dev" using idx by (simp add: dev_now_def)
  then show ?thesis
    using name assms(5,6) by (simp add: dev_ioctl_def dev_change_flags_def dev_close_def notify_def)
qed

text \<open>C34: A bridge with 254 ports refuses another device with -EXFULL, but has made the device point to the port
that it has freed again: taking the device down afterwards, which the kernel lets every device, follows the dangling pointer.\<close>

theorem full_bridge_device_crashes:
  assumes "ctl_bridge env n h = Some br" "{1..<255} \<subseteq> set (port_nos br)" "mem br = []"
    "dev_get_by_name (ifr_name m) h = Some dev" "\<And>d. d \<in> set (all_devs h) \<Longrightarrow> ifindex d = ifindex dev \<Longrightarrow> d = dev"
    "bridge_of_dev (ifindex dev) h = None" "\<And>p. p \<in> set (all_ports h) \<Longrightarrow> ifindex (p_dev p) \<noteq> ifindex dev"
    "dev_br_port dev = No_port" "dev_up dev" "\<not> dev_loopback dev" "dev_ether dev" "ifindex dev < 2 ^ 32"
  shows "\<exists>res h'. sys_dev_ioctl env n BRCTL_ADD_IF (of_nat (ifindex dev)) a1 a2 f h = (- EXFULL, res, h')
    \<and> dev_ioctl env drv m (SIOCSIFFLAGS False False) h' = None"
proof -
  let ?dev = "dev\<lparr>dev_br_port := Dangling_port\<rparr>"
  obtain k where k: "he_capable env" "position (br_listed (ifr_name n)) (host_bridges h) = Some k" "host_bridges h ! k = br"
    using assms(1) by (auto simp: ctl_bridge_def split: if_splits)
  have same: "h\<lparr>host_bridges := (host_bridges h)[k := br]\<rparr> = h" using k(3) by auto
  have dev: "dev \<in> set (all_devs h)" using assms(4) by (auto simp: dev_get_by_name_def find_Some_iff)
  have idx: "dev_get_by_index (ifindex dev) h = Some dev"
  proof (cases "dev_get_by_index (ifindex dev) h")
    case (Some d)
    then show ?thesis using assms(5) [of d] by (auto simp: dev_get_by_index_def find_Some_iff)
  qed (use dev in \<open>auto simp: dev_get_by_index_def find_None_iff\<close>)
  have "br \<in> set (host_bridges h)" using position_Some [OF k(2)] k(3) by auto
  then have "port_of_dev (ifindex dev) br = None"
    using assms(7) by (auto simp: port_of_dev_def find_None_iff all_ports_def)
  then have seen: "dev_seen h br dev = dev"
    using assms(7) by (fastforce simp: dev_seen_def all_ports_def)
  have "br_add_if (he_jiffies env) dev br = (- EXFULL, ?dev, br)"
    by (rule full_bridge_refuses [OF assms(2,3,8,10,11)])
  then have "br_dev_do_ioctl True (he_jiffies env) (io_env env h (dev_seen h br) None f) k True
      (Some (BRCTL_ADD_IF, of_nat (ifindex dev), a1, a2)) (host_bridges h) = (- EXFULL, Out_dev ?dev, (host_bridges h)[k := br])"
    using idx seen assms(12) k(3) by (simp add: br_dev_do_ioctl_def br_ioctl_def io_env_def Let_def unat_of_nat)
  then have "sys_dev_ioctl env n BRCTL_ADD_IF (of_nat (ifindex dev)) a1 a2 f h = (- EXFULL, Out_dev ?dev, put_dev ?dev h)"
    using k same by (simp add: sys_dev_ioctl_def put_back_def Let_def)
  then show ?thesis using dangling_device_request [OF assms(4-7,9) k(1), of drv] by blast
qed


definition demo_full :: br_host where
  "demo_full = \<lparr>host_bridges = [(demo_bridge (map (\<lambda>i. demo_port i BR_STATE_DISABLED) [1..<255]))
      \<lparr>br_dev := (br_dev (demo_bridge []))\<lparr>ifindex := 900, dev_listed := True\<rparr>\<rparr>],
    host_devs = [(demo_dev 300)\<lparr>dev_br_port := No_port\<rparr>]\<rparr>"

theorem full_bridge_device_crashes_witness:
  "\<exists>res h'. sys_dev_ioctl demo_env ''br0'' BRCTL_ADD_IF 300 0 0 None demo_full = (- EXFULL, res, h')
    \<and> dev_ioctl demo_env demo_drivers ''eth'' (SIOCSIFFLAGS False False) h' = None"
proof -
  let ?br = "(demo_bridge (map (\<lambda>i. demo_port i BR_STATE_DISABLED) [1..<255]))
      \<lparr>br_dev := (br_dev (demo_bridge []))\<lparr>ifindex := 900, dev_listed := True\<rparr>\<rparr>"
  let ?dev = "(demo_dev 300)\<lparr>dev_br_port := No_port\<rparr>"
  have name: "dev_name (br_dev ?br) = ''br0''" "ifindex (br_dev ?br) = 900" by (simp_all add: demo_defs IFNAMSIZ_def)
  have good: "good_name ''br0''" "good_name ''eth''" by (simp_all add: good_name_def IFNAMSIZ_def)
  have nos: "port_nos ?br = [1..<255]" by (simp add: demo_bridge_def demo_port_def port_nos_def raw_port_def comp_def)
  have devs: "all_devs demo_full = [br_dev ?br, ?dev]" by (simp add: all_devs_def demo_full_def)
  have ports: "set (all_ports demo_full) = (\<lambda>i. demo_port i BR_STATE_DISABLED) ` {1..<255}"
    by (simp add: all_ports_def demo_full_def demo_bridge_def)
  have "ctl_bridge demo_env ''br0'' demo_full = Some ?br"
    using good name(1) by (simp add: ctl_bridge_def demo_full_def br_listed_def br_named_def)
  moreover have "{1..<255} \<subseteq> set (port_nos ?br)" "mem ?br = []" by (simp_all only: nos) (simp_all add: demo_bridge_def new_nb_def Let_def br_mfd_init_def)
  moreover have "dev_get_by_name (ifr_name ''eth'') demo_full = Some ?dev"
    using good name(1) by (simp add: dev_get_by_name_def devs) (simp add: demo_dev_def)
  moreover have "d = ?dev" if "d \<in> set (all_devs demo_full)" "ifindex d = ifindex ?dev" for d
    using that name(2) by (auto simp: devs) (simp add: demo_dev_def)
  moreover have "bridge_of_dev (ifindex ?dev) demo_full = None"
    using name(2) by (simp add: bridge_of_dev_def demo_full_def) (simp add: demo_dev_def)
  moreover have "ifindex (p_dev p) \<noteq> ifindex ?dev" if "p \<in> set (all_ports demo_full)" for p
    using that by (auto simp: ports demo_port_def raw_port_def demo_dev_def)
  ultimately show ?thesis
    using full_bridge_device_crashes [of demo_env "''br0''" demo_full ?br "''eth''" ?dev 0 0 None demo_drivers]
    by (simp add: demo_dev_def)
qed


section \<open>A device goes down\<close>

lemma port_owner:
  assumes "distinct (map f (concat (map ps bs)))" "a \<in> set bs" "b \<in> set bs" "p \<in> set (ps a)" "q \<in> set (ps b)" "f p = f q"
  shows "a = b"
  using assms
proof (induction bs)
  case (Cons c bs)
  have new: "f x \<noteq> f y" if "x \<in> set (ps c)" "d \<in> set bs" "y \<in> set (ps d)" for x d y
  proof -
    have "f y \<in> f ` (\<Union>d\<in>set bs. set (ps d))" using that(2,3) by blast
    moreover have "f ` set (ps c) \<inter> f ` (\<Union>d\<in>set bs. set (ps d)) = {}" using Cons.prems(1) by simp
    ultimately show ?thesis using imageI [OF that(1), of f] by (metis disjoint_iff)
  qed
  show ?case
    using Cons.IH Cons.prems new [of p b q] new [of q a p] by auto
qed simp

lemma machine_port_owner:
  assumes "machine_ok h" "a \<in> set (host_bridges h)" "b \<in> set (host_bridges h)" "p \<in> set (port_list a)" "q \<in> set (port_list b)"
    "ifindex (p_dev p) = ifindex (p_dev q)"
  shows "a = b" "p = q"
proof -
  have d: "distinct (map (\<lambda>p. ifindex (p_dev p)) (concat (map port_list (host_bridges h))))"
    using shape_okD(3) [OF machine_okD(2) [OF assms(1)]] by (simp add: key_idx_shape all_ports_def)
  show "a = b" by (rule port_owner [OF d assms(2-6)])
  have "p \<in> set (concat (map port_list (host_bridges h)))" "q \<in> set (concat (map port_list (host_bridges h)))" using assms(2-5) by auto
  then show "p = q" using d assms(6) by (metis (mono_tags, lifting) distinct_map inj_onD)
qed

lemma dev_now_port:
  assumes "machine_ok h" "br \<in> set (host_bridges h)" "p \<in> set (port_list br)"
  shows "dev_now (ifindex (p_dev p)) h = Some (p_dev p)" "dev_get_by_name (dev_name (p_dev p)) h \<noteq> None"
    "dev_get_by_name (dev_name (p_dev p)) h = Some d \<Longrightarrow> ifindex d = ifindex (p_dev p)" "good_name (dev_name (p_dev p))"
proof -
  have d: "distinct (map (\<lambda>p. ifindex (p_dev p)) (all_ports h))"
    using shape_okD(3) [OF machine_okD(2) [OF assms(1)]] by (simp add: key_idx_shape)
  have "p \<in> set (all_ports h)" using assms(2,3) by (auto simp: all_ports_def)
  from find_key_in [OF d this] show "dev_now (ifindex (p_dev p)) h = Some (p_dev p)" by (simp add: dev_now_def)
  obtain e where e: "e \<in> set (host_devs h)" "ident e = ident (p_dev p)" using machine_bridge(4) [OF assms] by force
  then have "e \<in> set (all_devs h)" by (simp add: all_devs_def)
  note e' = host_dev [OF machine_host_ok [OF assms(1)] this]
  have "dev_get_by_name (dev_name (p_dev p)) h = Some e" "ifindex e = ifindex (p_dev p)" "good_name (dev_name (p_dev p))"
    using e'(1,4) e(2) by (simp_all add: ident_def)
  then show "dev_get_by_name (dev_name (p_dev p)) h \<noteq> None" "good_name (dev_name (p_dev p))"
    "dev_get_by_name (dev_name (p_dev p)) h = Some d \<Longrightarrow> ifindex d = ifindex (p_dev p)" by simp_all
qed


lemma going_down_ignored:
  assumes "machine_ok h"
  shows "notifier_call_chain j NETDEV_GOING_DOWN i (host_bridges h) = host_bridges h"
  unfolding notifier_call_chain_def
proof (rule map_idI)
  fix br assume br: "br \<in> set (host_bridges h)"
  have "br_device_event j NETDEV_GOING_DOWN (port_no q) br = br" if "port_of_dev i br = Some q" for q
  proof -
    have "q \<in> set (port_list br)" using port_of_dev_Some [OF that] by simp
    then have "br_get_port br (port_no q) = Some q"
      using find_key_in [of port_no "port_list br" q] bridge_invD(1) [OF machine_okD(1) [OF assms br]] by (simp add: br_get_port_def port_nos_def)
    then show ?thesis by (simp add: br_device_event_def deref_def)
  qed
  then show "(case port_of_dev i br of Some p \<Rightarrow> br_device_event j NETDEV_GOING_DOWN (port_no p) br | None \<Rightarrow> br) = br"
    by (simp split: option.split)
qed

text \<open>The port of a device that is down, on a bridge that is up, after the event.\<close>

lemma down_event_off:
  assumes "machine_ok h" "br \<in> set (host_bridges h)" "port_of_dev i br = Some q" "dev_up (br_dev br)"
    "p \<in> set (port_list (br_device_event j NETDEV_DOWN (port_no q) br))" "ifindex (p_dev p) = i"
  shows "p_state p = BR_STATE_DISABLED" "p_dev p = p_dev q"
proof -
  let ?b = "br_stp_disable_port j (port_no q) br"
  note q = port_of_dev_Some [OF assms(3)]
  note inv = machine_okD(1) [OF assms(1,2)]
  have "br_get_port br (port_no q) = Some q"
    using find_key_in [of port_no "port_list br" q] bridge_invD(1) [OF inv] q by (simp add: br_get_port_def port_nos_def)
  then have ev: "br_device_event j NETDEV_DOWN (port_no q) br = ?b" using assms(4) by (simp add: br_device_event_def deref_def)
  have key: "map port_no (port_list ?b) = map port_no (port_list br)" "map p_dev (port_list ?b) = map p_dev (port_list br)"
    using bridge_key_sound [OF sound_stp_disable_port [of br j "port_no q"]] by (simp_all add: bridge_key_def port_nos_def port_devs_def)
  obtain k where k: "k < length (port_list ?b)" "port_list ?b ! k = p" using assms(5) ev by (metis in_set_conv_nth)
  have len: "length (port_list ?b) = length (port_list br)" using arg_cong [OF key(1), of length] by simp
  have same: "port_no p = port_no (port_list br ! k)" "p_dev p = p_dev (port_list br ! k)"
    using arg_cong [OF key(1), of "\<lambda>xs. xs ! k"] arg_cong [OF key(2), of "\<lambda>xs. xs ! k"] k len by simp_all
  have "port_list br ! k = q"
    using machine_port_owner(2) [OF assms(1,2,2), of "port_list br ! k" q] k len q assms(6) same(2) by simp
  then show "p_dev p = p_dev q" "p_state p = BR_STATE_DISABLED"
    using same port_off_disable_port [of "port_no q" j br] assms(5) ev by (auto simp: port_off_def)
qed

lemma dev_close_port:
  assumes "machine_ok h" "br \<in> set (host_bridges h)" "p \<in> set (port_list br)" "dev_up (p_dev p)"
  shows "dev_close env (p_dev p) h = Some (0, (upd_dev (ifindex (p_dev p)) (\<lambda>d. d\<lparr>dev_up := False\<rparr>) h)
    \<lparr>host_bridges := notifier_call_chain (he_jiffies env) NETDEV_DOWN (ifindex (p_dev p))
       (host_bridges (upd_dev (ifindex (p_dev p)) (\<lambda>d. d\<lparr>dev_up := False\<rparr>) h))\<rparr>)"
proof -
  have "bridge_of_dev (ifindex (p_dev p)) h = None"
    using port_dev_no_bridge [OF assms(1-3)] by (auto simp: bridge_of_dev_def position_None)
  then show ?thesis
    using assms(4) machine_bridge(3) [OF assms(1-3)] going_down_ignored [OF assms(1)]
    by (simp add: dev_close_def notify_def)
qed


lemma close_disables_port:
  assumes "machine_ok h" "br \<in> set (host_bridges h)" "p \<in> set (port_list br)" "dev_up (br_dev br)" "dev_up (p_dev p)"
    "dev_close env (p_dev p) h = Some (0, h')" "q \<in> set (all_ports h')" "ifindex (p_dev q) = ifindex (p_dev p)"
  shows "p_state q = BR_STATE_DISABLED" "\<not> dev_up (p_dev q)"
proof -
  let ?i = "ifindex (p_dev p)"
  define h2 where "h2 = upd_dev ?i (\<lambda>d. d\<lparr>dev_up := False\<rparr>) h"
  have ok: "machine_ok h2" unfolding h2_def
    by (rule machine_ok_upd_dev [OF assms(1)]) (simp add: dev_attr_def ident_def)
  have h': "host_bridges h' = notifier_call_chain (he_jiffies env) NETDEV_DOWN ?i (host_bridges h2)"
    using dev_close_port [OF assms(1-3,5), of env] assms(6) by (auto simp: h2_def)
  then obtain b where b: "b \<in> set (host_bridges h2)"
    "q \<in> set (port_list (case port_of_dev ?i b of Some r \<Rightarrow> br_device_event (he_jiffies env) NETDEV_DOWN (port_no r) b | None \<Rightarrow> b))"
    using assms(7) by (auto simp: all_ports_def notifier_call_chain_def)
  have "ifindex (p_dev q) \<in> ifindex ` p_dev ` set (port_list b)" if "q \<in> set (port_list b)" using that by (intro imageI)
  then obtain r where r: "port_of_dev ?i b = Some r"
    using assms(8) b(2) by (cases "port_of_dev ?i b") (auto simp: port_of_dev_None)
  obtain a where a: "a \<in> set (host_bridges h)"
    "b = a\<lparr>br_dev := upd_if ?i (\<lambda>d. d\<lparr>dev_up := False\<rparr>) (br_dev a),
           port_list := map (\<lambda>p. p\<lparr>p_dev := upd_if ?i (\<lambda>d. d\<lparr>dev_up := False\<rparr>) (p_dev p)\<rparr>) (port_list a)\<rparr>"
    using b(1) by (auto simp: h2_def upd_dev_def)
  obtain r0 where r0: "r0 \<in> set (port_list a)" "p_dev r = upd_if ?i (\<lambda>d. d\<lparr>dev_up := False\<rparr>) (p_dev r0)" "ifindex (p_dev r) = ?i"
    using port_of_dev_Some [OF r] a(2) by auto
  then have i: "ifindex (p_dev r0) = ?i" by (simp add: upd_if_def split: if_splits)
  have "a = br" by (rule machine_port_owner(1) [OF assms(1) a(1) assms(2) r0(1) assms(3) i])
  moreover have "ifindex (br_dev br) \<noteq> ?i" by (rule port_dev_no_bridge [OF assms(1-3,2)])
  ultimately have up: "dev_up (br_dev b)" using a(2) assms(4) by (simp add: upd_if_def)
  note off = down_event_off [OF ok b(1) r up, of q "he_jiffies env"]
  show "p_state q = BR_STATE_DISABLED" using off(1) b(2) r assms(8) by simp
  have "p_dev q = p_dev r" using off(2) b(2) r assms(8) by simp
  then show "\<not> dev_up (p_dev q)" using r0(2) i by (simp add: upd_if_def)
qed

text \<open>The flag for promiscuous mode does not matter to the ports.\<close>

definition port_facts :: "net_bridge_port \<Rightarrow> nat \<times> br_state \<times> bool" where
  "port_facts p = (ifindex (p_dev p), p_state p, dev_up (p_dev p))"

lemma port_facts_upd_dev:
  assumes "\<And>d. ifindex (f d) = ifindex d \<and> dev_up (f d) = dev_up d"
  shows "port_facts ` set (all_ports (upd_dev i f h)) = port_facts ` set (all_ports h)"
proof -
  let ?g = "\<lambda>p. p\<lparr>p_dev := upd_if i f (p_dev p)\<rparr>"
  have "set (all_ports (upd_dev i f h)) = ?g ` set (all_ports h)" by (simp add: all_ports_def upd_dev_def image_UN)
  moreover have "port_facts (?g p) = port_facts p" for p using assms by (simp add: port_facts_def upd_if_def)
  ultimately show ?thesis by (simp add: image_image)
qed

lemma change_flags_close:
  assumes "dev_up dev" "dev_close env dev h = Some (0, h1)"
  shows "\<exists>h'. dev_change_flags env drv False promisc dev h = Some (0, h') \<and> port_facts ` set (all_ports h') = port_facts ` set (all_ports h1)"
  using assms by (simp add: dev_change_flags_def dev_set_promiscuity_def port_facts_upd_dev)

text \<open>C4: Taking down the device of a port on a bridge that is up succeeds and disables the port: the device is still on the
port, the port is in the disabled state and its device is down; the machine stays well formed.\<close>

theorem device_down_disables_port:
  assumes "machine_ok h" "he_capable env" "br \<in> set (host_bridges h)" "p \<in> set (port_list br)" "dev_up (br_dev br)" "dev_up (p_dev p)"
  shows "\<exists>h'. dev_ioctl env drv (dev_name (p_dev p)) (SIOCSIFFLAGS False promisc) h = Some (0, No_answer, h') \<and> machine_ok h'
    \<and> (\<exists>q\<in>set (all_ports h'). ifindex (p_dev q) = ifindex (p_dev p))
    \<and> (\<forall>q\<in>set (all_ports h'). ifindex (p_dev q) = ifindex (p_dev p) \<longrightarrow> p_state q = BR_STATE_DISABLED \<and> \<not> dev_up (p_dev q))"
proof -
  let ?i = "ifindex (p_dev p)"
  have "dev_br_port (p_dev p) \<noteq> Dangling_port" using machine_bridge(3) [OF assms(1,3,4)] by simp
  then obtain h1 where h1: "dev_close env (p_dev p) h = Some (0, h1)" "port_idx h1 = port_idx h"
    using machine_ok_dev_close [OF assms(1)] by blast
  obtain h' where h': "dev_change_flags env drv False promisc (p_dev p) h = Some (0, h')"
    "port_facts ` set (all_ports h') = port_facts ` set (all_ports h1)"
    using change_flags_close [OF assms(6) h1(1)] by blast
  note dev = dev_now_port [OF assms(1,3,4)]
  then obtain d where d: "dev_get_by_name (dev_name (p_dev p)) h = Some d" "ifindex d = ?i" by blast
  have req: "dev_ioctl env drv (dev_name (p_dev p)) (SIOCSIFFLAGS False promisc) h = Some (0, No_answer, h')"
    using d dev(1) ifr_name_good [OF dev(4)] assms(2) h'(1) by (simp add: dev_ioctl_def)
  then have "machine_ok h'"
    using machine_ok_if_request [OF assms(1), of "SIOCSIFFLAGS False promisc" env drv "dev_name (p_dev p)"] by (auto simp: request_ok_def)
  moreover have "?i \<in> set (port_idx h1)" using h1(2) assms(3,4) by (force simp: port_idx_ports all_ports_def)
  then have "?i \<in> fst ` port_facts ` set (all_ports h')" unfolding h'(2) by (auto simp: port_idx_ports port_facts_def image_image)
  then have "\<exists>q\<in>set (all_ports h'). ifindex (p_dev q) = ?i" by (auto simp: port_facts_def)
  moreover have "p_state q = BR_STATE_DISABLED \<and> \<not> dev_up (p_dev q)" if "q \<in> set (all_ports h')" "ifindex (p_dev q) = ?i" for q
  proof -
    have "port_facts q \<in> port_facts ` set (all_ports h1)" unfolding h'(2) [symmetric] using that(1) by (rule imageI)
    then obtain r where "r \<in> set (all_ports h1)" "port_facts q = port_facts r" by blast
    then show ?thesis using close_disables_port [OF assms(1,3,4,5,6) h1(1), of r] that(2) by (simp add: port_facts_def)
  qed
  ultimately show ?thesis using req by blast
qed

definition demo_running :: br_host where
  "demo_running = upd_bridge 0 (\<lambda>br. br\<lparr>br_dev := (br_dev br)\<lparr>dev_up := True\<rparr>\<rparr>) demo_machine"

lemma demo_running_ok: "machine_ok demo_running"
proof -
  have "demo_running = upd_dev 5 (\<lambda>d. d\<lparr>dev_up := True\<rparr>) demo_machine"
    by (simp add: demo_running_def upd_bridge_def upd_dev_def upd_if_def demo_machine_def demo_host_def demo_defs)
  then show ?thesis using machine_ok_upd_dev(1) [OF demo_machine_ok, of 5 "\<lambda>d. d\<lparr>dev_up := True\<rparr>"]
    by (simp add: dev_attr_def ident_def)
qed

theorem device_down_disables_port_witness:
  "\<exists>h'. dev_ioctl demo_env demo_drivers ''eth'' (SIOCSIFFLAGS False False) demo_running = Some (0, No_answer, h')
    \<and> (\<exists>q\<in>set (all_ports h'). ifindex (p_dev q) = 2 \<and> p_state q = BR_STATE_DISABLED)"
proof -
  let ?br = "host_bridges demo_running ! 0" and ?p = "demo_port 2 BR_STATE_FORWARDING"
  have br: "?br \<in> set (host_bridges demo_running)" "?p \<in> set (port_list ?br)" "dev_up (br_dev ?br)"
    by (simp_all add: demo_running_def upd_bridge_def demo_machine_def demo_host_def demo_bridge_def)
  have p: "dev_up (p_dev ?p)" "dev_name (p_dev ?p) = ''eth''" "ifindex (p_dev ?p) = 2"
    by (simp_all add: demo_port_def raw_port_def demo_dev_def)
  show ?thesis
    using device_down_disables_port [OF demo_running_ok demo_ctl_simps(3) br p(1), of demo_drivers False] unfolding p(2,3) by blast
qed

text \<open>C30: A port that has been disabled stays disabled, whatever spanning tree messages arrive, whatever timers run out and
whatever happens to the other ports, until it is enabled itself.\<close>

theorem disabled_port_stays_disabled:
  assumes "(stp_event n)\<^sup>*\<^sup>* (br_stp_disable_port j n br) br'" "p \<in> set (port_list br')" "port_no p = n"
  shows "p_state p = BR_STATE_DISABLED"
  using port_off_events [OF assms(1) port_off_disable_port] assms(2,3) by (simp add: port_off_def)

theorem disabled_port_stays_disabled_witness:
  "\<exists>p\<in>set (port_list (br_tick 7 (br_stp_disable_port 5 2 (demo_bridge [demo_port 2 BR_STATE_FORWARDING])))).
     port_no p = 2 \<and> p_state p = BR_STATE_DISABLED"
proof -
  let ?b = "br_stp_disable_port 5 2 (demo_bridge [demo_port 2 BR_STATE_FORWARDING])"
  have "map port_no (port_list (br_tick 7 ?b)) = [2]" by code_simp
  then obtain p where p: "p \<in> set (port_list (br_tick 7 ?b))" "port_no p = 2" by force
  have "(stp_event 2)\<^sup>*\<^sup>* ?b (br_tick 7 ?b)" by (intro r_into_rtranclp ev_tick)
  from disabled_port_stays_disabled [OF this p] show ?thesis using p by blast
qed

end
