(* ===== verification/Spec2Isabelle.thy ===== *)
theory Spec2Isabelle
  imports Br_Stp_Props Br_Fdb_Props Br_Filter_Props Br_Forward_Props Br_Mfd_Props Br_Ctl_Props Br_Machine_Props
begin

text \<open>
  \<^bold>\<open>The Ethernet bridge of the WAG200G firmware.\<close>

  The repository is the firmware of a DSL router: a Linux 2.4.17 kernel for a little-endian MIPS32
  processor and the applications around it. This library models the part of the kernel that moves
  frames between the router's LAN interfaces, the bridge of kernel/src/net/bridge, and the program that
  controls it, brctl of apps/bridge-utils-0.9.5. The kernel is in the configuration
  that is built: the fast path (\<^verbatim>\<open>TI_SLOW_PATH\<close> undefined), \<^verbatim>\<open>CONFIG_BRIDGED_MULTICAST\<close> defined,
  \<^verbatim>\<open>CONFIG_BRIDGE_CONF_MODE\<close> undefined, IPsec as a module, HZ = 100, one processor. What the compiler
  does not see (\<^verbatim>\<open>#if 0\<close>) is not modelled.

  \<^bold>\<open>Parts and theories.\<close>

  \<^item> Br_Prelude: machine words, \<^verbatim>\<open>memcmp\<close> as lib/string.c has it (the result goes through a signed
    char), \<^verbatim>\<open>strcmp\<close> and \<^verbatim>\<open>strncmp\<close> of asm-mips/string.h, \<^verbatim>\<open>time_after_eq\<close>, lists searched by a key.
  \<^item> Br_Data: the records of br_private.h and br_private_stp.h (\<^verbatim>\<open>struct net_bridge\<close>,
    \<^verbatim>\<open>net_bridge_port\<close>, \<^verbatim>\<open>net_bridge_fdb_entry\<close>, \<^verbatim>\<open>bridge_fw_db_entry\<close>, \<^verbatim>\<open>br_config_bpdu\<close>), bridge
    identifiers with their order, port states with the bit values of the fast path, timers.
  \<^item> Br_Bpdu: br_stp_bpdu.c, messages to and from bytes, and access to the ports of a bridge.
  \<^item> Br_Stp, Br_Stp_If: br_stp.c, br_stp_timer.c and br_stp_if.c, the spanning tree machine: root
    selection, designated ports, port states, topology changes, received messages, timers, the tick,
    enabling and disabling ports and bridges, priorities and costs.
  \<^item> Br_Stp_Spec: what that machine should compute, by IEEE 802.1D: best priority vectors and roles.
  \<^item> Br_Fdb, Br_Hash_Chain: br_fdb.c and the lookup of br_forward.c, the forwarding database, as a
    list per bucket and, below it, as the doubly linked pointer chains of the code.
  \<^item> Br_Filter: br_filter.c, the MAC filter. Br_Proc: br.c, the VPN triggers and the source address
    filters with the files that write and show them, and what the module registers.
  \<^item> Br_Forward: br_forward.c and br_input.c, sending, flooding, reception and transmission.
  \<^item> Br_If, Br_Ioctl: br_if.c, br_device.c, br_notify.c and br_ioctl.c, bridges and ports coming and
    going, device events and control calls.
  \<^item> Br_Mfd_Table: br_mfd.c, the table of multicast groups with its linked lists of ports on an explicit
    heap and the timers of their members. Br_Mfd_Heap and Br_Mfd_Member: what a well-formed table is, and
    what the operations do to it and to the members of a group. Br_Mfd: the handlers of multicast frames
    and \<^verbatim>\<open>br_selective_flood\<close> of br_forward.c. Br_Mfd_Inv: what the handlers keep.
  \<^item> Br_Safety: the invariant of a bridge and the steps that can happen to it. Br_Stp_Off: a disabled port stays
    disabled.
  \<^item> Br_Netdev: the registration of devices, \<^verbatim>\<open>dev_alloc_name\<close>, \<^verbatim>\<open>dev_new_index\<close> and \<^verbatim>\<open>register_netdevice\<close> of
    net/core/dev.c and \<^verbatim>\<open>register_netdev\<close> of drivers/net/net_init.c.
  \<^item> Br_Host: the machine a program sees, its bridges and its other devices, and the system calls that reach
    the bridge, \<^verbatim>\<open>SIOCGIFBR\<close> of net/ipv4/af_inet.c and \<^verbatim>\<open>SIOCDEVPRIVATE\<close> of net/core/dev.c, down to Br_Ioctl.
  \<^item> Br_Lib: libbridge, the copy of the bridges that \<^verbatim>\<open>br_init\<close> reads and one function per request. Br_Ctl:
    brctl.c, brctl_cmd.c and brctl_disp.c, the commands with their output and exit codes and the main
    program, over what they use of the C library (number formats, \<^verbatim>\<open>strtol\<close>, \<^verbatim>\<open>strtok\<close>, \<^verbatim>\<open>qsort\<close>, arithmetic on
    \<^verbatim>\<open>double\<close>). Br_Ctld: brctld.c, what a line of a network client does to the process that serves it.
  \<^item> Br_Netops: what happens to devices that are on bridges (net/core/dev.c): \<^verbatim>\<open>dev_open\<close>, \<^verbatim>\<open>dev_close\<close>, the requests
    of \<^verbatim>\<open>dev_ifsioc\<close>, a driver's device that comes or goes, each with the events it sends to the bridges.
  \<^item> Br_Machine, Br_Machine_Steps: what a well-formed machine of several bridges and many devices is, that every
    operation keeps it, and the steps of the machine (\<open>machine_step\<close>).
  \<^item> Br_Demo: concrete bridges. Br_Stp_Props, Br_Fdb_Props, Br_Filter_Props, Br_Forward_Props,
    Br_Mfd_Props, Br_Ctl_Props, Br_Machine_Props and this theory: the properties.

  \<^bold>\<open>State.\<close> A bridge is the record \<^verbatim>\<open>net_bridge\<close>; an operation of the code is a function from bridge to
  bridge, with the tick counter \<^verbatim>\<open>jiffies\<close> and the arguments of the call as parameters. A pointer to a
  port is the port's number, looked up in the port list at each access; a lookup that fails is the
  NULL or dangling pointer of the code and sets \<open>oopsed\<close>. Four fields are not in the code: \<open>out\<close>
  records the calls through which packets leave (driver, local stack, allocator), \<open>mem\<close> holds the
  outcomes of the coming allocations (empty: all succeed), \<open>next_skb\<close> names buffers and \<open>oopsed\<close> is
  the fault flag. The locks of the code are not modelled, except the lock of the filter list, which is
  a counter because one path forgets to release it: the kernel runs these paths one at a time on the
  one processor the router has. Words keep their width, so sums of costs, tick counters and statistics
  wrap as they do in the code. The machine is a list of bridges and a list of the other devices; a device that is on a
  port is kept in the record of the port, one that is not in the list, and a bridge's own device in
  the record of the bridge. Operations that would follow a dangling pointer of a device give \<open>None\<close>.

  \<^bold>\<open>What is shown.\<close> The invariant of Br_Safety holds in every reachable state, so that no path that is
  modelled follows a bad pointer (this theory). Root selection, designated ports and port states are
  those of the standard whenever the identifiers compare correctly (Br_Stp_Props), and a bridge of
  default priority refuses the best identifiers because they do not. Messages survive encoding and
  decoding up to one clock tick per time. Learning, ageing and removal behave as a map from addresses
  to ports (Br_Fdb_Props, through the interface \<open>address_table\<close>), and the pointer chains refine the lists
  (through the interface \<open>chain_table\<close>). Every frame is released exactly once, floods reach the right
  ports, known stations get their frames on one port (Br_Forward_Props). Filters decide by the first
  matching entry, and the cases where they do not do what their configuration says are stated as such
  (Br_Filter_Props). The members of a multicast group are the ports whose last word was a report, through
  the interface \<open>member_registry\<close>, data goes to them and reports to the ports that are not marked; removing
  a port, on the other hand, leaves a running timer behind and can tangle the lists of two groups
  (Br_Mfd_Props). A program that asks for the bridges gets the kernel's list; times that are set reach the
  bridge that was named and nothing else; a bridge that is created can be deleted again without a trace;
  showmacs ends and prints every entry, and commands that show something change nothing (Br_Ctl_Props,
  through the interface \<open>bridge_control\<close>, which is what a caller of the control calls relies on). What does not
  work is stated as well: a filter that is added from the command line is not the filter that was asked for, a read that fails
  is taken for a count, some ports are not found, some times lose a jiffy, and in the daemon every command on a
  bridge follows a pointer to freed memory. The machine as a whole stays well formed (Br_Machine_Props): devices and ports
  point at each other, no device is on two ports, names and indices are unique; a run of brctl is at most one step of it;
  no request on a device follows a dangling pointer; a device that goes down disables its port, one that is removed
  leaves every bridge; the search for an index ends and names from patterns are free and fit. The guards of the
  steps are what the code does not check itself, and what happens without two of them is stated: a name
  that cannot be registered leaves a bridge that no request reaches, and a full bridge leaves a device whose next event
  follows a dangling pointer.

  \<^bold>\<open>Bounds and fuel.\<close> Loops over lists are structural recursion or folds; \<open>del_ifs\<close> ends because each
  round removes a port. The pointer-level sweep takes fuel, and the length of the chain is enough. The
  walks of the lists of a multicast group take one more step than addresses were ever handed out, which is
  enough for every list without a cycle; in a circle the code would not stop, and the model gives \<open>None\<close>.
  The loop of showmacs is a partial function whose value \<open>None\<close> is a loop that does not end; that it ends is
  shown for tables of fewer than 2^31 entries, since the offset is a 32-bit int. The search for an interface index
  is a partial function as well, which ends whenever one of the positive 32-bit numbers is free.
  Times on the wire are exact to a tick below 256 seconds, timers below 2^31 ticks.

  \<^bold>\<open>Not modelled.\<close> The code of br_mfd.c under \<^verbatim>\<open>CONFIG_BRIDGE_CONF_MODE\<close>, which is not built. No code
  that is compiled calls the multicast frame handlers; they are modelled as they stand, with steps of their
  own (\<open>mc_step\<close>), while the table of groups is empty in the steps of Br_Safety. The table of
  functions that br_dev_setup fills in. Of the network devices: packet schedulers, multicast address lists, resource
  maps, flags other than up and promiscuous, the other subscribers of the notifier chain and the wait for references when
  a device is removed; devices count as present while they are on the list. Bridges as ports of bridges are modelled in
  the control calls, but are left out of the steps of the machine. The rest of the kernel and the other applications; of brctld, the
  sockets and the processes. Of the C library, the conversion of a text to a
  number of type \<^verbatim>\<open>double\<close> is a parameter (\<open>ce_scan_lf\<close>), as are the texts of error numbers and the contents of
  memory that is read before it is written. Code outside the bridge that
  the bridge calls (drivers, the network stack, the allocator, user memory) appears as recorded calls
  or as parameters.
\<close>

section \<open>Safety of a bridge in operation\<close>

text \<open>C1: In every state that a bridge reaches from its creation by frames, ticks, protocol messages, device
  events, control calls and writes to the module's files, port numbers are distinct and within 1 to 254, a
  bridge that is not the root has its root port on the list, every entry of the forwarding database is on
  the chain of its address, holds a reference and leads to a port of the bridge, and no NULL or dangling
  pointer has been followed. A tick at which a topology change notification is due on the root bridge is
  left out, devices named by control calls belong to this bridge or to none, and multicast frames do not
  reach the table of groups, as in the build.\<close>

theorem reachable_bridge_safe:
  assumes "bridge_step\<^sup>*\<^sup>* (g, new_nb name m i) s"
  shows "distinct (port_nos (snd s)) \<and> set (port_nos (snd s)) \<subseteq> {1..<255} \<and> root_ok (snd s)
    \<and> fdb_hashed (snd s) \<and> fdb_ports (snd s) \<and> \<not> oopsed (snd s)"
  using bridge_inv_reachable [OF assms] by (simp add: bridge_inv_def)

theorem reachable_bridge_safe_witness:
  "\<not> oopsed (snd (on_bridge (br_tick 7) (on_bridge (\<lambda>br. (br_dev_open 5 br)\<lparr>br_dev := (br_dev (br_dev_open 5 br))\<lparr>dev_up := True\<rparr>\<rparr>)
     (demo_empty_globals, new_nb ''br0'' [] 0))))"
proof -
  let ?s0 = "(demo_empty_globals, new_nb ''br0'' [] 0)"
  let ?s1 = "on_bridge (\<lambda>br. (br_dev_open 5 br)\<lparr>br_dev := (br_dev (br_dev_open 5 br))\<lparr>dev_up := True\<rparr>\<rparr>) ?s0"
  have "bridge_step ?s0 ?s1" by (rule step_open)
  moreover have "bridge_step ?s1 (on_bridge (br_tick 7) ?s1)"
  proof (rule step_tick)
    have "tcn_safe 7 (snd (on_bridge (\<lambda>br. (br_dev_open 5 br)\<lparr>br_dev := (br_dev (br_dev_open 5 br))\<lparr>dev_up := True\<rparr>\<rparr>)
      (demo_empty_globals, demo_bridge [])))" by code_simp
    moreover have "demo_bridge [] = new_nb ''br0'' [] 0" by (simp add: demo_bridge_def new_nb_def Let_def br_mfd_init_def)
    ultimately show "tcn_safe 7 (snd ?s1)" by simp
  qed
  ultimately have "bridge_step\<^sup>*\<^sup>* ?s0 (on_bridge (br_tick 7) ?s1)" by (meson converse_rtranclp_into_rtranclp r_into_rtranclp)
  then show ?thesis using reachable_bridge_safe by blast
qed

section \<open>Interfaces\<close>

lemma free_port_no_least:
  "free_port_no br = Some i \<longleftrightarrow> i \<in> {1..<255} \<and> i \<notin> set (port_nos br) \<and> (\<forall>j. 1 \<le> j \<longrightarrow> j < i \<longrightarrow> j \<in> set (port_nos br))"
proof -
  have "find P [a..<b] = Some i \<longleftrightarrow> a \<le> i \<and> i < b \<and> P i \<and> (\<forall>j. a \<le> j \<longrightarrow> j < i \<longrightarrow> \<not> P j)" for P and a b :: nat
  proof (induction "b - a" arbitrary: a)
    case (Suc d)
    then have "[a..<b] = a # [Suc a..<b]" by (simp add: upt_rec)
    with Suc.hyps(1) [of "Suc a"] Suc.hyps(2) show ?case
      by auto (metis Suc_leI le_neq_implies_less le_eq_less_or_eq)+
  qed simp
  then show ?thesis unfolding free_port_no_def br_get_port_None_iff by auto
qed

text \<open>A device that joins a bridge gets the lowest number between 1 and 254 that no port has. On a full
  bridge the call fails with the bridge unchanged, but leaves the device pointing at a port that has been
  freed.\<close>

theorem add_if_lowest_number:
  assumes "bridge_inv br" and "mem br = []" and "dev_br_port dev = No_port" and "\<not> dev_loopback dev" and "dev_ether dev"
  shows "case br_add_if jiffies dev br of (ret, dev', br') \<Rightarrow>
    if {1..<255} \<subseteq> set (port_nos br)
    then ret = - EXFULL \<and> dev_br_port dev' = Dangling_port \<and> br' = br
    else \<exists>i\<in>{1..<255}. ret = 0 \<and> dev_br_port dev' = Port i \<and> port_nos br' = i # port_nos br
           \<and> i \<notin> set (port_nos br) \<and> (\<forall>j. 1 \<le> j \<longrightarrow> j < i \<longrightarrow> j \<in> set (port_nos br))"
proof (cases "free_port_no br")
  case None
  then have "{1..<255} \<subseteq> set (port_nos br)" using free_port_no_None by blast
  then show ?thesis
    using assms(2-) None by (simp add: br_add_if_def new_nbp_def Let_def alloc_frame(5))
next
  case (Some i)
  define dev1 where "dev1 = dev\<lparr>dev_refcnt := dev_refcnt dev + 1, dev_br_port := Port i\<rparr>"
  define p where "p = (init_port br ((raw_port dev1)\<lparr>port_no := i\<rparr>))\<lparr>p_state := BR_STATE_DISABLED\<rparr>"
  define dev2 where "dev2 = dev1\<lparr>promiscuity := promiscuity dev1 + 1\<rparr>"
  define b1 where "b1 = upd_port i (\<lambda>p. p\<lparr>p_dev := dev2\<rparr>) (br\<lparr>port_list := p # port_list br\<rparr>)"
  define b2 where "b2 = br_stp_recalculate_bridge_id jiffies b1"
  define b3 where "b3 = br_fdb_insert jiffies (Some i) (dev_addr dev2) True b2"
  have add: "br_add_if jiffies dev br = (0, dev2, if dev_up (br_dev b3) \<and> dev_up dev2 then br_stp_enable_port jiffies i b3 else b3)"
    using assms(2-) Some
    by (simp add: br_add_if_def new_nbp_def Let_def alloc_frame(5) dev1_def p_def dev2_def b1_def b2_def b3_def
        split del: if_split cong: if_cong)
  have "port_no p = i" by (simp add: p_def init_port_def br_become_designated_port_def)
  then have n1: "port_nos b1 = i # port_nos br"
    by (simp add: b1_def port_nos_upd_port) (simp add: port_nos_def)
  have "root_ok b1" using bridge_invD(2) [OF assms(1)] by (auto simp: root_ok_def n1) (simp_all add: b1_def upd_port_def)
  then have s2: "sound b1 b2" unfolding b2_def by (rule sound_stp_recalculate_bridge_id)
  then have n3: "port_nos b3 = i # port_nos br" "root_ok b3"
    using n1 soundD [OF s2] by (simp_all add: b3_def br_fdb_insert_frame root_ok_def br_fdb_insert_frame2)
  then have "port_nos (br_stp_enable_port jiffies i b3) = i # port_nos br"
    using keeps_port_nos [OF keeps_stp_enable_port] by simp
  moreover have "\<not> {1..<255} \<subseteq> set (port_nos br)" using Some free_port_no_None [of br] by simp
  ultimately show ?thesis
    using n3 add Some by (simp add: free_port_no_least dev2_def dev1_def)
qed

definition demo_new_dev :: net_device where
  "demo_new_dev = (demo_dev 9)\<lparr>dev_br_port := No_port\<rparr>"

theorem add_if_lowest_number_witness:
  "\<exists>i\<in>{1..<255}. dev_br_port (fst (snd (br_add_if 5 demo_new_dev demo_switch))) = Port i \<and> i \<notin> {1, 2, 3}"
proof -
  have nos: "port_nos demo_switch = [1, 2, 3]" by code_simp
  have "mem demo_switch = []" "dev_br_port demo_new_dev = No_port" "\<not> dev_loopback demo_new_dev" "dev_ether demo_new_dev"
    by code_simp+
  note add = add_if_lowest_number [OF demo_switch_inv this, of 5, unfolded nos]
  have "(4 :: nat) \<in> {1..<255}" "(4 :: nat) \<notin> set [1, 2, 3]" by simp_all
  then have "\<not> {1..<255} \<subseteq> set [1, 2, 3 :: nat]" by blast
  note add' = add [unfolded if_not_P [OF this]]
  obtain r d b where r: "br_add_if 5 demo_new_dev demo_switch = (r, d, b)" by (rule prod_cases3)
  show ?thesis using add' unfolding r by auto
qed

text \<open>C28: A device that leaves a bridge is gone from it: no port has its number, no entry of the table leads
  to it, the root port is another one, and the device itself no longer points at the bridge.\<close>

theorem del_if_leaves_no_trace:
  assumes "bridge_inv br" and "dev_br_port dev = Port n" and "n \<in> set (port_nos br)"
  shows "case br_del_if jiffies dev br of (ret, dev', br') \<Rightarrow>
    ret = 0 \<and> dev_br_port dev' = No_port \<and> bridge_inv br' \<and> port_nos br' = remove1 n (port_nos br)
    \<and> n \<notin> set (port_nos br') \<and> fdb_all (\<lambda>i f. fdb_dst f \<noteq> Some n) br'
    \<and> (bridge_ident br' \<noteq> designated_root br' \<longrightarrow> root_port br' \<noteq> n)"
proof -
  obtain p where p: "br_get_port br n = Some p" using assms(3) br_get_port_ex_iff [of br n] by blast
  let ?b = "del_port jiffies n br"
  have inv: "bridge_inv ?b" by (rule bridge_inv_del_port [OF assms(1,3)])
  let ?c = "br_stp_recalculate_bridge_id jiffies ?b"
  have invc: "bridge_inv ?c" by (rule bridge_inv_recalculate [OF inv])
  have nos: "port_nos ?c = remove1 n (port_nos br)"
    using soundD(2) [OF sound_stp_recalculate_bridge_id [OF bridge_invD(2) [OF inv]]] by (simp add: port_nos_del_port)
  then have gone: "n \<notin> set (port_nos ?c)" using bridge_invD(1) [OF assms(1)] by simp
  have "fdb_all (\<lambda>i f. fdb_dst f \<in> Some ` set (port_nos ?c)) ?c" using bridge_invD(4) [OF invc] by (simp add: fdb_ports_def)
  then have "fdb_all (\<lambda>i f. fdb_dst f \<noteq> Some n) ?c" using gone by (fastforce simp: fdb_all_def)
  moreover have "bridge_ident ?c \<noteq> designated_root ?c \<longrightarrow> root_port ?c \<noteq> n"
    using bridge_invD(2) [OF invc] gone by (auto simp: root_ok_def)
  ultimately show ?thesis
    using nos gone invc by (simp add: br_del_if_def br_del_if_unlocked_def assms(2) p release_dev_def)
qed

theorem del_if_leaves_no_trace_witness:
  "port_nos (snd (snd (br_del_if 5 (demo_dev 2) demo_switch))) = [1, 3]"
proof -
  have nos: "port_nos demo_switch = [1, 2, 3]" by code_simp
  have "dev_br_port (demo_dev 2) = Port 2" by (simp add: demo_dev_def)
  from del_if_leaves_no_trace [OF demo_switch_inv this, of 5, unfolded nos] show ?thesis
    by (cases "br_del_if 5 (demo_dev 2) demo_switch") simp
qed

text \<open>Removing all ports of a bridge, as deleting it does, ends, and ends with no ports and an empty
  table.\<close>

theorem del_ifs_empties:
  assumes "bridge_inv br"
  shows "port_list (del_ifs jiffies br) = [] \<and> bridge_inv (del_ifs jiffies br) \<and> fdb_all (\<lambda>i f. False) (del_ifs jiffies br)"
proof -
  have "port_list (del_ifs jiffies br) = [] \<and> bridge_inv (del_ifs jiffies br)"
    using assms
  proof (induction jiffies br rule: del_ifs.induct)
    case (1 jiffies br)
    show ?case
    proof (cases "port_list br")
      case Nil
      then show ?thesis using "1.prems" by (subst (1 2) del_ifs.simps) simp
    next
      case (Cons p ps)
      have "bridge_inv (del_port jiffies (port_no p) br)"
        by (rule bridge_inv_del_port [OF "1.prems"]) (simp add: port_nos_def Cons)
      with "1.IH" [OF Cons] Cons show ?thesis by (subst (1 2) del_ifs.simps) simp
    qed
  qed
  then show ?thesis
    using bridge_invD(4) [of "del_ifs jiffies br"] by (simp add: fdb_ports_def fdb_all_def port_nos_def)
qed

theorem del_ifs_empties_witness: "port_list (del_ifs 5 demo_switch) = []"
  using del_ifs_empties [OF demo_switch_inv] by blast

section \<open>Control calls\<close>

text \<open>What a control call sets is what the next query reports; the times of the whole tree follow at once
  on the root bridge only.\<close>

theorem settings_reported:
  "(let b = snd (snd (br_ioctl_device j env BRCTL_SET_BRIDGE_FORWARD_DELAY v a1 a2 br)); i = br_bridge_info j' b
    in bi_bridge_forward_delay i = v \<and> bi_forward_delay i = (if br_is_root_bridge br then v else forward_delay br))
   \<and> (let b = snd (snd (br_ioctl_device j env BRCTL_SET_BRIDGE_HELLO_TIME v a1 a2 br)); i = br_bridge_info j' b
      in bi_bridge_hello_time i = v \<and> bi_hello_time i = (if br_is_root_bridge br then v else hello_time br))
   \<and> (let b = snd (snd (br_ioctl_device j env BRCTL_SET_BRIDGE_MAX_AGE v a1 a2 br)); i = br_bridge_info j' b
      in bi_bridge_max_age i = v \<and> bi_max_age i = (if br_is_root_bridge br then v else max_age br))
   \<and> bi_ageing_time (br_bridge_info j' (snd (snd (br_ioctl_device j env BRCTL_SET_AGEING_TIME v a1 a2 br)))) = v
   \<and> bi_gc_interval (br_bridge_info j' (snd (snd (br_ioctl_device j env BRCTL_SET_GC_INTERVAL v a1 a2 br)))) = v
   \<and> bi_stp_enabled (br_bridge_info j' (snd (snd (br_ioctl_device j env BRCTL_SET_BRIDGE_STP_STATE v a1 a2 br)))) = (v \<noteq> 0)
   \<and> bi_br_filter_active (br_bridge_info j' (snd (snd (br_ioctl_device j env BRCTL_SET_FILTER_STATE v a1 a2 br)))) = (v \<noteq> 0)"
  by (simp add: br_bridge_info_def Let_def)

text \<open>The list of interface indices has the index of each port at the port's number, and zeroes
  elsewhere.\<close>

theorem port_indices_by_number:
  assumes "bridge_inv br" and "k < 256"
  shows "br_get_port_ifindices br (replicate 256 0) ! k =
    (case br_get_port br k of None \<Rightarrow> 0 | Some p \<Rightarrow> ifindex (p_dev p))"
proof -
  have "fold (\<lambda>p is. is[port_no p := ifindex (p_dev p)]) ps is ! k =
      (case find (\<lambda>p. port_no p = k) ps of None \<Rightarrow> is ! k | Some p \<Rightarrow> ifindex (p_dev p))"
    if "distinct (map port_no ps)" and "length is = 256" for ps "is"
    using that
  proof (induction ps arbitrary: "is")
    case (Cons p ps)
    then show ?case
      using assms(2) find_key_None_iff [of port_no k ps] by (auto simp: nth_list_update split: option.split)
  qed simp
  from this [of "port_list br" "replicate 256 0"] show ?thesis
    using bridge_invD(1) [OF assms(1)] assms(2)
    by (simp add: br_get_port_ifindices_def br_get_port_def port_nos_def cong: option.case_cong)
qed

theorem port_indices_by_number_witness:
  "br_get_port_ifindices demo_switch (replicate 256 0) ! 2 = 2"
  using port_indices_by_number [OF demo_switch_inv, of 2] demo_switch_port(2) by (simp add: demo_port_def raw_port_def demo_dev_def)

end
